(* ===== verification/Prelude.thy ===== *)
theory Prelude
  imports Main "HOL-Library.Word" "HOL-Library.AList" "HOL-Library.List_Lexorder" "HOL-Library.Char_ord"
begin

text \<open>
  Shared vocabulary of the development: the machine types of \<^verbatim>\<open>types.rs\<close>, the outcome of an
  operation that can return an error or panic, association lists for the maps of the program,
  and the generic lemmas the components use.

  Maps. \<^verbatim>\<open>LinearMap\<close>, \<^verbatim>\<open>LinearSet\<close> and \<^verbatim>\<open>HashMap\<close> are association lists with distinct keys
  (\<open>lm_wf\<close>). A lookup is \<open>map_of\<close>, an insertion \<open>AList.update\<close> (it replaces the value of a
  present key and appends a new one), a removal \<open>AList.delete\<close>, \<^verbatim>\<open>retain\<close> is \<open>filter\<close>. The
  properties speak about the lookup function and the set of entries, so none of them depends on
  the order in which a map lists its entries.
\<close>

section \<open>Machine types\<close>

type_synonym u8 = "8 word"
type_synonym u16 = "16 word"
type_synonym u32 = "32 word"
type_synonym u64 = "64 word"

text \<open>Byte strings (\<^verbatim>\<open>Bytes\<close>, \<^verbatim>\<open>Vec<u8>\<close>, \<^verbatim>\<open>&[u8]\<close>) are lists of 8-bit characters.\<close>

type_synonym bytes = string

text \<open>Points in time (\<^verbatim>\<open>Instant\<close>) and durations, in milliseconds.\<close>

type_synonym instant = nat

section \<open>Outcomes\<close>

text \<open>
  The result of an operation: \<open>Ok\<close> and \<open>Err\<close> are the two variants of Rust's \<^verbatim>\<open>Result\<close>, \<open>Panic\<close>
  is a failed assertion, an \<^verbatim>\<open>unwrap\<close> of a missing value or an \<^verbatim>\<open>unreachable!\<close>.
\<close>

datatype ('a, 'e) res = Ok (the_ok: 'a) | Err 'e | Panic

fun res_bind :: "('a, 'e) res \<Rightarrow> ('a \<Rightarrow> ('b, 'e) res) \<Rightarrow> ('b, 'e) res" where
  "res_bind (Ok x) f = f x"
| "res_bind (Err e) f = Err e"
| "res_bind Panic f = Panic"

fun res_is_ok :: "('a, 'e) res \<Rightarrow> bool" where
  "res_is_ok (Ok _) = True"
| "res_is_ok _ = False"

lemma res_bind_Ok_iff: "res_bind r f = Ok y \<longleftrightarrow> (\<exists>x. r = Ok x \<and> f x = Ok y)"
  by (cases r) auto

lemma res_bind_cong [fundef_cong]:
  "r = r' \<Longrightarrow> (\<And>x. r' = Ok x \<Longrightarrow> f x = g x) \<Longrightarrow> res_bind r f = res_bind r' g"
  by (cases r') auto

section \<open>Association lists\<close>

abbreviation lm_wf :: "('k \<times> 'v) list \<Rightarrow> bool" where
  "lm_wf m \<equiv> distinct (map fst m)"

text \<open>Equality of two maps, whatever the order of their entries.\<close>

definition lm_eq :: "('k \<times> 'v) list \<Rightarrow> ('k \<times> 'v) list \<Rightarrow> bool" where
  "lm_eq a b \<longleftrightarrow>
     length a = length b \<and> list_all (\<lambda>(k, v). map_of b k = Some v) a"

named_theorems lm_simps \<open>lookups in updated association lists\<close>

lemma map_of_update [lm_simps]:
  "map_of (AList.update k v m) k' = (if k' = k then Some v else map_of m k')"
  by (simp add: update_conv')

lemma map_of_delete [lm_simps]:
  "map_of (AList.delete k m) k' = (if k' = k then None else map_of m k')"
  by (simp add: delete_conv')

lemma lm_wf_update: "lm_wf m \<Longrightarrow> lm_wf (AList.update k v m)"
  by (rule distinct_update)

lemma lm_wf_delete: "lm_wf m \<Longrightarrow> lm_wf (AList.delete k m)"
  by (rule distinct_delete)

lemma lm_wf_filter: "lm_wf m \<Longrightarrow> lm_wf (filter P m)"
  by (rule distinct_map_filter)

lemma map_of_filter_lm:
  "lm_wf m \<Longrightarrow> map_of (filter (\<lambda>(k, v). P k v) m) k =
     (case map_of m k of None \<Rightarrow> None | Some v \<Rightarrow> if P k v then Some v else None)"
  by (induction m) (auto simp: map_of_eq_None_iff split: option.splits)

lemmas lm_wf_intros = lm_wf_update lm_wf_delete lm_wf_filter

lemma map_of_in_set: "map_of m k = Some v \<Longrightarrow> (k, v) \<in> set m"
  by (rule map_of_SomeD)

lemma lm_wf_map_of_iff: "lm_wf m \<Longrightarrow> map_of m k = Some v \<longleftrightarrow> (k, v) \<in> set m"
  by simp

lemma set_update_wf:
  "lm_wf m \<Longrightarrow> set (AList.update k v m) = insert (k, v) {p \<in> set m. fst p \<noteq> k}"
proof (induction m)
  case (Cons p m)
  then show ?case
    by (cases p) (auto simp: rev_image_eqI)
qed simp

lemma fst_set_update: "fst ` set (AList.update k v m) = insert k (fst ` set m)"
  by (simp add: dom_map_of_conv_image_fst [symmetric] update_conv')

lemma fst_set_delete: "fst ` set (AList.delete k m) = fst ` set m - {k}"
  by (auto simp: dom_map_of_conv_image_fst [symmetric] delete_conv' split: if_splits)

lemma lm_wf_card_dom: "lm_wf m \<Longrightarrow> card (dom (map_of m)) = length m"
  by (metis distinct_card dom_map_of_conv_image_fst length_map set_map)

lemma length_eq_map_of:
  assumes "lm_wf a" "lm_wf b" "map_of a = map_of b"
  shows "length a = length b"
  using lm_wf_card_dom [OF assms(1)] lm_wf_card_dom [OF assms(2)] assms(3) by simp

lemma lm_eq_iff:
  assumes "lm_wf a" "lm_wf b"
  shows "lm_eq a b \<longleftrightarrow> map_of a = map_of b"
proof
  assume eq: "lm_eq a b"
  then have sub: "set a \<subseteq> set b"
    using assms by (auto simp: lm_eq_def list_all_iff)
  have "card (set a) = length a" "card (set b) = length b"
    using assms by (auto simp: distinct_card distinct_map)
  with eq sub have "set a = set b"
    by (metis List.finite_set card_subset_eq lm_eq_def)
  with assms show "map_of a = map_of b"
    by (metis map_of_inject_set)
next
  assume eq: "map_of a = map_of b"
  have "map_of b k = Some v" if "(k, v) \<in> set a" for k v
    using that assms(1) eq by (metis map_of_is_SomeI)
  then show "lm_eq a b"
    using length_eq_map_of [OF assms eq] by (simp add: lm_eq_def list_all_iff split_beta)
qed

section \<open>Machine words\<close>

lemma word_succ_unat:
  fixes x y :: "'a::len word"
  assumes "x < y"
  shows "unat (x + 1) = Suc (unat x)"
proof -
  have "unat x < unat y"
    using assms by (simp add: word_less_nat_alt)
  moreover have "unat y < 2 ^ LENGTH('a)"
    by (rule unsigned_less)
  ultimately have "Suc (unat x) < 2 ^ LENGTH('a)"
    by (metis Suc_leI order_le_less_trans)
  then show ?thesis
    by (simp add: unat_word_ariths)
qed

lemma word_less_succ_le:
  fixes x y :: "'a::len word"
  assumes "x < y"
  shows "x + 1 \<le> y"
  using assms by (rule inc_le)

lemma word_le_succ_iff:
  fixes x v :: "'a::len word"
  assumes "x + 1 \<noteq> 0"
  shows "v \<le> x + 1 \<longleftrightarrow> v \<le> x \<or> v = x + 1"
proof -
  have "unat (x + 1) = Suc (unat x)"
    using assms by (metis unatSuc add.commute)
  then show ?thesis
    by (auto simp: word_le_nat_alt word_unat_eq_iff)
qed

lemma word_less_succ:
  fixes x :: "'a::len word"
  assumes "x + 1 \<noteq> 0"
  shows "x < x + 1"
proof -
  have "unat (x + 1) = Suc (unat x)"
    using assms by (metis unatSuc add.commute)
  then show ?thesis
    by (simp add: word_less_nat_alt)
qed

lemma word_succ_le_less:
  fixes x v :: "'a::len word"
  assumes "x + 1 \<noteq> 0"
  shows "x + 1 \<le> v \<longleftrightarrow> x < v"
  using assms by (meson inc_le less_le_trans word_less_succ)

lemma unat_bound64: "unat (w :: 64 word) < 18446744073709551616"
  using unsigned_less [of w] by simp

lemma finite_word_set [simp]: "finite (A :: 'a::len word set)"
  by (rule finite_subset [OF subset_UNIV]) simp

section \<open>Lists\<close>

text \<open>\<^verbatim>\<open>iter().position(..)\<close>: the index of the first element that satisfies a predicate.\<close>

fun position :: "('a \<Rightarrow> bool) \<Rightarrow> 'a list \<Rightarrow> nat option" where
  "position p [] = None"
| "position p (x # xs) = (if p x then Some 0 else map_option Suc (position p xs))"

lemma position_None: "position p xs = None \<longleftrightarrow> (\<forall>x\<in>set xs. \<not> p x)"
  by (induction xs) auto

lemma position_append_Cons:
  "(\<forall>x\<in>set xs. \<not> p x) \<Longrightarrow> p y \<Longrightarrow> position p (xs @ y # ys) = Some (length xs)"
  by (induction xs) auto

lemma position_eq_None: "c \<notin> set xs \<Longrightarrow> position (\<lambda>x. x = c) xs = None"
  by (auto simp: position_None)

lemma position_eq_append:
  "c \<notin> set xs \<Longrightarrow> position (\<lambda>x. x = c) (xs @ c # ys) = Some (length xs)"
  by (rule position_append_Cons) auto

lemma position_Some:
  "position p xs = Some n \<longleftrightarrow> n < length xs \<and> p (xs ! n) \<and> (\<forall>m<n. \<not> p (xs ! m))"
  by (induction xs arbitrary: n) (auto simp: nth_Cons less_Suc_eq_0_disj split: nat.splits)

lemma map_add_upt_from: "map (\<lambda>i. i + n) [a..<b] = [a + n..<b + n]"
  by (induction b) auto

end
