(* ===== verification/Types.thy ===== *)
theory Types
  imports Prelude
begin

text \<open>
  \<^verbatim>\<open>types.rs\<close>, \<^verbatim>\<open>hash.rs\<close> and the arithmetic of \<^verbatim>\<open>utils.rs\<close>: identifiers, consistency levels and the
  quorum size, the RedisCluster hash slot of a key, the split of a node id. The CRC of the
  \<^verbatim>\<open>crc16\<close> crate is the parameter \<open>crc16\<close> of the definitions that use it.
\<close>

type_synonym node_id = u64
type_synonym physical_node_id = u32
type_synonym token = u64
type_synonym vnode_id = u16
type_synonym i64 = "64 word"

datatype cookie = Cookie u64 u64

datatype consistency_level = One | Quorum | All

text \<open>\<^verbatim>\<open>TryFrom<&[u8]>\<close>; the error carries no data.\<close>

definition consistency_try_from :: "bytes \<Rightarrow> consistency_level option" where
  "consistency_try_from bs =
     (case bs of
        [] \<Rightarrow> None
      | c # _ \<Rightarrow>
          if c \<in> {CHR ''1'', CHR ''o'', CHR ''O''} then Some One
          else if c \<in> {CHR ''q'', CHR ''Q''} then Some Quorum
          else if c \<in> {CHR ''a'', CHR ''A''} then Some All
          else None)"

fun required :: "consistency_level \<Rightarrow> u8 \<Rightarrow> u8" where
  "required One replicas = 1"
| "required Quorum replicas = replicas div 2 + 1"
| "required All replicas = replicas"

section \<open>Hash slots\<close>

definition HASH_SLOTS :: u16 where
  "HASH_SLOTS = 16384"

definition hash_tag :: "bytes \<Rightarrow> bytes" where
  "hash_tag key =
     (case position (\<lambda>x. x = CHR ''{'') key of
        None \<Rightarrow> key
      | Some open \<Rightarrow>
          (case position (\<lambda>x. x = CHR ''}'') (drop (open + 1) key) of
             None \<Rightarrow> key
           | Some close \<Rightarrow> if close > 0 then take close (drop (open + 1) key) else key))"

definition hash_slot :: "(bytes \<Rightarrow> u16) \<Rightarrow> bytes \<Rightarrow> u16" where
  "hash_slot crc16 key = crc16 (hash_tag key) mod HASH_SLOTS"

section \<open>Node ids\<close>

definition split_u64 :: "u64 \<Rightarrow> u32 \<times> u32" where
  "split_u64 x = (ucast (drop_bit 32 x), ucast x)"

definition join_u64 :: "u32 \<Rightarrow> u32 \<Rightarrow> u64" where
  "join_u64 hi lo = or (push_bit 32 (ucast hi)) (ucast lo)"

text \<open>The hasher of the id maps, \<^verbatim>\<open>IdHasher::write\<close>, on the bytes of one integer read as a word.\<close>

definition id_hash_mix :: "u64 \<Rightarrow> u64" where
  "id_hash_mix x =
     (let x = x * 0x6eed0e9da4d94a4f; a = drop_bit 32 x; b = drop_bit 60 x;
          x = xor x (drop_bit (unat b) a)
      in x * 0x6eed0e9da4d94a4f)"

section \<open>Lemmas\<close>

lemma unat_half_succ: "unat (r div 2 + 1 :: u8) = unat r div 2 + 1"
proof -
  have "unat r < 256"
    using unsigned_less [of r] by simp
  then show ?thesis
    by (simp add: unat_word_ariths unat_div)
qed

lemma required_bounds: "0 < r \<Longrightarrow> 1 \<le> unat (required c r) \<and> unat (required c r) \<le> unat r"
  by (cases c) (simp_all add: unat_half_succ word_less_nat_alt Suc_leI)

lemma quorum_majority: "unat r < 2 * unat (required Quorum r)"
  by (simp add: unat_half_succ)

lemma hash_tag_brace:
  assumes "CHR ''{'' \<notin> set pre" "CHR ''}'' \<notin> set tag" "tag \<noteq> []"
  shows "hash_tag (pre @ CHR ''{'' # tag @ CHR ''}'' # post) = tag"
  using assms by (simp add: hash_tag_def position_eq_append)

lemma hash_tag_plain: "CHR ''{'' \<notin> set key \<Longrightarrow> hash_tag key = key"
  by (simp add: hash_tag_def position_eq_None)

lemma hash_slot_bound: "hash_slot crc16 key < HASH_SLOTS"
  by (simp add: hash_slot_def HASH_SLOTS_def word_mod_less_divisor)

lemma split_join_u64: "split_u64 (join_u64 hi lo) = (hi, lo)"
proof -
  have "ucast (drop_bit 32 (join_u64 hi lo)) = hi"
    by (rule bit_word_eqI) (auto simp: join_u64_def bit_simps dest: bit_imp_le_length)
  moreover have "ucast (join_u64 hi lo) = lo"
    by (rule bit_word_eqI) (auto simp: join_u64_def bit_simps)
  ultimately show ?thesis
    by (simp add: split_u64_def)
qed

lemma join_split_u64: "(case split_u64 x of (hi, lo) \<Rightarrow> join_u64 hi lo) = x"
  by (rule bit_word_eqI) (auto simp: join_u64_def split_u64_def bit_simps)

section \<open>Properties\<close>

text \<open>
  For at least one replica, the number of answers a consistency level requires is between one and
  all of them, and two quorums always share a replica.
\<close>

theorem required_quorum:
  assumes "0 < r"
  shows "1 \<le> unat (required c r) \<and> unat (required c r) \<le> unat r \<and>
    unat r < unat (required Quorum r) + unat (required Quorum r)"
  using required_bounds [OF assms] quorum_majority [of r] by simp

theorem required_quorum_witness:
  "1 \<le> unat (required Quorum 255) \<and> unat (required Quorum 255) \<le> unat (255 :: u8) \<and>
   unat (255 :: u8) < unat (required Quorum 255) + unat (required Quorum 255)"
  by (rule required_quorum) simp

text \<open>
  Keys with the same non-empty tag between the first brace pair have the same hash slot as the
  tag alone, for every \<^verbatim>\<open>crc16\<close>, and a slot is always in range.
\<close>

theorem hash_slot_tag:
  assumes "CHR ''{'' \<notin> set pre" "CHR ''}'' \<notin> set tag" "CHR ''{'' \<notin> set tag" "tag \<noteq> []"
  shows "hash_slot crc16 (pre @ CHR ''{'' # tag @ CHR ''}'' # post) = hash_slot crc16 tag \<and>
    hash_slot crc16 tag < HASH_SLOTS"
  using assms by (simp add: hash_slot_bound) (simp add: hash_slot_def hash_tag_brace hash_tag_plain)

theorem hash_slot_tag_witness:
  "hash_slot (\<lambda>bs. of_nat (length bs)) (''user:'' @ CHR ''{'' # ''42'' @ CHR ''}'' # '':name'') =
     hash_slot (\<lambda>bs. of_nat (length bs)) ''42'' \<and>
   hash_slot (\<lambda>bs. of_nat (length bs)) ''42'' < HASH_SLOTS"
  by (rule hash_slot_tag) simp_all

end
