(* ===== verification/Resp.thy ===== *)
theory Resp
  imports Types
begin

text \<open>
  \<^verbatim>\<open>resp.rs\<close>: the values of the RESP protocol, their serialisation and the parser. A parser
  method takes the unread bytes (\<^verbatim>\<open>self.body\<close>) and returns its result with the bytes left, also
  when it fails. Recursion of \<^verbatim>\<open>parse_value\<close> is bounded by a fuel; one unit for each unread byte
  and one more is enough (\<open>parse_value_shrinks\<close>), which is what \<^verbatim>\<open>parse\<close> passes.
\<close>

datatype resp_error = Incomplete | Invalid string

datatype resp_value =
    RNil
  | RInt i64
  | RData bytes
  | RArray "resp_value list"
  | RStatus bytes
  | RError bytes

section \<open>Decimal numbers\<close>

definition digit_char :: "nat \<Rightarrow> char" where
  "digit_char d = char_of (48 + d)"

fun show_nat :: "nat \<Rightarrow> bytes" where
  "show_nat n = (if n < 10 then [digit_char n] else show_nat (n div 10) @ [digit_char (n mod 10)])"

declare show_nat.simps [simp del]

definition show_i64 :: "i64 \<Rightarrow> bytes" where
  "show_i64 w = (if sint w < 0 then CHR ''-'' # show_nat (nat (- sint w)) else show_nat (nat (sint w)))"

definition is_digit :: "char \<Rightarrow> bool" where
  "is_digit c \<longleftrightarrow> 48 \<le> (of_char c :: nat) \<and> (of_char c :: nat) \<le> 57"

definition parse_digits :: "bytes \<Rightarrow> nat option" where
  "parse_digits bs =
     (if bs = [] \<or> \<not> list_all is_digit bs then None
      else Some (foldl (\<lambda>n c. 10 * n + (of_char c - 48)) 0 bs))"

text \<open>\<^verbatim>\<open>str::parse::<i64>\<close>: an optional sign, at least one digit, the value in range.\<close>

definition parse_i64 :: "bytes \<Rightarrow> i64 option" where
  "parse_i64 bs =
     (case bs of
        c # ds \<Rightarrow>
          if c = CHR ''-'' then
            (case parse_digits ds of
               Some n \<Rightarrow> if n \<le> 2 ^ 63 then Some (- of_nat n) else None
             | None \<Rightarrow> None)
          else
            (case parse_digits (if c = CHR ''+'' then ds else bs) of
               Some n \<Rightarrow> if n < 2 ^ 63 then Some (of_nat n) else None
             | None \<Rightarrow> None)
      | [] \<Rightarrow> None)"

section \<open>Serialisation\<close>

definition crlf :: bytes where
  "crlf = [CHR 0x0D, CHR 0x0A]"

fun serialized_size :: "resp_value \<Rightarrow> nat" where
  "serialized_size RNil = 5"
| "serialized_size (RInt _) = 23"
| "serialized_size (RData v) = 13 + length v + 2"
| "serialized_size (RArray a) = 13 + sum_list (map serialized_size a)"
| "serialized_size (RStatus v) = 1 + length v + 2"
| "serialized_size (RError v) = 1 + length v + 2"

fun serialize_into :: "resp_value \<Rightarrow> bytes" where
  "serialize_into RNil = ''$-1'' @ crlf"
| "serialize_into (RInt v) = '':'' @ show_i64 v @ crlf"
| "serialize_into (RData v) = ''$'' @ show_nat (length v) @ crlf @ v @ crlf"
| "serialize_into (RArray a) =
     ''*'' @ show_nat (length a) @ crlf @ concat (map serialize_into a)"
| "serialize_into (RStatus v) = ''+'' @ v @ crlf"
| "serialize_into (RError v) = ''-'' @ v @ crlf"

section \<open>The parser\<close>

type_synonym 'a parse = "bytes \<Rightarrow> ('a, resp_error) res \<times> bytes"

definition pbind :: "'a parse \<Rightarrow> ('a \<Rightarrow> 'b parse) \<Rightarrow> 'b parse" where
  "pbind m k b =
     (case m b of
        (Ok x, b') \<Rightarrow> k x b'
      | (Err e, b') \<Rightarrow> (Err e, b')
      | (Panic, b') \<Rightarrow> (Panic, b'))"

definition pret :: "'a \<Rightarrow> 'a parse" where
  "pret x b = (Ok x, b)"

definition perr :: "resp_error \<Rightarrow> 'a parse" where
  "perr e b = (Err e, b)"

lemma pbind_cong [fundef_cong]:
  assumes "b = b'" "m b' = m' b'" "\<And>x c. m' b' = (Ok x, c) \<Longrightarrow> k x c = k' x c"
  shows "pbind m k b = pbind m' k' b'"
  using assms by (auto simp: pbind_def split: prod.splits res.splits)

definition read_byte :: "char parse" where
  "read_byte body = (case body of c # b \<Rightarrow> (Ok c, b) | [] \<Rightarrow> (Err Incomplete, body))"

definition read :: "nat \<Rightarrow> bytes parse" where
  "read len body =
     (if len \<le> length body then (Ok (take len body), drop len body) else (Err Incomplete, body))"

definition read_with_separator :: "nat \<Rightarrow> bytes parse" where
  "read_with_separator len =
     pbind (read (len + 2)) (\<lambda>result.
       if drop len result \<noteq> crlf then perr (Invalid ''Invalid line separator'')
       else pret (take len result))"

definition read_line :: "bytes parse" where
  "read_line body =
     (case position (\<lambda>c. c = CHR 0x0D) body of
        Some nl_pos \<Rightarrow> read_with_separator nl_pos body
      | None \<Rightarrow> (Err Incomplete, body))"

definition read_int_line :: "i64 parse" where
  "read_int_line =
     pbind read_line (\<lambda>line.
       case parse_i64 line of
         None \<Rightarrow> perr (Invalid ''Expected integer, got garbage'')
       | Some v \<Rightarrow> pret v)"

definition parse_status :: "resp_value parse" where
  "parse_status = pbind read_line (\<lambda>l. pret (RStatus l))"

definition parse_int :: "resp_value parse" where
  "parse_int = pbind read_int_line (\<lambda>v. pret (RInt v))"

definition parse_data :: "resp_value parse" where
  "parse_data =
     pbind read_int_line (\<lambda>len.
       if sint len < 0 then pret RNil
       else pbind (read_with_separator (nat (sint len))) (\<lambda>data. pret (RData data)))"

definition parse_error :: "resp_value parse" where
  "parse_error = pbind read_line (\<lambda>l. pret (RError l))"

text \<open>
  The arrays that parse: \<^verbatim>\<open>Vec::with_capacity\<close> panics on a length above \<open>cap\<close>, the largest capacity of
  a vector of values on the platform. The first argument after it is the fuel.
\<close>

function parse_value :: "nat \<Rightarrow> nat \<Rightarrow> resp_value parse"
  and parse_array :: "nat \<Rightarrow> nat \<Rightarrow> resp_value parse"
  and parse_elements :: "nat \<Rightarrow> nat \<Rightarrow> nat \<Rightarrow> resp_value list parse" where
  "parse_value cap 0 body = (Panic, body)"
| "parse_value cap (Suc fuel) body =
     pbind read_byte (\<lambda>c b.
       if c = CHR ''$'' then parse_data b
       else if c = CHR ''*'' then parse_array cap fuel b
       else if c = CHR '':'' then parse_int b
       else if c = CHR ''+'' then parse_status b
       else if c = CHR ''-'' then parse_error b
       else if c = CHR 0x0D then
         pbind read_byte (\<lambda>c' b'.
           if c' = CHR 0x0A then parse_value cap fuel b'
           else perr (Invalid ''Invalid prefix when parsing value'') b') b
       else perr (Invalid ''Invalid prefix when parsing value'') b) body"
| "parse_array cap fuel body =
     pbind read_int_line (\<lambda>len b.
       if sint len < 0 then pret RNil b
       else if int cap < sint len then (Panic, b)
       else pbind (parse_elements cap fuel (nat (sint len))) (\<lambda>rv. pret (RArray rv)) b) body"
| "parse_elements cap fuel 0 body = pret [] body"
| "parse_elements cap fuel (Suc n) body =
     pbind (parse_value cap fuel) (\<lambda>v b. pbind (parse_elements cap fuel n) (\<lambda>vs. pret (v # vs)) b) body"
  by pat_completeness auto
termination
  by (relation "inv_image (less_than <*lex*> less_than) (\<lambda>x. case x of
        Inl (_, f, _) \<Rightarrow> (3 * f, 0) | Inr (Inl (_, f, _)) \<Rightarrow> (3 * f + 2, 0)
      | Inr (Inr (_, f, n, _)) \<Rightarrow> (3 * f + 1, n))")
    auto

record parser =
  p_consumed :: nat
  p_body :: bytes

definition parse :: "nat \<Rightarrow> parser \<Rightarrow> (resp_value, resp_error) res \<times> parser" where
  "parse cap p =
     (let saved_len = length (p_body p);
          (value, body) = parse_value cap (Suc saved_len) (p_body p)
      in (value,
          if res_is_ok value
          then p\<lparr>p_body := body, p_consumed := p_consumed p + (saved_len - length body)\<rparr>
          else p\<lparr>p_body := body\<rparr>))"

subsection \<open>Speculating a buffer\<close>

text \<open>
  The inner loops of \<^verbatim>\<open>speculate_buffer\<close>: the digits of a length and the skip to a carriage return.
  The length is accumulated in an \<^verbatim>\<open>i64\<close> and wraps around; positions are unbounded here.
\<close>

function spec_digits :: "bytes \<Rightarrow> nat \<Rightarrow> i64 \<Rightarrow> (nat \<times> i64, resp_error) res" where
  "spec_digits buf i len =
     (if i < length buf then
        (let c = buf ! i
         in if is_digit c then spec_digits buf (i + 1) (len * 10 + of_nat (of_char c - 48))
            else if c = CHR ''-'' then Ok (i + 2, - 1)
            else if c = CHR 0x0D then Ok (i, len)
            else Err (Invalid ''Invalid digit''))
      else Ok (i, len))"
  by pat_completeness auto
termination
  by (relation "measure (\<lambda>(buf, i, _). length buf - i)") auto

function spec_skip :: "bytes \<Rightarrow> nat \<Rightarrow> nat" where
  "spec_skip buf i = (if i < length buf \<and> buf ! i \<noteq> CHR 0x0D then spec_skip buf (i + 1) else i)"
  by pat_completeness auto
termination
  by (relation "measure (\<lambda>(buf, i). length buf - i)") auto

declare spec_digits.simps [simp del] spec_skip.simps [simp del]

lemma spec_digits_mono: "spec_digits buf i len = Ok (i', len') \<Longrightarrow> i \<le> i'"
proof (induction buf i len rule: spec_digits.induct)
  case (1 buf i len)
  then show ?case
    by (subst (asm) (2) spec_digits.simps) (auto simp: Let_def split: if_splits)
qed

lemma spec_skip_mono: "i \<le> spec_skip buf i"
proof (induction buf i rule: spec_skip.induct)
  case (1 buf i)
  then show ?case
    by (subst spec_skip.simps) auto
qed

text \<open>The main loop; \<open>spec_advance\<close> is the end of its body, after the \<^verbatim>\<open>match\<close>.\<close>

definition spec_advance :: "bytes \<Rightarrow> nat \<Rightarrow> nat \<Rightarrow> i64 \<Rightarrow> nat \<times> nat \<times> i64" where
  "spec_advance buf i valid pending =
     (let i = i + 2;
          pending = (if 0 < sint pending then pending - 1 else pending)
      in (i, if pending = 0 \<and> i \<le> length buf then i else valid, pending))"

definition spec_header :: "char \<Rightarrow> nat \<Rightarrow> i64 \<Rightarrow> i64 \<Rightarrow> nat \<times> i64" where
  "spec_header c i len pending =
     (if 0 \<le> sint len then
        (if c = CHR ''*'' then (i, len + 1) else (i + (2 + nat (sint len)), pending))
      else (i, pending))"

definition spec_step :: "bytes \<Rightarrow> nat \<Rightarrow> nat \<Rightarrow> i64 \<Rightarrow> (nat \<times> nat \<times> i64, resp_error) res" where
  "spec_step buf i valid pending =
     (let c = buf ! i
      in if c = CHR ''$'' \<or> c = CHR ''*'' then
           res_bind (spec_digits buf (i + 1) 0) (\<lambda>(i, len).
             case spec_header c i len pending of (i, pending) \<Rightarrow> Ok (spec_advance buf i valid pending))
         else if c = CHR '':'' \<or> c = CHR ''+'' \<or> c = CHR ''-'' then
           Ok (spec_advance buf (spec_skip buf (i + 1)) valid pending)
         else if c = CHR 0x0D then Ok (i + 2, valid, pending)
         else Err (Invalid ''Invalid prefix''))"

lemma spec_step_mono:
  assumes "spec_step buf i valid pending = Ok (i', valid', pending')"
  shows "i < i'"
proof -
  have "i + 1 \<le> j" if "spec_digits buf (i + 1) 0 = Ok (j, len)" for j len
    using that by (rule spec_digits_mono)
  then show ?thesis
    using assms spec_skip_mono [of "i + 1" buf]
    by (fastforce simp: spec_step_def spec_header_def spec_advance_def Let_def res_bind_Ok_iff
        split: if_splits)
qed

function spec_loop :: "bytes \<Rightarrow> nat \<Rightarrow> nat \<Rightarrow> i64 \<Rightarrow> (nat, resp_error) res" where
  "spec_loop buf i valid pending =
     (if i < length buf then
        res_bind (spec_step buf i valid pending) (\<lambda>(i, valid, pending). spec_loop buf i valid pending)
      else Ok valid)"
  by pat_completeness auto
termination
  by (relation "measure (\<lambda>(buf, i, _). length buf - i)") (auto dest!: spec_step_mono)

declare spec_loop.simps [simp del]

definition speculate_buffer :: "bytes \<Rightarrow> (nat, resp_error) res" where
  "speculate_buffer buf =
     (if length buf < 3 then Err Incomplete
      else if drop (length buf - 2) buf = crlf then Ok (length buf)
      else
        res_bind (spec_loop buf 0 0 0) (\<lambda>valid.
          if valid \<noteq> 0 then Ok valid else Err Incomplete))"

definition parser_new :: "bytes \<Rightarrow> (parser, resp_error) res" where
  "parser_new body =
     res_bind (speculate_buffer body) (\<lambda>valid_to.
       if valid_to \<le> length body then Ok \<lparr>p_consumed = 0, p_body = take valid_to body\<rparr> else Panic)"

section \<open>Numbers are read back as they were written\<close>

lemma digit_char_props:
  assumes "d < 10"
  shows "is_digit (digit_char d)" "of_char (digit_char d) - 48 = d"
  using assms by (simp_all add: is_digit_def digit_char_def)

lemma show_nat_digits: "list_all is_digit (show_nat n) \<and> show_nat n \<noteq> []"
proof (induction n rule: show_nat.induct)
  case (1 n)
  then show ?case
    by (subst (1 2) show_nat.simps) (auto simp: digit_char_props)
qed

lemma foldl_show_nat: "foldl (\<lambda>n c. 10 * n + (of_char c - 48)) 0 (show_nat n) = n"
proof (induction n rule: show_nat.induct)
  case (1 n)
  then show ?case
    by (subst show_nat.simps) (auto simp: digit_char_props)
qed

lemma parse_digits_show: "parse_digits (show_nat n) = Some n"
  using show_nat_digits [of n] by (simp add: parse_digits_def foldl_show_nat)

lemma is_digit_not: "is_digit c \<Longrightarrow> c \<noteq> CHR ''-'' \<and> c \<noteq> CHR ''+'' \<and> c \<noteq> CHR 0x0D"
  by (auto simp: is_digit_def)

lemma show_nat_hd: "show_nat n = c # cs \<Longrightarrow> c \<noteq> CHR ''-'' \<and> c \<noteq> CHR ''+''"
  using show_nat_digits [of n] is_digit_not [of c] by simp

lemma show_nat_no_cr: "CHR 0x0D \<notin> set (show_nat n)"
  using show_nat_digits [of n] is_digit_not by (auto simp: list_all_iff)

lemma parse_i64_show_nat: "n < 2 ^ 63 \<Longrightarrow> parse_i64 (show_nat n) = Some (of_nat n)"
  using parse_digits_show [of n] show_nat_digits [of n] show_nat_hd [of n]
  by (auto simp: parse_i64_def split: list.splits)

lemma sint_bounds64: "- (2 ^ 63) \<le> sint (w :: i64)" "sint (w :: i64) < 2 ^ 63"
  using sint_greater_eq [of w] sint_less [of w] by simp_all

lemma sint_of_nat64: "n < 2 ^ 63 \<Longrightarrow> sint (of_nat n :: i64) = int n"
  using signed_take_bit_int_eq_self [of 63 "int n"]
  by (simp add: signed_of_nat)

lemma parse_i64_show: "parse_i64 (show_i64 w) = Some w"
proof (cases "sint w < 0")
  case True
  have "nat (- sint w) \<le> 2 ^ 63"
    using sint_bounds64 [of w] by simp
  moreover have "- of_nat (nat (- sint w)) = w"
    using True by (simp add: of_nat_nat flip: of_int_minus)
  ultimately show ?thesis
    using True by (simp add: show_i64_def parse_i64_def parse_digits_show)
next
  case False
  then have "nat (sint w) < 2 ^ 63" "of_nat (nat (sint w)) = w"
    using sint_bounds64 [of w] by (simp_all add: of_nat_nat)
  with False show ?thesis
    using parse_i64_show_nat [of "nat (sint w)"] by (simp add: show_i64_def)
qed

lemma show_i64_no_cr: "CHR 0x0D \<notin> set (show_i64 w)"
  by (simp add: show_i64_def show_nat_no_cr)

section \<open>Parsing what was serialised\<close>

text \<open>
  The values the protocol can carry: a status or an error is one line, a length fits an \<^verbatim>\<open>i64\<close>.
\<close>

fun resp_wf :: "nat \<Rightarrow> resp_value \<Rightarrow> bool" where
  "resp_wf cap RNil = True"
| "resp_wf cap (RInt _) = True"
| "resp_wf cap (RData v) = (length v < 2 ^ 63)"
| "resp_wf cap (RArray a) = (length a \<le> cap \<and> length a < 2 ^ 63 \<and> list_all (resp_wf cap) a)"
| "resp_wf cap (RStatus v) = (CHR 0x0D \<notin> set v)"
| "resp_wf cap (RError v) = (CHR 0x0D \<notin> set v)"

lemma read_with_separator_crlf: "read_with_separator (length l) (l @ crlf @ rest) = (Ok l, rest)"
  by (simp add: read_with_separator_def pbind_def read_def pret_def crlf_def)

lemma read_line_crlf: "CHR 0x0D \<notin> set l \<Longrightarrow> read_line (l @ crlf @ rest) = (Ok l, rest)"
  using read_with_separator_crlf [of l rest]
  by (simp add: read_line_def crlf_def position_eq_append)

lemma read_int_line_crlf:
  assumes "CHR 0x0D \<notin> set l" "parse_i64 l = Some w"
  shows "read_int_line (l @ crlf @ rest) = (Ok w, rest)"
  using assms read_line_crlf [of l rest] by (simp add: read_int_line_def pbind_def pret_def)

lemmas read_len_crlf = read_int_line_crlf [OF show_nat_no_cr parse_i64_show_nat]

lemma parse_elements_serialized:
  assumes "\<And>v rest. v \<in> set a \<Longrightarrow> parse_value cap f (serialize_into v @ rest) = (Ok v, rest)"
  shows "parse_elements cap f (length a) (concat (map serialize_into a) @ rest) = (Ok a, rest)"
  using assms by (induction a) (simp_all add: pbind_def pret_def)

lemma parse_value_serialized:
  "resp_wf cap v \<Longrightarrow> length (serialize_into v) \<le> f \<Longrightarrow>
     parse_value cap f (serialize_into v @ rest) = (Ok v, rest)"
proof (induction v arbitrary: f rest)
  case RNil
  have "read_int_line (''-1'' @ crlf @ rest) = (Ok (- 1), rest)"
    by (rule read_int_line_crlf)
      (simp_all add: parse_i64_def parse_digits_def is_digit_def)
  with RNil show ?case
    by (cases f) (simp_all add: pbind_def read_byte_def parse_data_def pret_def)
next
  case (RInt w)
  then show ?case
    using read_int_line_crlf [OF show_i64_no_cr parse_i64_show, of w rest]
    by (cases f) (simp_all add: pbind_def read_byte_def parse_int_def pret_def)
next
  case (RData d)
  then have "read_int_line (show_nat (length d) @ crlf @ d @ crlf @ rest) =
      (Ok (of_nat (length d)), d @ crlf @ rest)"
    using read_len_crlf [of "length d"] by simp
  with RData show ?case
    using read_with_separator_crlf [of d rest]
    by (cases f) (simp_all add: pbind_def read_byte_def parse_data_def pret_def sint_of_nat64)
next
  case (RArray a)
  obtain f' where f: "f = Suc f'"
    using RArray.prems(2) by (cases f) simp_all
  have "length (serialize_into v) \<le> f'" if "v \<in> set a" for v
    using that RArray.prems(2) f member_le_sum_list [of "length (serialize_into v)" "map (length \<circ> serialize_into) a"]
    by (simp add: length_concat)
  then have "parse_elements cap f' (length a) (concat (map serialize_into a) @ rest) = (Ok a, rest)"
    using RArray.IH RArray.prems(1) by (intro parse_elements_serialized) (simp add: list_all_iff)
  moreover have "read_int_line (show_nat (length a) @ crlf @ concat (map serialize_into a) @ rest) =
      (Ok (of_nat (length a)), concat (map serialize_into a) @ rest)"
    using RArray.prems(1) read_len_crlf [of "length a"] by simp
  ultimately show ?case
    using RArray.prems(1) by (simp add: f pbind_def read_byte_def pret_def sint_of_nat64)
next
  case (RStatus l)
  then show ?case
    using read_line_crlf [of l rest]
    by (cases f) (simp_all add: pbind_def read_byte_def parse_status_def pret_def)
next
  case (RError l)
  then show ?case
    using read_line_crlf [of l rest]
    by (cases f) (simp_all add: pbind_def read_byte_def parse_error_def pret_def)
qed

section \<open>Enough fuel, and no read past the buffer\<close>

text \<open>
  \<open>shrinks cap m b\<close>: on the unread bytes \<open>b\<close>, \<open>m\<close> leaves a suffix of them, does not run out of fuel,
  and panics only if the bytes hold a line with a number above the largest capacity.
\<close>

definition over_capacity :: "nat \<Rightarrow> bytes \<Rightarrow> bool" where
  "over_capacity cap b \<longleftrightarrow>
     (\<exists>pre l post len. b = pre @ l @ crlf @ post \<and> parse_i64 l = Some len \<and> int cap < sint len)"

lemma over_capacity_append: "over_capacity cap b \<Longrightarrow> over_capacity cap (a @ b)"
  unfolding over_capacity_def by (metis append.assoc)

lemma over_capacity_drop: "over_capacity cap (drop n b) \<Longrightarrow> over_capacity cap b"
  using over_capacity_append [of cap "drop n b" "take n b"] by simp

lemma read_int_line_Ok:
  assumes "read_int_line body = (Ok len, b)"
  obtains l where "body = l @ crlf @ b" "parse_i64 l = Some len"
proof -
  obtain n where n: "position (\<lambda>c. c = CHR 0x0D) body = Some n" "n + 2 \<le> length body"
    "drop n (take (n + 2) body) = crlf" "b = drop (n + 2) body" "parse_i64 (take n (take (n + 2) body)) = Some len"
    using assms
    by (auto simp: read_int_line_def read_line_def read_with_separator_def read_def pbind_def pret_def
        perr_def split: option.splits if_splits prod.splits res.splits)
  have "take (n + 2) body = take n (take (n + 2) body) @ drop n (take (n + 2) body)"
    by (rule append_take_drop_id [symmetric])
  also have "\<dots> = take n body @ crlf"
    using n(3) by simp
  finally have "body = take n body @ crlf @ b"
    using n(4) by (metis append.assoc append_take_drop_id)
  with n(5) show ?thesis
    by (intro that [of "take n body"]) simp_all
qed

definition shrinks :: "nat \<Rightarrow> 'a parse \<Rightarrow> bytes \<Rightarrow> bool" where
  "shrinks cap m b \<longleftrightarrow> (\<exists>n. snd (m b) = drop n b) \<and> (fst (m b) = Panic \<longrightarrow> over_capacity cap b)"

lemma shrinks_read_byte: "shrinks cap read_byte b"
  by (cases b) (auto simp: shrinks_def read_byte_def intro: exI [of _ 0] exI [of _ 1])

lemma shrinks_pret [simp]: "shrinks cap (pret x) b" and shrinks_perr [simp]: "shrinks cap (perr e) b"
  by (auto simp: shrinks_def pret_def perr_def intro: exI [of _ 0])

lemma shrinks_pbind_over:
  assumes "shrinks cap m b"
    "\<And>x c. m b = (Ok x, c) \<Longrightarrow> (\<exists>n. snd (k x c) = drop n c) \<and> (fst (k x c) = Panic \<longrightarrow> over_capacity cap b)"
  shows "shrinks cap (pbind m k) b"
  using assms by (cases "m b"; cases "fst (m b)") (auto simp: shrinks_def pbind_def; metis drop_drop)+

lemma shrinks_pbind:
  assumes "shrinks cap m b" "\<And>x c. m b = (Ok x, c) \<Longrightarrow> shrinks cap (k x) c"
  shows "shrinks cap (pbind m k) b"
proof (rule shrinks_pbind_over [OF assms(1)])
  fix x c
  assume m: "m b = (Ok x, c)"
  then obtain n where "c = drop n b"
    using assms(1) by (auto simp: shrinks_def)
  then show "(\<exists>n. snd (k x c) = drop n c) \<and> (fst (k x c) = Panic \<longrightarrow> over_capacity cap b)"
    using assms(2) [OF m] over_capacity_drop unfolding shrinks_def by blast
qed

lemma shrinks_read: "shrinks cap (read n) b"
  by (auto simp: shrinks_def read_def intro: exI [of _ 0])

lemma shrinks_read_with_separator: "shrinks cap (read_with_separator n) b"
  unfolding read_with_separator_def by (rule shrinks_pbind) (auto simp: shrinks_read)

lemma shrinks_read_line: "shrinks cap read_line b"
  using shrinks_read_with_separator
  by (auto simp: shrinks_def read_line_def intro: exI [of _ 0] split: option.splits)

lemma shrinks_read_int_line: "shrinks cap read_int_line b"
  unfolding read_int_line_def
  by (rule shrinks_pbind) (auto simp: shrinks_read_line split: option.splits)

lemma shrinks_leaf:
  "shrinks cap parse_status b" "shrinks cap parse_int b" "shrinks cap parse_data b" "shrinks cap parse_error b"
  unfolding parse_status_def parse_int_def parse_data_def parse_error_def
  by (rule shrinks_pbind; simp add: shrinks_read_line shrinks_read_int_line
      shrinks_pbind shrinks_read_with_separator)+

lemma shrinks_length: "shrinks cap m b \<Longrightarrow> length (snd (m b)) \<le> length b"
  by (auto simp: shrinks_def)

lemma read_byte_Ok: "read_byte b = (Ok c, b') \<Longrightarrow> b = c # b'"
  by (auto simp: read_byte_def split: list.splits)

lemma parse_value_shrinks:
  "length b < f \<Longrightarrow> shrinks cap (parse_value cap f) b"
  "length b < f \<Longrightarrow> shrinks cap (parse_array cap f) b"
  "length b < f \<Longrightarrow> shrinks cap (parse_elements cap f n) b"
proof (induction cap f b and cap f b and cap f n b rule: parse_value_parse_array_parse_elements.induct)
  case (2 cap fuel body)
  have "shrinks cap (\<lambda>b. if c = CHR ''$'' then parse_data b
       else if c = CHR ''*'' then parse_array cap fuel b
       else if c = CHR '':'' then parse_int b
       else if c = CHR ''+'' then parse_status b
       else if c = CHR ''-'' then parse_error b
       else if c = CHR 0x0D then
         pbind read_byte (\<lambda>c' b'.
           if c' = CHR 0x0A then parse_value cap fuel b'
           else perr (Invalid ''Invalid prefix when parsing value'') b') b
       else perr (Invalid ''Invalid prefix when parsing value'') b) b"
    if r: "read_byte body = (Ok c, b)" for c b
  proof -
    have body: "body = c # b"
      using r by (rule read_byte_Ok)
    have "shrinks cap (parse_array cap fuel) b" if "c = CHR ''*''"
      using "2.IH"(1) [OF r] that body "2.prems" by (simp del: parse_array.simps)
    moreover have "shrinks cap (\<lambda>b'. if c' = CHR 0x0A then parse_value cap fuel b'
           else perr (Invalid ''Invalid prefix when parsing value'') b') b'"
      if "c = CHR 0x0D" "read_byte b = (Ok c', b')" for c' b'
      using "2.IH"(2) [OF r _ _ _ _ _ _ that(2)] that body "2.prems" read_byte_Ok [OF that(2)]
        shrinks_perr [of cap "Invalid ''Invalid prefix when parsing value''" b']
      by (auto simp: shrinks_def)
    then have "shrinks cap (pbind read_byte (\<lambda>c' b'.
           if c' = CHR 0x0A then parse_value cap fuel b'
           else perr (Invalid ''Invalid prefix when parsing value'') b')) b" if "c = CHR 0x0D"
      using that by (intro shrinks_pbind shrinks_read_byte) auto
    ultimately show ?thesis
      using shrinks_leaf [of cap b] shrinks_perr by (auto simp: shrinks_def simp del: parse_array.simps)
  qed
  from shrinks_pbind [OF shrinks_read_byte this] show ?case
    by (simp add: shrinks_def)
next
  case (3 cap fuel body)
  have "(\<exists>n. snd (if sint len < 0 then pret RNil b
         else if int cap < sint len then (Panic, b)
         else pbind (parse_elements cap fuel (nat (sint len))) (\<lambda>rv. pret (RArray rv)) b) = drop n b) \<and>
      (fst (if sint len < 0 then pret RNil b
         else if int cap < sint len then (Panic, b)
         else pbind (parse_elements cap fuel (nat (sint len))) (\<lambda>rv. pret (RArray rv)) b) = Panic \<longrightarrow>
       over_capacity cap body)"
    if r: "read_int_line body = (Ok len, b)" for len b
  proof -
    obtain l where body: "body = l @ crlf @ b" "parse_i64 l = Some len"
      using r by (rule read_int_line_Ok)
    have over: "over_capacity cap body" if "int cap < sint len"
      unfolding over_capacity_def using body that by (metis append_Nil)
    have up: "over_capacity cap b \<Longrightarrow> over_capacity cap body"
      unfolding body(1) by (intro over_capacity_append)
    have "shrinks cap (pbind (parse_elements cap fuel (nat (sint len))) (\<lambda>rv. pret (RArray rv))) b"
      if "\<not> sint len < 0" "\<not> int cap < sint len"
    proof (rule shrinks_pbind)
      have "length b < fuel"
        using "3.prems" body(1) by simp
      then show "shrinks cap (parse_elements cap fuel (nat (sint len))) b"
        using "3.IH" [OF r that] by blast
    qed simp
    then show ?thesis
      using over up by (auto simp: shrinks_def pret_def intro: exI [of _ 0])
  qed
  from shrinks_pbind_over [OF shrinks_read_int_line this] show ?case
    by (simp add: shrinks_def)
next
  case (5 cap fuel n body)
  have "shrinks cap (pbind (parse_value cap fuel) (\<lambda>v b. pbind (parse_elements cap fuel n) (\<lambda>vs. pret (v # vs)) b)) body"
  proof (rule shrinks_pbind)
    show sv: "shrinks cap (parse_value cap fuel) body"
      using "5.IH"(1) "5.prems" by blast
    fix v c
    assume r: "parse_value cap fuel body = (Ok v, c)"
    then have "length c < fuel"
      using "5.prems" shrinks_length [OF sv] by simp
    then have "shrinks cap (parse_elements cap fuel n) c"
      using "5.IH"(2) [OF r] by blast
    then show "shrinks cap (\<lambda>b. pbind (parse_elements cap fuel n) (\<lambda>vs. pret (v # vs)) b) c"
      by (rule shrinks_pbind) simp
  qed
  then show ?case
    by (simp add: shrinks_def)
qed (simp_all add: shrinks_def pret_def exI [of _ 0])

lemma parse_panics: "fst (parse cap p) = Panic \<Longrightarrow> over_capacity cap (p_body p)"
  using parse_value_shrinks(1) [of "p_body p" "Suc (length (p_body p))" cap]
  by (auto simp: parse_def shrinks_def Let_def simp del: parse_value.simps split: prod.splits)

lemma spec_advance_valid:
  "spec_advance buf i valid pending = (i', valid', pending') \<Longrightarrow> valid \<le> length buf \<Longrightarrow>
     valid' \<le> length buf"
  by (auto simp: spec_advance_def Let_def split: if_splits)

lemma spec_step_valid:
  "spec_step buf i valid pending = Ok (i', valid', pending') \<Longrightarrow> valid \<le> length buf \<Longrightarrow>
     valid' \<le> length buf"
  by (auto simp: spec_step_def Let_def res_bind_Ok_iff case_prod_beta dest: spec_advance_valid
      split: if_splits)

lemma spec_step_total: "spec_step buf i valid pending \<noteq> Panic"
proof -
  have "spec_digits buf j len \<noteq> Panic" for j len
  proof (induction buf j len rule: spec_digits.induct)
    case (1 buf i len)
    then show ?case
      by (subst spec_digits.simps) (auto simp: Let_def)
  qed
  then have "spec_digits buf (i + 1) 0 \<noteq> Panic" .
  then show ?thesis
    by (cases "spec_digits buf (i + 1) 0") (auto simp: spec_step_def Let_def split: prod.splits)
qed

lemma spec_loop_props:
  "valid \<le> length buf \<Longrightarrow>
     spec_loop buf i valid pending \<noteq> Panic \<and>
     (\<forall>n. spec_loop buf i valid pending = Ok n \<longrightarrow> n \<le> length buf)"
proof (induction buf i valid pending rule: spec_loop.induct)
  case (1 buf i valid pending)
  show ?case
  proof (cases "spec_step buf i valid pending")
    case (Ok x)
    obtain i' valid' pending' where x: "x = (i', valid', pending')"
      by (metis surj_pair)
    then have "valid' \<le> length buf"
      using spec_step_valid Ok "1.prems" by blast
    then show ?thesis
      using "1.IH" [OF _ Ok x [symmetric] refl] Ok x "1.prems"
      by (simp add: spec_loop.simps [of buf i])
  qed (use "1.prems" spec_step_total in \<open>auto simp: spec_loop.simps [of buf i]\<close>)
qed

lemma speculate_buffer_bound:
  "speculate_buffer buf \<noteq> Panic \<and> (speculate_buffer buf = Ok n \<longrightarrow> n \<le> length buf)"
  using spec_loop_props [of 0 buf 0 0]
  by (cases "spec_loop buf 0 0 0") (auto simp: speculate_buffer_def)

lemma parser_new_total: "parser_new body \<noteq> Panic"
  using speculate_buffer_bound [of body]
  by (cases "speculate_buffer body") (auto simp: parser_new_def)

section \<open>The size estimate is an upper bound\<close>

lemma show_nat_length: "n < 10 ^ k \<Longrightarrow> 0 < k \<Longrightarrow> length (show_nat n) \<le> k"
proof (induction n arbitrary: k rule: show_nat.induct)
  case (1 n)
  show ?case
  proof (cases "n < 10")
    case False
    with "1.prems" have "k \<noteq> 1"
      by auto
    with "1.prems"(2) obtain k' where k: "k = Suc k'" "0 < k'"
      by (cases k) auto
    then have "n div 10 < 10 ^ k'"
      using "1.prems"(1) by (simp add: less_mult_imp_div_less mult.commute)
    with "1.IH" [OF False this k(2)] False k show ?thesis
      by (subst show_nat.simps) simp
  qed (use "1.prems" in \<open>simp add: show_nat.simps [of n]\<close>)
qed

fun resp_small :: "resp_value \<Rightarrow> bool" where
  "resp_small (RData v) = (length v < 10 ^ 10)"
| "resp_small (RArray a) = (length a < 10 ^ 10 \<and> list_all resp_small a)"
| "resp_small _ = True"

lemma serialize_into_size: "resp_small v \<Longrightarrow> length (serialize_into v) \<le> serialized_size v"
proof (induction v)
  case (RInt w)
  have "length (show_i64 w) \<le> 20"
    using sint_bounds64 [of w] show_nat_length [of "nat (- sint w)" 19] show_nat_length [of "nat (sint w)" 19]
    by (auto simp: show_i64_def nat_less_iff)
  then show ?case
    by (simp add: crlf_def)
next
  case (RData d)
  then show ?case
    using show_nat_length [of "length d" 10] by (simp add: crlf_def)
next
  case (RArray a)
  have "sum_list (map (length \<circ> serialize_into) a) \<le> sum_list (map serialized_size a)"
    using RArray by (intro sum_list_mono) (auto simp: list_all_iff)
  then show ?case
    using RArray.prems show_nat_length [of "length a" 10] by (simp add: crlf_def length_concat)
qed (simp_all add: crlf_def)

section \<open>Properties\<close>

text \<open>
  C24: Parsing what was serialized gives the value back and leaves the bytes after it, for every value
  whose lines hold no carriage return, whose lengths fit an \<^verbatim>\<open>i64\<close> and whose arrays fit a vector.
\<close>

theorem parse_serialize_roundtrip:
  assumes "resp_wf cap v"
  shows "parse cap \<lparr>p_consumed = n, p_body = serialize_into v @ rest\<rparr> =
    (Ok v, \<lparr>p_consumed = n + length (serialize_into v), p_body = rest\<rparr>)"
proof -
  have "parse_value cap (Suc (length (serialize_into v @ rest))) (serialize_into v @ rest) = (Ok v, rest)"
    using assms by (rule parse_value_serialized) simp
  then show ?thesis
    unfolding parse_def Let_def by simp
qed

theorem parse_serialize_roundtrip_witness:
  "parse 1000 \<lparr>p_consumed = 0, p_body = serialize_into (RArray [RData ''GET'', RInt (- 7), RNil]) @ ''+x''\<rparr> =
    (Ok (RArray [RData ''GET'', RInt (- 7), RNil]),
     \<lparr>p_consumed = 0 + length (serialize_into (RArray [RData ''GET'', RInt (- 7), RNil])), p_body = ''+x''\<rparr>)"
  by (rule parse_serialize_roundtrip) simp



text \<open>
  The size a reply reserves is enough for its serialization, for strings and arrays shorter than
  ten billion.
\<close>

theorem serialized_size_enough:
  assumes "resp_small v"
  shows "length (serialize_into v) \<le> serialized_size v"
  by (rule serialize_into_size [OF assms])

theorem serialized_size_enough_witness:
  "length (serialize_into (RArray [RStatus ''OK'', RInt 12])) \<le> serialized_size (RArray [RStatus ''OK'', RInt 12])"
  by (rule serialized_size_enough) simp

end
