(* ===== verification/Framing.thy ===== *)
theory Framing
  imports Prelude "HOL-Library.Sublist"
begin

text \<open>
  Streams of framed values, as the codecs of \<^verbatim>\<open>server.rs\<close> and \<^verbatim>\<open>fabric.rs\<close> read them from a socket. A
  decoder takes the next value from the bytes received, asks for more bytes (\<open>Ok None\<close>) or fails.
  The locale states what a codec promises; its lemmas show that the values read do not depend on
  how the network cuts the bytes into pieces.
\<close>

type_synonym ('v, 'e) decoder = "bytes \<Rightarrow> ('v option, 'e) res \<times> bytes"

text \<open>
  The framed reader of \<^verbatim>\<open>tokio_io\<close>: it decodes until the decoder asks for more bytes and keeps what
  is left; an error ends the stream. A decoder that never consumes anything would not end.
\<close>

partial_function (option) framed_read :: "('v, 'e) decoder \<Rightarrow> bytes \<Rightarrow> ('v list \<times> (bytes, 'e) res) option" where
  "framed_read decode src =
     (case decode src of
        (Ok (Some v), rest) \<Rightarrow> Option.bind (framed_read decode rest) (\<lambda>(vs, res). Some (v # vs, res))
      | (Ok None, rest) \<Rightarrow> Some ([], Ok rest)
      | (Err e, _) \<Rightarrow> Some ([], Err e)
      | (Panic, _) \<Rightarrow> Some ([], Panic))"

declare framed_read.simps [code]

text \<open>The pieces of a stream one after another, from the bytes left before.\<close>

fun framed_feed :: "('v, 'e) decoder \<Rightarrow> bytes \<Rightarrow> bytes list \<Rightarrow> ('v list \<times> (bytes, 'e) res) option" where
  "framed_feed decode buf [] = Some ([], Ok buf)"
| "framed_feed decode buf (chunk # chunks) =
     Option.bind (framed_read decode (buf @ chunk)) (\<lambda>(vs, res).
       case res of
         Ok rest \<Rightarrow> map_option (\<lambda>(vs', res). (vs @ vs', res)) (framed_feed decode rest chunks)
       | Err e \<Rightarrow> Some (vs, Err e)
       | Panic \<Rightarrow> Some (vs, Panic))"

lemma framed_read_total:
  assumes "\<And>src v rest. decode src = (Ok (Some v), rest) \<Longrightarrow> length rest < length src"
  shows "\<exists>vs res. framed_read decode src = Some (vs, res)"
proof (induction src rule: length_induct)
  case (1 src)
  show ?case
  proof (cases "\<exists>v rest. decode src = (Ok (Some v), rest)")
    case True
    then obtain v rest where d: "decode src = (Ok (Some v), rest)"
      by blast
    then obtain vs res where "framed_read decode rest = Some (vs, res)"
      using 1 assms by blast
    then show ?thesis
      using d by (simp add: framed_read.simps [of decode src])
  next
    case False
    then show ?thesis
      by (cases "decode src" rule: prod.exhaust; cases "fst (decode src)")
         (auto simp: framed_read.simps [of decode src] split: option.splits)
  qed
qed

lemma strict_prefix_append_cases:
  assumes "strict_prefix p (a @ b)"
  obtains "strict_prefix p a" | q where "p = a @ q" "strict_prefix q b"
proof -
  from assms have "prefix p a \<or> (\<exists>q. p = a @ q \<and> prefix q b)" and ne: "p \<noteq> a @ b"
    by (auto simp: strict_prefix_def prefix_append)
  then consider "prefix p a" "p \<noteq> a" | q where "p = a @ q" "prefix q b"
    by (metis append_Nil2 prefix_bot.bot_least)
  then show ?thesis
    using that ne by cases (auto simp: strict_prefix_def)
qed

lemma strict_prefix_Cons_cases:
  assumes "strict_prefix p (c # s)"
  obtains "p = []" | q where "p = c # q" "strict_prefix q s"
  using assms that by (cases p) (auto simp: strict_prefix_def)

section \<open>Codecs\<close>

text \<open>The bytes of a value of which some are missing, or no bytes.\<close>

definition partial_item :: "('v \<Rightarrow> bytes) \<Rightarrow> ('v \<Rightarrow> bool) \<Rightarrow> bytes \<Rightarrow> bool" where
  "partial_item enc ok p \<longleftrightarrow> p = [] \<or> (\<exists>v. ok v \<and> strict_prefix p (enc v))"

text \<open>
  What a codec promises for the values \<open>ok\<close> allows: of an incomplete value it decodes nothing, and of
  complete ones, with perhaps an incomplete one behind them, it decodes the first.
\<close>

locale stream_codec =
  fixes decode :: "('v, 'e) decoder" and enc :: "'v \<Rightarrow> bytes" and ok :: "'v \<Rightarrow> bool"
  assumes decode_partial: "partial_item enc ok p \<Longrightarrow> decode p = (Ok None, p)"
    and decode_complete: "ok v \<Longrightarrow> list_all ok vs \<Longrightarrow> partial_item enc ok p \<Longrightarrow>
      decode (enc v @ concat (map enc vs) @ p) = (Ok (Some v), concat (map enc vs) @ p)"
begin

lemma read_stream:
  "list_all ok vs \<Longrightarrow> partial_item enc ok p \<Longrightarrow> framed_read decode (concat (map enc vs) @ p) = Some (vs, Ok p)"
proof (induction vs)
  case Nil
  then show ?case
    by (simp add: framed_read.simps [of decode p] decode_partial)
next
  case (Cons v vs)
  then show ?case
    using decode_complete [of v vs p] by (subst framed_read.simps) simp
qed

lemma stream_prefix:
  assumes "prefix s (concat (map enc vs))" "list_all ok vs"
  shows "\<exists>vs1 vs2 p. vs = vs1 @ vs2 \<and> s = concat (map enc vs1) @ p \<and> partial_item enc ok p"
  using assms
proof (induction vs arbitrary: s)
  case Nil
  then show ?case
    by (auto simp: partial_item_def)
next
  case (Cons v vs)
  show ?case
  proof (cases "strict_prefix s (enc v)")
    case True
    then have "v # vs = [] @ v # vs \<and> s = concat (map enc []) @ s \<and> partial_item enc ok s"
      using Cons.prems(2) by (auto simp: partial_item_def)
    then show ?thesis
      by blast
  next
    case False
    then obtain s' where s': "s = enc v @ s'" "prefix s' (concat (map enc vs))"
      using Cons.prems(1) by (auto simp: prefix_append strict_prefix_def)
    then obtain vs1 vs2 p where "vs = vs1 @ vs2" "s' = concat (map enc vs1) @ p" "partial_item enc ok p"
      using Cons.IH [of s'] Cons.prems(2) by auto
    then have "v # vs = (v # vs1) @ vs2 \<and> s = concat (map enc (v # vs1)) @ p \<and> partial_item enc ok p"
      using s'(1) by simp
    then show ?thesis
      by blast
  qed
qed

lemma feed_stream:
  assumes "p @ concat chunks = concat (map enc vs)" "list_all ok vs" "partial_item enc ok p"
  shows "framed_feed decode p chunks = Some (vs, Ok [])"
  using assms
proof (induction chunks arbitrary: p vs)
  case Nil
  have "vs = []"
  proof (cases vs)
    case (Cons v vs')
    then show ?thesis
      using decode_complete [of v vs' "[]"] decode_partial [OF Nil.prems(3)] Nil.prems(1,2)
      by (simp add: partial_item_def)
  qed simp
  then show ?case
    using Nil.prems(1) by simp
next
  case (Cons chunk chunks)
  have "prefix (p @ chunk) (concat (map enc vs))"
    using Cons.prems(1) by (metis append.assoc concat.simps(2) prefixI)
  then obtain vs1 vs2 q where q: "vs = vs1 @ vs2" "p @ chunk = concat (map enc vs1) @ q" "partial_item enc ok q"
    using stream_prefix Cons.prems(2) by blast
  have "concat (map enc vs1) @ q @ concat chunks = concat (map enc vs1) @ concat (map enc vs2)"
    using Cons.prems(1) q(1,2) by (simp flip: append_assoc)
  then have "framed_feed decode q chunks = Some (vs2, Ok [])"
    using Cons.IH Cons.prems(2) q by simp
  then show ?case
    using read_stream [of vs1 q] q Cons.prems(2) by simp
qed

lemma feed_all:
  "concat chunks = concat (map enc vs) \<Longrightarrow> list_all ok vs \<Longrightarrow> framed_feed decode [] chunks = Some (vs, Ok [])"
  using feed_stream [of "[]"] by (simp add: partial_item_def)

end

end
