(* ===== verification/Server_Codec.thy ===== *)
theory Server_Codec
  imports Resp Framing
begin

text \<open>
  \<^verbatim>\<open>RespCodec\<close> of \<^verbatim>\<open>server.rs\<close>: requests are taken from the bytes of a socket as far as they are complete.
  The lemmas show that what arrives does not depend on how the bytes are cut into pieces.
\<close>

section \<open>The codec\<close>

text \<open>
  \<^verbatim>\<open>RespCodec\<close>: the bytes left, and \<open>Ok None\<close> if a value is not complete yet. An error closes the
  connection. \<open>cap\<close> is the largest capacity of a vector, as for the parser.
\<close>

definition resp_decode :: "nat \<Rightarrow> bytes \<Rightarrow> (resp_value option, unit) res \<times> bytes" where
  "resp_decode cap src =
     (case parser_new src of
        Ok p \<Rightarrow>
          (case parse cap p of
             (Ok v, p) \<Rightarrow> (Ok (Some v), drop (p_consumed p) src)
           | (Err Incomplete, _) \<Rightarrow> (Ok None, src)
           | (Err _, _) \<Rightarrow> (Err (), src)
           | (Panic, _) \<Rightarrow> (Panic, src))
      | Err Incomplete \<Rightarrow> (Ok None, src)
      | Err _ \<Rightarrow> (Err (), src)
      | Panic \<Rightarrow> (Panic, src))"

definition resp_encode :: "resp_value \<Rightarrow> bytes \<Rightarrow> bytes" where
  "resp_encode item dst = dst @ serialize_into item"

lemma parse_value_consumes:
  assumes "parse_value cap (Suc fuel) b = (Ok v, b')" "length b < Suc fuel"
  shows "length b' < length b"
proof -
  from assms(1) obtain c b1 where b: "b = c # b1"
    by (cases b) (auto simp: pbind_def read_byte_def)
  have len: "length b1 < fuel"
    using assms(2) b by simp
  have le: "length b' \<le> length b1" if "m b1 = (Ok v, b')" "shrinks cap m b1" for m
    using shrinks_length [OF that(2)] that(1) by simp
  have nested: "shrinks cap (pbind read_byte (\<lambda>c' b'. if c' = CHR 0x0A then parse_value cap fuel b'
      else perr (Invalid ''Invalid prefix when parsing value'') b')) b1"
  proof (rule shrinks_pbind [OF shrinks_read_byte])
    fix c' b2
    assume "read_byte b1 = (Ok c', b2)"
    then have "length b2 < fuel"
      using read_byte_Ok len by fastforce
    then show "shrinks cap (\<lambda>b. if c' = CHR 0x0A then parse_value cap fuel b
        else perr (Invalid ''Invalid prefix when parsing value'') b) b2"
      using parse_value_shrinks(1) [of b2 fuel cap] by (auto simp: shrinks_def perr_def intro: exI [of _ 0])
  qed
  have "length b' \<le> length b1"
    using assms(1) b le shrinks_leaf [of cap b1] parse_value_shrinks(2) [OF len] nested
    by (auto simp: pbind_def [of read_byte _ "c # b1"] read_byte_def [of "c # b1"] perr_def
        simp del: parse_array.simps split: if_splits)
  then show ?thesis
    using b by simp
qed

lemma resp_decode_consumes:
  assumes "resp_decode cap src = (Ok (Some v), rest)"
  shows "length rest < length src"
proof -
  from assms obtain p p' where p: "parser_new src = Ok p" "parse cap p = (Ok v, p')" "rest = drop (p_consumed p') src"
    by (auto simp: resp_decode_def split: res.splits prod.splits resp_error.splits)
  then have body: "p_consumed p = 0" "length (p_body p) \<le> length src"
    by (auto simp: parser_new_def res_bind_Ok_iff split: if_splits)
  obtain b where b: "parse_value cap (Suc (length (p_body p))) (p_body p) = (Ok v, b)"
    "p_consumed p' = length (p_body p) - length b"
    using p(2) body by (auto simp: parse_def Let_def case_prod_beta simp del: parse_value.simps) (metis prod.collapse)
  have "length b < length (p_body p)"
    using parse_value_consumes [OF b(1)] by simp
  then show ?thesis
    using b(2) p(3) body by simp
qed

section \<open>Incomplete values\<close>

lemma read_with_separator_cut:
  "strict_prefix p (l @ crlf) \<Longrightarrow> fst (read_with_separator (length l) p) = Err Incomplete"
  using prefix_length_less [of p "l @ crlf"]
  by (simp add: read_with_separator_def pbind_def read_def crlf_def)

lemma read_line_cut:
  assumes "CHR 0x0D \<notin> set l" "strict_prefix p (l @ crlf)"
  shows "fst (read_line p) = Err Incomplete"
proof (rule strict_prefix_append_cases [OF assms(2)])
  assume "strict_prefix p l"
  then have "CHR 0x0D \<notin> set p"
    using assms(1) by (auto dest: prefix_order.less_imp_le set_mono_prefix)
  then show ?thesis
    by (simp add: read_line_def position_eq_None)
next
  fix q
  assume q: "p = l @ q" "strict_prefix q crlf"
  then have "q = [] \<or> q = [CHR 0x0D]"
    by (auto simp: crlf_def strict_prefix_def prefix_Cons)
  then show ?thesis
    using q assms(1) read_with_separator_cut [OF assms(2)]
    by (auto simp: read_line_def position_eq_None position_eq_append)
qed

lemma read_int_line_cut:
  "CHR 0x0D \<notin> set l \<Longrightarrow> strict_prefix p (l @ crlf) \<Longrightarrow> fst (read_int_line p) = Err Incomplete"
  using read_line_cut [of l p] by (auto simp: read_int_line_def pbind_def split: prod.splits)

text \<open>A line and what follows it: the cut is in the line, or the line is read.\<close>

lemma pbind_cut: "fst (m p) = Err Incomplete \<Longrightarrow> fst (pbind m k p) = Err Incomplete"
  by (auto simp: pbind_def split: prod.splits)

lemma pbind_int_line_cut:
  assumes "CHR 0x0D \<notin> set l" "parse_i64 l = Some w" "strict_prefix p (l @ crlf @ b)"
    "\<And>q. p = l @ crlf @ q \<Longrightarrow> strict_prefix q b \<Longrightarrow> fst (k w q) = Err Incomplete"
  shows "fst (pbind read_int_line k p) = Err Incomplete"
proof -
  have "strict_prefix p ((l @ crlf) @ b)"
    using assms(3) by simp
  then show ?thesis
  proof (rule strict_prefix_append_cases)
    assume "strict_prefix p (l @ crlf)"
    then show ?thesis
      using read_int_line_cut [OF assms(1)] pbind_cut by blast
  next
    fix q
    assume "p = (l @ crlf) @ q" "strict_prefix q b"
    then show ?thesis
      using assms(4) [of q] read_int_line_crlf [OF assms(1,2), of q] by (simp add: pbind_def)
  qed
qed

lemma parse_data_cut:
  assumes "length d < 2 ^ 63" "strict_prefix p (show_nat (length d) @ crlf @ d @ crlf)"
  shows "fst (parse_data p) = Err Incomplete"
  unfolding parse_data_def
  by (rule pbind_int_line_cut [OF show_nat_no_cr parse_i64_show_nat [OF assms(1)] assms(2)])
     (simp add: sint_of_nat64 [OF assms(1)] read_with_separator_cut pbind_cut)

lemma parse_elements_cut:
  assumes "strict_prefix p (concat (map serialize_into a))" "length p < f" "list_all (resp_wf cap) a"
    "\<And>v q. v \<in> set a \<Longrightarrow> strict_prefix q (serialize_into v) \<Longrightarrow> length q < f \<Longrightarrow>
       fst (parse_value cap f q) = Err Incomplete"
  shows "fst (parse_elements cap f (length a) p) = Err Incomplete"
  using assms
proof (induction a arbitrary: p)
  case (Cons v a)
  from Cons.prems(1) have "strict_prefix p (serialize_into v @ concat (map serialize_into a))"
    by simp
  then show ?case
  proof (rule strict_prefix_append_cases)
    assume "strict_prefix p (serialize_into v)"
    then show ?thesis
      using Cons.prems by (auto intro!: pbind_cut simp del: parse_value.simps)
  next
    fix q
    assume q: "p = serialize_into v @ q" "strict_prefix q (concat (map serialize_into a))"
    then have "fst (parse_elements cap f (length a) q) = Err Incomplete"
      using Cons.IH [of q] Cons.prems by auto
    then show ?thesis
      using q Cons.prems parse_value_serialized [of cap v f q]
      by (auto simp: pbind_def [of "parse_value cap f"] simp del: parse_value.simps intro!: pbind_cut)
  qed
qed simp

text \<open>A value of which bytes are missing is incomplete for the parser, not invalid.\<close>

lemma parse_value_cut_Cons:
  assumes "strict_prefix p (c # s)" "length p < f"
    "\<And>q f'. f = Suc f' \<Longrightarrow> p = c # q \<Longrightarrow> strict_prefix q s \<Longrightarrow> fst (parse_value cap (Suc f') (c # q)) = Err Incomplete"
  shows "fst (parse_value cap f p) = Err Incomplete"
proof -
  obtain f' where f: "f = Suc f'"
    using assms(2) by (cases f) simp_all
  from assms(1) show ?thesis
    by (rule strict_prefix_Cons_cases) (use assms(3) f in \<open>simp_all add: pbind_def read_byte_def del: parse_array.simps\<close>)
qed

lemma parse_leaf_cut:
  "CHR 0x0D \<notin> set l \<Longrightarrow> strict_prefix q (l @ crlf) \<Longrightarrow> fst (parse_status q) = Err Incomplete"
  "CHR 0x0D \<notin> set l \<Longrightarrow> strict_prefix q (l @ crlf) \<Longrightarrow> fst (parse_error q) = Err Incomplete"
  "strict_prefix q (show_i64 w @ crlf) \<Longrightarrow> fst (parse_int q) = Err Incomplete"
  "strict_prefix q (''-1'' @ crlf) \<Longrightarrow> fst (parse_data q) = Err Incomplete"
  unfolding parse_status_def parse_error_def parse_int_def parse_data_def
  using read_line_cut [of l q] read_int_line_cut [OF show_i64_no_cr, of q w] read_int_line_cut [of "''-1''" q]
  by (simp_all add: pbind_cut)

lemma parse_array_cut:
  assumes "length a < 2 ^ 63" "length a \<le> cap" "list_all (resp_wf cap) a" "length q < f"
    "strict_prefix q (show_nat (length a) @ crlf @ concat (map serialize_into a))"
    "\<And>v r. v \<in> set a \<Longrightarrow> strict_prefix r (serialize_into v) \<Longrightarrow> length r < f \<Longrightarrow>
       fst (parse_value cap f r) = Err Incomplete"
  shows "fst (parse_array cap f q) = Err Incomplete"
  unfolding parse_array.simps
proof (rule pbind_int_line_cut [OF show_nat_no_cr parse_i64_show_nat [OF assms(1)] assms(5)])
  fix r
  assume r: "q = show_nat (length a) @ crlf @ r" "strict_prefix r (concat (map serialize_into a))"
  then have "fst (parse_elements cap f (length a) r) = Err Incomplete"
    using assms by (intro parse_elements_cut) auto
  then show "fst (if sint (of_nat (length a) :: i64) < 0 then pret RNil r
      else if int cap < sint (of_nat (length a) :: i64) then (Panic, r)
      else pbind (parse_elements cap f (nat (sint (of_nat (length a) :: i64)))) (\<lambda>rv. pret (RArray rv)) r) = Err Incomplete"
    using assms by (simp add: sint_of_nat64 pbind_cut)
qed

lemma parse_value_prefixed:
  "parse_value cap (Suc f) (CHR ''$'' # q) = parse_data q" "parse_value cap (Suc f) (CHR ''*'' # q) = parse_array cap f q"
  "parse_value cap (Suc f) (CHR '':'' # q) = parse_int q" "parse_value cap (Suc f) (CHR ''+'' # q) = parse_status q"
  "parse_value cap (Suc f) (CHR ''-'' # q) = parse_error q"
  by (simp_all add: pbind_def [of read_byte] read_byte_def del: parse_array.simps)

lemma parse_value_cut:
  "resp_wf cap v \<Longrightarrow> strict_prefix p (serialize_into v) \<Longrightarrow> length p < f \<Longrightarrow>
     fst (parse_value cap f p) = Err Incomplete"
proof (induction v arbitrary: f p)
  case (RArray a)
  from RArray.prems(2) have "strict_prefix p (CHR ''*'' # show_nat (length a) @ crlf @ concat (map serialize_into a))"
    by simp
  then show ?case
    by (rule parse_value_cut_Cons [OF _ RArray.prems(3)])
       (use RArray.IH RArray.prems in
         \<open>auto simp: parse_value_prefixed list_all_iff simp del: parse_value.simps parse_array.simps intro!: parse_array_cut\<close>)
qed (simp_all add: parse_value_cut_Cons parse_value_prefixed parse_leaf_cut parse_data_cut del: parse_value.simps)

section \<open>The speculation on requests\<close>

text \<open>A request is an array of bulk strings.\<close>

definition request :: "bytes list \<Rightarrow> resp_value" where
  "request args = RArray (map RData args)"

definition request_ok :: "nat \<Rightarrow> bytes list \<Rightarrow> bool" where
  "request_ok cap args \<longleftrightarrow>
     length args \<le> cap \<and> length args < 2 ^ 63 - 1 \<and> list_all (\<lambda>d. length d < 2 ^ 63) args"

definition is_request :: "nat \<Rightarrow> resp_value \<Rightarrow> bool" where
  "is_request cap v \<longleftrightarrow> (\<exists>args. v = request args \<and> request_ok cap args)"

lemma drop_eq_ConsD: "drop i buf = c # r \<Longrightarrow> i < length buf \<and> buf ! i = c \<and> drop (Suc i) buf = r"
  by (metis Cons_nth_drop_Suc drop_eq_Nil2 linorder_not_less list.distinct(1) list.inject)

lemma drop_eq_appendD: "drop i buf = a @ r \<Longrightarrow> drop (i + length a) buf = r"
  by (metis add.commute append_eq_conv_conj drop_drop)

lemma digits_of_nat:
  "foldl (\<lambda>l c. l * 10 + of_nat (of_char c - 48)) (of_nat n :: i64) ds =
   of_nat (foldl (\<lambda>n c. 10 * n + (of_char c - 48)) n ds)"
proof (induction ds arbitrary: n)
  case (Cons c ds)
  show ?case
    using Cons.IH [of "10 * n + (of_char c - 48)"] by (simp add: mult.commute)
qed simp

lemma spec_digits_number:
  "list_all is_digit ds \<Longrightarrow> drop i buf = ds @ CHR 0x0D # r \<Longrightarrow>
     spec_digits buf i len = Ok (i + length ds, foldl (\<lambda>l c. l * 10 + of_nat (of_char c - 48)) len ds)"
proof (induction ds arbitrary: i len)
  case Nil
  then show ?case
    using drop_eq_ConsD [of i buf] by (subst spec_digits.simps) (auto simp: is_digit_def)
next
  case (Cons c ds)
  then show ?case
    using drop_eq_ConsD [of i buf c] by (subst spec_digits.simps) (auto simp: Let_def)
qed

lemma spec_digits_length:
  "drop i buf = show_nat n @ CHR 0x0D # r \<Longrightarrow> spec_digits buf i 0 = Ok (i + length (show_nat n), of_nat n)"
  using spec_digits_number [of "show_nat n" i buf r 0] show_nat_digits [of n] digits_of_nat [of 0 "show_nat n"]
  by (simp add: foldl_show_nat)

lemma spec_digits_cut:
  "list_all is_digit ds \<Longrightarrow> drop i buf = ds \<Longrightarrow> i \<le> length buf \<Longrightarrow> \<exists>len'. spec_digits buf i len = Ok (length buf, len')"
proof (induction ds arbitrary: i len)
  case Nil
  then show ?case
    by (subst spec_digits.simps) auto
next
  case (Cons c ds)
  then show ?case
    using drop_eq_ConsD [of i buf c] Cons.IH [of "Suc i"] by (subst spec_digits.simps) (auto simp: Let_def)
qed

lemma spec_step_array:
  assumes "drop i buf = CHR ''*'' # show_nat n @ crlf @ r" "n < 2 ^ 63 - 1"
  shows "spec_step buf i valid pending =
    (let j = i + length (CHR ''*'' # show_nat n @ crlf) in Ok (j, if n = 0 then j else valid, of_nat n))"
proof -
  note i = drop_eq_ConsD [OF assms(1)]
  have "spec_digits buf (i + 1) 0 = Ok (i + 1 + length (show_nat n), of_nat n)"
    using i by (intro spec_digits_length) (simp add: crlf_def)
  moreover have "i + length (CHR ''*'' # show_nat n @ crlf) \<le> length buf"
    using assms(1) by (metis Nat.le_diff_conv2 add.commute append_assoc append_Cons i le_add1 length_append length_drop less_imp_le)
  moreover have "sint (of_nat n :: i64) = int n" "sint (of_nat n + 1 :: i64) = int n + 1"
    using assms(2) sint_of_nat64 [of n] sint_of_nat64 [of "Suc n"] by (simp_all add: add.commute)
  moreover have "(of_nat n :: i64) = 0 \<longleftrightarrow> n = 0"
    using assms(2) sint_of_nat64 [of n] by auto
  ultimately show ?thesis
    using i by (simp add: spec_step_def spec_header_def spec_advance_def Let_def crlf_def)
qed

lemma spec_step_data:
  assumes "drop i buf = serialize_into (RData d) @ r" "length d < 2 ^ 63" "k < 2 ^ 63 - 1"
  shows "spec_step buf i valid (of_nat (Suc k)) =
    (let j = i + length (serialize_into (RData d)) in Ok (j, if k = 0 then j else valid, of_nat k))"
proof -
  have d: "drop i buf = CHR ''$'' # show_nat (length d) @ crlf @ d @ crlf @ r"
    using assms(1) by simp
  note i = drop_eq_ConsD [OF d]
  have "spec_digits buf (i + 1) 0 = Ok (i + 1 + length (show_nat (length d)), of_nat (length d))"
    using i by (intro spec_digits_length) (simp add: crlf_def)
  moreover have "i + length (serialize_into (RData d)) \<le> length buf"
    using assms(1) i by (metis Nat.le_diff_conv2 add.commute le_add1 length_append length_drop less_imp_le)
  moreover have "sint (of_nat (length d) :: i64) = int (length d)" "sint (of_nat (Suc k) :: i64) = int (Suc k)"
    using assms(2,3) sint_of_nat64 [of "length d"] sint_of_nat64 [of "Suc k"] by simp_all
  moreover have "(of_nat k :: i64) = 0 \<longleftrightarrow> k = 0"
    using assms(3) sint_of_nat64 [of k] by auto
  ultimately show ?thesis
    using i by (simp add: spec_step_def spec_header_def spec_advance_def Let_def crlf_def)
qed

lemma spec_step_cut:
  assumes cut: "drop i buf = c # q" "strict_prefix q (show_nat n @ crlf @ body)" "n < 2 ^ 63"
    and c: "c = CHR ''*'' \<and> body = [] \<or> c = CHR ''$'' \<and> length body = n + 2"
  shows "\<exists>i' pending'. spec_step buf i valid pending = Ok (i', valid, pending') \<and> length buf \<le> i'"
proof -
  note i = drop_eq_ConsD [OF cut(1)]
  have len: "length buf = i + 1 + length q"
    using i by (metis Suc_eq_plus1 Suc_leI add_diff_inverse_nat length_drop linorder_not_less)
  have advance: "\<exists>i' pending'. Ok (spec_advance buf j valid pend) = Ok (i', valid, pending') \<and> length buf \<le> i'"
    if "length buf \<le> j + 1" for j pend
    using that by (simp add: spec_advance_def Let_def)
  consider "list_all is_digit q" | r where "q = show_nat n @ CHR 0x0D # r" "strict_prefix r (CHR 0x0A # body)"
    using cut(2)
  proof (rule strict_prefix_append_cases)
    assume "strict_prefix q (show_nat n)"
    then show ?thesis
      using that(1) show_nat_digits [of n] by (auto simp: list_all_iff dest: set_mono_prefix prefix_order.less_imp_le)
  next
    fix q'
    assume q': "q = show_nat n @ q'" "strict_prefix q' (crlf @ body)"
    then show ?thesis
      using that show_nat_digits [of n] by (cases q') (auto simp: crlf_def strict_prefix_def)
  qed
  then show ?thesis
  proof cases
    case 1
    then obtain len' where "spec_digits buf (i + 1) 0 = Ok (length buf, len')"
      using spec_digits_cut [of q "i + 1" buf 0] i by auto
    then show ?thesis
      using i c advance by (auto simp: spec_step_def spec_header_def Let_def)
  next
    case 2
    have d: "spec_digits buf (i + 1) 0 = Ok (i + 1 + length (show_nat n), of_nat n)"
      using i 2(1) by (intro spec_digits_length) simp
    have "length r \<le> length body"
      using prefix_length_less [OF 2(2)] by simp
    then show ?thesis
      using i c advance d len 2(1) cut(3) by (auto simp: spec_step_def spec_header_def Let_def sint_of_nat64)
  qed
qed

text \<open>The loop over the elements of a request, over requests, and over what is cut.\<close>

lemma spec_loop_next:
  "i < length buf \<Longrightarrow> spec_step buf i valid pending = Ok (i', valid', pending') \<Longrightarrow>
     spec_loop buf i valid pending = spec_loop buf i' valid' pending'"
  by (simp add: spec_loop.simps [of buf i])

lemma spec_loop_end: "length buf \<le> i \<Longrightarrow> spec_loop buf i valid pending = Ok valid"
  by (simp add: spec_loop.simps)

lemma spec_loop_data:
  assumes "drop i buf = concat (map serialize_into (map RData args)) @ r" "args \<noteq> []"
    "list_all (\<lambda>d. length d < 2 ^ 63) args" "length args < 2 ^ 63 - 1"
  shows "spec_loop buf i valid (of_nat (length args)) =
    (let j = i + length (concat (map serialize_into (map RData args))) in spec_loop buf j j 0)"
  using assms
proof (induction args arbitrary: i valid)
  case (Cons d args)
  let ?j = "i + length (serialize_into (RData d))"
  have d: "drop i buf = serialize_into (RData d) @ concat (map serialize_into (map RData args)) @ r"
    using Cons.prems(1) by simp
  then have i: "i < length buf"
    by (cases "i < length buf") auto
  have step: "spec_step buf i valid (of_nat (Suc (length args))) =
      Ok (?j, if length args = 0 then ?j else valid, of_nat (length args))"
    using spec_step_data [OF d, of "length args" valid] Cons.prems(3,4) by (simp add: Let_def)
  show ?case
  proof (cases "args = []")
    case True
    then show ?thesis
      using spec_loop_next [OF i step] by simp
  next
    case False
    then show ?thesis
      using spec_loop_next [OF i step] Cons.IH [OF drop_eq_appendD [OF d] False] Cons.prems(3,4)
      by (simp add: Let_def add.assoc)
  qed
qed simp

lemma spec_loop_data_cut:
  assumes "drop i buf = p" "strict_prefix p (concat (map serialize_into (map RData args)))"
    "list_all (\<lambda>d. length d < 2 ^ 63) args" "length args < 2 ^ 63 - 1"
  shows "spec_loop buf i valid (of_nat (length args)) = Ok valid"
  using assms
proof (induction args arbitrary: i p)
  case (Cons d args)
  from Cons.prems(2) have "strict_prefix p (serialize_into (RData d) @ concat (map serialize_into (map RData args)))"
    by simp
  then show ?case
  proof (rule strict_prefix_append_cases)
    assume "strict_prefix p (serialize_into (RData d))"
    then have "strict_prefix p (CHR ''$'' # show_nat (length d) @ crlf @ d @ crlf)"
      by simp
    then show ?thesis
    proof (rule strict_prefix_Cons_cases)
      assume "p = []"
      then show ?thesis
        using Cons.prems(1) by (simp add: spec_loop_end)
    next
      fix q
      assume q: "p = CHR ''$'' # q" "strict_prefix q (show_nat (length d) @ crlf @ d @ crlf)"
      then have "drop i buf = CHR ''$'' # q" "length (d @ crlf) = length d + 2"
        using Cons.prems(1) by (simp_all add: crlf_def)
      then show ?thesis
        using spec_step_cut [of i buf "CHR ''$''" q "length d" "d @ crlf" valid "of_nat (length (d # args))"] q(2)
          Cons.prems(3) drop_eq_ConsD [of i buf] spec_loop_next [of i buf] spec_loop_end [of buf]
        by auto
    qed
  next
    fix q
    assume q: "p = serialize_into (RData d) @ q" "strict_prefix q (concat (map serialize_into (map RData args)))"
    let ?j = "i + length (serialize_into (RData d))"
    have d: "drop i buf = serialize_into (RData d) @ q"
      using Cons.prems(1) q(1) by simp
    then have i: "i < length buf"
      by (cases "i < length buf") auto
    have "args \<noteq> []"
      using q(2) by auto
    then have "spec_step buf i valid (of_nat (length (d # args))) = Ok (?j, valid, of_nat (length args))"
      using spec_step_data [OF d, of "length args" valid] Cons.prems(3,4) by (simp add: Let_def)
    then show ?thesis
      using spec_loop_next [OF i] Cons.IH [OF drop_eq_appendD [OF d] q(2)] Cons.prems(3,4) by simp
  qed
qed simp

lemma serialize_request:
  "serialize_into (request args) =
     (CHR ''*'' # show_nat (length args) @ crlf) @ concat (map serialize_into (map RData args))"
  by (simp add: request_def)

lemma spec_loop_request:
  assumes "drop i buf = serialize_into (request args) @ r" "request_ok cap args"
  shows "spec_loop buf i valid 0 =
    (let j = i + length (serialize_into (request args)) in spec_loop buf j j 0)"
proof -
  let ?h = "CHR ''*'' # show_nat (length args) @ crlf"
  have h: "drop i buf = ?h @ concat (map serialize_into (map RData args)) @ r"
    using assms(1) by (simp only: serialize_request append_assoc)
  then have i: "i < length buf"
    by (cases "i < length buf") auto
  have step: "spec_step buf i valid 0 =
      Ok (i + length ?h, if args = [] then i + length ?h else valid, of_nat (length args))"
    using spec_step_array [of i buf "length args" "concat (map serialize_into (map RData args)) @ r" valid 0] h assms(2)
    by (simp add: Let_def request_ok_def)
  show ?thesis
  proof (cases "args = []")
    case True
    then show ?thesis
      using spec_loop_next [OF i step] by (simp add: request_def)
  next
    case False
    then show ?thesis
      using spec_loop_next [OF i step] spec_loop_data [OF drop_eq_appendD [OF h] False, of valid] assms(2)
      by (simp add: Let_def request_ok_def serialize_request add.assoc)
  qed
qed

lemma spec_loop_request_cut:
  assumes "drop i buf = p" "strict_prefix p (serialize_into (request args))" "request_ok cap args"
  shows "spec_loop buf i valid 0 = Ok valid"
proof -
  let ?h = "CHR ''*'' # show_nat (length args) @ crlf"
  let ?b = "concat (map serialize_into (map RData args))"
  from assms(2) have "strict_prefix p (?h @ ?b)"
    by (simp only: serialize_request)
  then show ?thesis
  proof (rule strict_prefix_append_cases)
    assume "strict_prefix p ?h"
    then show ?thesis
    proof (rule strict_prefix_Cons_cases)
      assume "p = []"
      then show ?thesis
        using assms(1) by (simp add: spec_loop_end)
    next
      fix q
      assume q: "p = CHR ''*'' # q" "strict_prefix q (show_nat (length args) @ crlf)"
      then show ?thesis
        using spec_step_cut [of i buf "CHR ''*''" q "length args" "[]" valid 0] assms(1,3)
          drop_eq_ConsD [of i buf] spec_loop_next [of i buf] spec_loop_end [of buf]
        by (auto simp: request_ok_def)
    qed
  next
    fix q
    assume q: "p = ?h @ q" "strict_prefix q ?b"
    then have h: "drop i buf = ?h @ q" and ne: "args \<noteq> []"
      using assms(1) by auto
    then have i: "i < length buf"
      by (cases "i < length buf") auto
    have step: "spec_step buf i valid 0 = Ok (i + length ?h, valid, of_nat (length args))"
      using spec_step_array [of i buf "length args" q valid 0] h ne assms(3) by (simp add: Let_def request_ok_def)
    show ?thesis
      using spec_loop_next [OF i step] spec_loop_data_cut [OF drop_eq_appendD [OF h] q(2), of valid] assms(3)
      by (simp add: request_ok_def)
  qed
qed

section \<open>Reading a stream of requests\<close>

abbreviation wire :: "resp_value list \<Rightarrow> bytes" where
  "wire vs \<equiv> concat (map serialize_into vs)"

abbreviation partial_request :: "nat \<Rightarrow> bytes \<Rightarrow> bool" where
  "partial_request cap \<equiv> partial_item serialize_into (is_request cap)"

lemma request_wf: "is_request cap v \<Longrightarrow> resp_wf cap v"
  by (auto simp: is_request_def request_ok_def request_def list_all_iff)

lemma request_length: "is_request cap v \<Longrightarrow> 4 \<le> length (serialize_into v)"
proof -
  have "0 < length (show_nat n)" for n
    using show_nat_digits [of n] by simp
  then show "is_request cap v \<Longrightarrow> 4 \<le> length (serialize_into v)"
    by (auto simp: is_request_def request_def crlf_def Suc_le_eq)
qed

lemma spec_loop_wire:
  assumes "drop i buf = wire vs @ p" "list_all (is_request cap) vs" "partial_request cap p"
  shows "spec_loop buf i i 0 = Ok (i + length (wire vs))"
  using assms
proof (induction vs arbitrary: i)
  case Nil
  then show ?case
    using spec_loop_request_cut [of i buf p] spec_loop_end [of buf i] by (auto simp: partial_item_def is_request_def)
next
  case (Cons v vs)
  then obtain args where v: "v = request args" "request_ok cap args"
    by (auto simp: is_request_def)
  have d: "drop i buf = serialize_into (request args) @ wire vs @ p"
    using Cons.prems(1) v by simp
  then show ?case
    using spec_loop_request [OF d v(2)] Cons.IH [OF drop_eq_appendD [OF d]] Cons.prems(2,3) v(1)
    by (simp add: Let_def)
qed

lemma speculate_valid:
  "spec_loop (w @ p) 0 0 0 = Ok (length w) \<Longrightarrow> 4 \<le> length w \<Longrightarrow>
     speculate_buffer (w @ p) \<in> {Ok (length w + length p), Ok (length w + 0)}"
  by (auto simp: speculate_buffer_def)

lemma speculate_wire:
  assumes "list_all (is_request cap) (v # vs)" "partial_request cap p"
  obtains n where "speculate_buffer (wire (v # vs) @ p) = Ok (length (wire (v # vs)) + n)" "n \<le> length p"
proof -
  have "4 \<le> length (wire (v # vs))"
    using request_length [of cap v] assms(1) by simp
  then have "speculate_buffer (wire (v # vs) @ p) \<in> {Ok (length (wire (v # vs)) + length p), Ok (length (wire (v # vs)) + 0)}"
    using spec_loop_wire [of 0 "wire (v # vs) @ p" "v # vs" p cap] assms by (intro speculate_valid) simp_all
  then show ?thesis
    using that by blast
qed

lemma parse_partial:
  assumes "partial_request cap p" "p \<noteq> []"
  shows "fst (parse cap \<lparr>p_consumed = 0, p_body = p\<rparr>) = Err Incomplete"
proof -
  obtain v where "is_request cap v" "strict_prefix p (serialize_into v)"
    using assms by (auto simp: partial_item_def)
  then have "fst (parse_value cap (Suc (length p)) p) = Err Incomplete"
    by (intro parse_value_cut [OF request_wf]) auto
  then show ?thesis
    by (simp add: parse_def Let_def case_prod_beta del: parse_value.simps)
qed

lemma resp_decode_partial:
  assumes "partial_request cap p"
  shows "resp_decode cap p = (Ok None, p)"
proof -
  have "spec_loop p 0 0 0 = Ok 0"
    using spec_loop_wire [of 0 p "[]" p cap] assms by simp
  then have "speculate_buffer p = Err Incomplete \<or> p \<noteq> [] \<and> speculate_buffer p = Ok (length p)"
    by (cases "p = []") (auto simp: speculate_buffer_def)
  then consider "parser_new p = Err Incomplete" | "p \<noteq> []" "parser_new p = Ok \<lparr>p_consumed = 0, p_body = p\<rparr>"
    by (auto simp: parser_new_def)
  then show ?thesis
    using parse_partial [OF assms] by cases (auto simp: resp_decode_def split: prod.splits)
qed

lemma resp_decode_complete:
  assumes "is_request cap v" "list_all (is_request cap) vs" "partial_request cap p"
  shows "resp_decode cap (serialize_into v @ wire vs @ p) = (Ok (Some v), wire vs @ p)"
proof -
  obtain n where n: "speculate_buffer (wire (v # vs) @ p) = Ok (length (wire (v # vs)) + n)" "n \<le> length p"
    using speculate_wire [of cap v vs p] assms by auto
  then have "parser_new (serialize_into v @ wire vs @ p) =
      Ok \<lparr>p_consumed = 0, p_body = serialize_into v @ wire vs @ take n p\<rparr>"
    by (simp add: parser_new_def)
  moreover have "parse_value cap (Suc (length (serialize_into v @ wire vs @ take n p)))
      (serialize_into v @ wire vs @ take n p) = (Ok v, wire vs @ take n p)"
    using assms(1) by (intro parse_value_serialized request_wf) auto
  ultimately show ?thesis
    by (simp add: resp_decode_def parse_def Let_def del: parse_value.simps)
qed

interpretation resp: stream_codec "resp_decode cap" serialize_into "is_request cap" for cap
  by unfold_locales (simp_all add: resp_decode_partial resp_decode_complete)

lemma resp_read_total: "\<exists>vs res. framed_read (resp_decode cap) src = Some (vs, res)"
  by (rule framed_read_total) (rule resp_decode_consumes)

section \<open>Properties\<close>

text \<open>
  C12: However the network cuts the bytes of a client into pieces, the connection receives exactly the
  requests the client sent, in order, and keeps no bytes. The requests are arrays of bulk strings;
  their lengths fit an \<^verbatim>\<open>i64\<close> and arrays are not longer than a vector can be.
\<close>

theorem requests_arrive:
  assumes "concat chunks = concat (map (serialize_into \<circ> request) cs)" "list_all (request_ok cap) cs"
  shows "framed_feed (resp_decode cap) [] chunks = Some (map request cs, Ok [])"
  by (rule resp.feed_all) (use assms in \<open>auto simp: list_all_iff is_request_def\<close>)

theorem requests_arrive_witness:
  "let cs = [[''GET'', ''k''], [''NOP'']];
       chunks = [''*2'', [CHR 0x0D], CHR 0x0A # ''$3'' @ crlf @ ''G'',
         ''ET'' @ crlf @ ''$1'' @ crlf @ ''k'' @ crlf @ ''*1'' @ crlf, ''$3'' @ crlf @ ''NO'', ''P'' @ crlf]
   in framed_feed (resp_decode 1000) [] chunks = Some (map request cs, Ok [])"
  unfolding Let_def
  by (rule requests_arrive)
     (simp_all add: request_def request_ok_def crlf_def show_nat.simps digit_char_def char_of_def bit_iff_odd)

end
