(* ===== verification/Clock_Interface.thy ===== *)
theory Clock_Interface
  imports Prelude
begin

text \<open>
  What the clocks of the program promise. A dot \<open>(id, version)\<close> names one write; a clock stands
  for a set of dots. \<open>version_clock\<close> is the contract of a clock that can be queried and merged
  (the trait \<^verbatim>\<open>AbsVersionVector\<close> of \<^verbatim>\<open>version_vector.rs\<close>, and \<^verbatim>\<open>merge\<close>), \<open>ordered_clock\<close> adds the
  causal order \<^verbatim>\<open>descends\<close>. The clients' lemmas are proved once here, and hold of every clock
  that interprets the contract.
\<close>

type_synonym id = u64
type_synonym version = u64
type_synonym dot = "id \<times> version"

locale version_clock =
  fixes wf :: "'c \<Rightarrow> bool"
    and dots :: "'c \<Rightarrow> dot set"
    and contains :: "'c \<Rightarrow> id \<Rightarrow> version \<Rightarrow> bool"
    and merge :: "'c \<Rightarrow> 'c \<Rightarrow> 'c"
  assumes contains_iff: "wf c \<Longrightarrow> contains c i v \<longleftrightarrow> (i, v) \<in> dots c"
    and wf_merge: "wf a \<Longrightarrow> wf b \<Longrightarrow> wf (merge a b)"
    and dots_merge: "wf a \<Longrightarrow> wf b \<Longrightarrow> dots (merge a b) = dots a \<union> dots b"
begin

lemma contains_merge:
  "wf a \<Longrightarrow> wf b \<Longrightarrow> contains (merge a b) i v \<longleftrightarrow> contains a i v \<or> contains b i v"
  by (simp add: contains_iff wf_merge dots_merge)

lemma dots_merge_commute: "wf a \<Longrightarrow> wf b \<Longrightarrow> dots (merge a b) = dots (merge b a)"
  by (auto simp: dots_merge)

lemma dots_merge_assoc:
  "wf a \<Longrightarrow> wf b \<Longrightarrow> wf c \<Longrightarrow> dots (merge (merge a b) c) = dots (merge a (merge b c))"
  by (auto simp: dots_merge wf_merge)

lemma dots_merge_idem: "wf a \<Longrightarrow> dots (merge a a) = dots a"
  by (simp add: dots_merge)

text \<open>A replica that merges clocks one after the other ends with their union.\<close>

lemma wf_foldl_merge: "wf c \<Longrightarrow> (\<And>d. d \<in> set cs \<Longrightarrow> wf d) \<Longrightarrow> wf (foldl merge c cs)"
  by (induction cs arbitrary: c) (auto simp: wf_merge)

lemma dots_foldl_merge:
  "wf c \<Longrightarrow> (\<And>d. d \<in> set cs \<Longrightarrow> wf d) \<Longrightarrow> dots (foldl merge c cs) = dots c \<union> (\<Union>d\<in>set cs. dots d)"
  by (induction cs arbitrary: c) (auto simp: wf_merge dots_merge)

lemma foldl_merge_converges:
  assumes "wf c" and "\<And>d. d \<in> set cs \<Longrightarrow> wf d" and "set cs = set ds"
  shows "dots (foldl merge c cs) = dots (foldl merge c ds)"
proof -
  have "dots (foldl merge c cs) = dots c \<union> (\<Union>d\<in>set cs. dots d)"
    using assms(1,2) by (rule dots_foldl_merge)
  moreover have "dots (foldl merge c ds) = dots c \<union> (\<Union>d\<in>set ds. dots d)"
    using assms(1) assms(2) [unfolded assms(3)] by (rule dots_foldl_merge)
  ultimately show ?thesis
    by (simp add: assms(3))
qed

end

locale ordered_clock = version_clock +
  fixes descends :: "'a \<Rightarrow> 'a \<Rightarrow> bool"
  assumes descends_iff: "wf a \<Longrightarrow> wf b \<Longrightarrow> descends a b \<longleftrightarrow> dots b \<subseteq> dots a"
begin

lemma descends_refl: "wf a \<Longrightarrow> descends a a"
  by (simp add: descends_iff)

lemma descends_trans:
  "wf a \<Longrightarrow> wf b \<Longrightarrow> wf c \<Longrightarrow> descends a b \<Longrightarrow> descends b c \<Longrightarrow> descends a c"
  by (auto simp: descends_iff)

lemma descends_merge_iff:
  "wf a \<Longrightarrow> wf b \<Longrightarrow> wf c \<Longrightarrow> descends c (merge a b) \<longleftrightarrow> descends c a \<and> descends c b"
  by (auto simp: descends_iff wf_merge dots_merge)

lemma merge_upper_bounds:
  assumes "wf a" and "wf b"
  shows "descends (merge a b) a" and "descends (merge a b) b"
  using assms by (auto simp: descends_iff wf_merge dots_merge)

lemma descends_antisym_dots:
  "wf a \<Longrightarrow> wf b \<Longrightarrow> descends a b \<Longrightarrow> descends b a \<Longrightarrow> dots a = dots b"
  by (auto simp: descends_iff)

end

end
