(* ===== verification/Version_Vector.thy ===== *)
theory Version_Vector
  imports Clock_Interface
begin

text \<open>
  \<^verbatim>\<open>VersionVector\<close> of \<^verbatim>\<open>version_vector.rs\<close>: a map from a node id to the highest version seen from
  that node. It stands for the set of dots it dominates (\<open>vv_dots\<close>). The vector is an
  association list with distinct keys; \<open>vv_eq\<close> compares two vectors as maps.
\<close>

type_synonym version_vector = "(id \<times> version) list"

definition vv_new :: version_vector where
  "vv_new = []"

definition vv_contains :: "version_vector \<Rightarrow> id \<Rightarrow> version \<Rightarrow> bool" where
  "vv_contains vv i v = (case map_of vv i of Some x \<Rightarrow> v \<le> x | None \<Rightarrow> False)"

definition vv_add :: "version_vector \<Rightarrow> id \<Rightarrow> version \<Rightarrow> version_vector" where
  "vv_add vv i v =
     (case map_of vv i of
        None \<Rightarrow> AList.update i v vv
      | Some x \<Rightarrow> if x < v then AList.update i v vv else vv)"

definition vv_merge :: "version_vector \<Rightarrow> version_vector \<Rightarrow> version_vector" where
  "vv_merge a b = foldl (\<lambda>vv (i, v). vv_add vv i v) a b"

definition vv_descends :: "version_vector \<Rightarrow> version_vector \<Rightarrow> bool" where
  "vv_descends a b =
     list_all (\<lambda>(k, ov). case map_of a k of Some v \<Rightarrow> ov \<le> v | None \<Rightarrow> False) b"

definition vv_strict_descends :: "version_vector \<Rightarrow> version_vector \<Rightarrow> bool" where
  "vv_strict_descends a b \<longleftrightarrow> vv_descends a b \<and> \<not> lm_eq a b"

definition vv_event :: "version_vector \<Rightarrow> id \<Rightarrow> version_vector" where
  "vv_event vv i =
     (case map_of vv i of
        None \<Rightarrow> AList.update i 1 vv
      | Some x \<Rightarrow> AList.update i (x + 1) vv)"

definition vv_iter :: "version_vector \<Rightarrow> dot list" where
  "vv_iter vv = vv"

section \<open>The dots of a version vector\<close>

definition vv_dots :: "version_vector \<Rightarrow> dot set" where
  "vv_dots vv = {(i, v). vv_contains vv i v}"

lemma vv_dots_iff: "(i, v) \<in> vv_dots vv \<longleftrightarrow> vv_contains vv i v"
  by (simp add: vv_dots_def)

lemma vv_contains_new [simp]: "\<not> vv_contains vv_new i v"
  by (simp add: vv_contains_def vv_new_def)

lemma vv_dots_new [simp]: "vv_dots vv_new = {}"
  by (simp add: vv_dots_def)

lemma map_of_vv_add:
  "map_of (vv_add vv i v) j =
     (if j = i then Some (case map_of vv i of None \<Rightarrow> v | Some x \<Rightarrow> max x v) else map_of vv j)"
  by (auto simp: vv_add_def lm_simps max_def split: option.splits)

lemma lm_wf_vv_add: "lm_wf vv \<Longrightarrow> lm_wf (vv_add vv i v)"
  by (auto simp: vv_add_def lm_wf_update map_of_eq_None_iff split: option.splits)

lemma vv_contains_add:
  "vv_contains (vv_add vv i v) j w \<longleftrightarrow> vv_contains vv j w \<or> j = i \<and> w \<le> v"
  by (auto simp: vv_contains_def map_of_vv_add le_max_iff_disj split: option.splits)

lemma lm_wf_vv_merge: "lm_wf a \<Longrightarrow> lm_wf (vv_merge a b)"
  unfolding vv_merge_def by (induction b arbitrary: a) (auto simp: lm_wf_vv_add)

lemma vv_contains_merge_set:
  "vv_contains (vv_merge a b) i v \<longleftrightarrow> vv_contains a i v \<or> (\<exists>w. (i, w) \<in> set b \<and> v \<le> w)"
  unfolding vv_merge_def
  by (induction b arbitrary: a) (auto simp: vv_contains_add)

lemma vv_contains_wf: "lm_wf vv \<Longrightarrow> vv_contains vv i v \<longleftrightarrow> (\<exists>w. (i, w) \<in> set vv \<and> v \<le> w)"
  by (auto simp: vv_contains_def dest: map_of_SomeD split: option.splits)
    (metis eq_key_imp_eq_value map_of_SomeD map_of_is_SomeI option.distinct(1))

lemma vv_dots_merge: "lm_wf b \<Longrightarrow> vv_dots (vv_merge a b) = vv_dots a \<union> vv_dots b"
  by (auto simp: vv_dots_def vv_contains_merge_set vv_contains_wf)

lemma vv_descends_dots:
  assumes "lm_wf b"
  shows "vv_descends a b \<longleftrightarrow> vv_dots b \<subseteq> vv_dots a"
proof
  assume d: "vv_descends a b"
  show "vv_dots b \<subseteq> vv_dots a"
  proof clarify
    fix i v assume "(i, v) \<in> vv_dots b"
    then obtain w where "(i, w) \<in> set b" and "v \<le> w"
      using assms by (auto simp: vv_dots_iff vv_contains_wf)
    with d show "(i, v) \<in> vv_dots a"
      by (fastforce simp: vv_descends_def list_all_iff vv_dots_iff vv_contains_def
          split: option.splits)
  qed
next
  assume sub: "vv_dots b \<subseteq> vv_dots a"
  have "vv_contains a k ov" if "(k, ov) \<in> set b" for k ov
    using that sub assms by (auto simp: vv_dots_def vv_contains_wf)
  then show "vv_descends a b"
    by (auto simp: vv_descends_def list_all_iff vv_contains_def)
qed

interpretation vv: ordered_clock lm_wf vv_dots vv_contains vv_merge vv_descends
  by unfold_locales (auto simp: vv_dots_iff lm_wf_vv_merge vv_dots_merge vv_descends_dots)

text \<open>A vector is determined by its dots, so two vectors with the same dots are equal maps.\<close>

lemma vv_dots_inj:
  assumes "vv_dots a = vv_dots b"
  shows "map_of a = map_of b"
proof
  fix i
  have *: "vv_contains a i v = vv_contains b i v" for v
    using assms by (simp flip: vv_dots_iff)
  show "map_of a i = map_of b i"
    using * [of 0] * [of "the (map_of a i)"] * [of "the (map_of b i)"]
    by (auto simp: vv_contains_def split: option.splits)
qed

lemma vv_dots_cong: "map_of a = map_of b \<Longrightarrow> vv_dots a = vv_dots b"
  by (simp add: vv_dots_def vv_contains_def)

lemma vv_eq_dots: "lm_wf a \<Longrightarrow> lm_wf b \<Longrightarrow> lm_eq a b \<longleftrightarrow> vv_dots a = vv_dots b"
  using lm_eq_iff vv_dots_cong vv_dots_inj by blast

lemma vv_strict_descends_dots:
  "lm_wf a \<Longrightarrow> lm_wf b \<Longrightarrow> vv_strict_descends a b \<longleftrightarrow> vv_dots b \<subset> vv_dots a"
  by (auto simp: vv_strict_descends_def vv_descends_dots vv_eq_dots)

lemma lm_wf_vv_event: "lm_wf vv \<Longrightarrow> lm_wf (vv_event vv i)"
  by (auto simp: vv_event_def lm_wf_update map_of_eq_None_iff split: option.splits)

lemma map_of_vv_event:
  "map_of (vv_event vv i) j =
     (if j = i then Some (case map_of vv i of None \<Rightarrow> 1 | Some x \<Rightarrow> x + 1) else map_of vv j)"
  by (auto simp: vv_event_def lm_simps split: option.splits)

section \<open>Properties\<close>

text \<open>
  \<^verbatim>\<open>descends\<close> and \<^verbatim>\<open>strict_descends\<close> of version vectors are inclusion and strict inclusion of the
  sets of versions they contain.
\<close>

theorem vv_descends_inclusion:
  assumes "lm_wf a" "lm_wf b"
  shows "(vv_descends a b \<longleftrightarrow> vv_dots b \<subseteq> vv_dots a) \<and>
    (vv_strict_descends a b \<longleftrightarrow> vv_dots b \<subset> vv_dots a)"
  using assms vv_descends_dots vv_strict_descends_dots by blast

theorem vv_descends_inclusion_witness:
  "(vv_descends [(1, 3), (2, 1)] [(1, 2)] \<longleftrightarrow> vv_dots [(1, 2)] \<subseteq> vv_dots [(1, 3), (2, 1)]) \<and>
   (vv_strict_descends [(1, 3), (2, 1)] [(1, 2)] \<longleftrightarrow> vv_dots [(1, 2)] \<subset> vv_dots [(1, 3), (2, 1)])"
  by (rule vv_descends_inclusion) simp_all

end
