(* ===== verification/Ring.thy ===== *)
theory Ring
  imports Version_Vector Types
begin

text \<open>
  The ring of \<^verbatim>\<open>dht.rs\<close>: which nodes are in the cluster, which nodes own each vnode, and the
  operations that change it. Addresses and metadata are type parameters. An operation works on
  a copy of the ring (see \<^verbatim>\<open>propose\<close> and \<^verbatim>\<open>on_message\<close>), so that it returns the new ring, an error or
  a panic; a failed operation leaves the ring as it was. \<open>this\<close> is the node that makes the
  change. The serialisation of a ring by the \<^verbatim>\<open>bincode\<close> crate is a parameter of the theories that
  use it.
\<close>

datatype node_status = Valid | Leaving | Invalid

datatype vnode_node_status = Owner | Pending | Retiring

record ('a, 'm) node =
  nd_addr :: 'a
  nd_status :: node_status
  nd_meta :: 'm
  nd_version :: version_vector

record ring_vnode =
  vn_owners :: "(node_id \<times> vnode_node_status) list"
  vn_version :: version_vector

record ('a, 'm) ring =
  rg_vnodes :: "ring_vnode list"
  rg_nodes :: "(node_id \<times> ('a, 'm) node) list"
  rg_replication_factor :: nat
  rg_version :: version_vector
  rg_cluster :: string

record ring_description =
  rd_replication_factor :: u8
  rd_partitions :: u16

datatype ring_error =
    DuplicatedPhysical
  | CantBePromoted node_id
  | NotPartOfVnode node_id vnode_id
  | AlreadyInCluster node_id
  | NotInCluster node_id
  | ClusterNameDiffers
  | IncompatiblePartitions
  | OtherNotValid
  | TooFewReplicas nat
  | TooManyVnodes node_id
  | CantDeserialize

definition ring_vnode_default :: ring_vnode where
  "ring_vnode_default = \<lparr>vn_owners = [], vn_version = vv_new\<rparr>"

definition ring_new :: "string \<Rightarrow> u16 \<Rightarrow> u8 \<Rightarrow> ('a, 'm) ring" where
  "ring_new cluster partitions rf =
     \<lparr>rg_vnodes = replicate (unat partitions) ring_vnode_default, rg_nodes = [],
      rg_replication_factor = unat rf, rg_version = vv_new, rg_cluster = cluster\<rparr>"

definition valid_nodes_count :: "('a, 'm) ring \<Rightarrow> nat" where
  "valid_nodes_count r = length (filter (\<lambda>(_, n). nd_status n = Valid) (rg_nodes r))"

definition valid_physical_count :: "('a, 'm) ring \<Rightarrow> physical_node_id \<Rightarrow> nat" where
  "valid_physical_count r physical =
     length (filter (\<lambda>(i, n). fst (split_u64 i) = physical \<and> nd_status n = Valid) (rg_nodes r))"

text \<open>
  \<open>set_node_status\<close> is the \<^verbatim>\<open>get_mut\<close> block that \<^verbatim>\<open>leave_node\<close>, \<^verbatim>\<open>remove_node\<close> and \<^verbatim>\<open>replace_node\<close> share:
  a new status, and an event of its version if it changes.
\<close>

definition set_node_status ::
  "node_id \<Rightarrow> node_id \<Rightarrow> node_status \<Rightarrow> (node_id \<times> ('a, 'm) node) list \<Rightarrow> (node_id \<times> ('a, 'm) node) list" where
  "set_node_status this i status nodes =
     (case map_of nodes i of
        Some n \<Rightarrow>
          if nd_status n \<noteq> status
          then AList.update i (n\<lparr>nd_status := status, nd_version := vv_event (nd_version n) this\<rparr>) nodes
          else nodes
      | None \<Rightarrow> nodes)"

definition vnode_leave :: "node_id \<Rightarrow> node_id \<Rightarrow> ring_vnode \<Rightarrow> ring_vnode" where
  "vnode_leave this leaving vn =
     (case map_of (vn_owners vn) leaving of
        Some status \<Rightarrow>
          if status \<noteq> Retiring
          then vn\<lparr>vn_owners := AList.update leaving Retiring (vn_owners vn),
                  vn_version := vv_event (vn_version vn) this\<rparr>
          else vn
      | None \<Rightarrow> vn)"

definition leave_node :: "node_id \<Rightarrow> node_id \<Rightarrow> ('a, 'm) ring \<Rightarrow> (('a, 'm) ring, ring_error) res" where
  "leave_node this leaving r =
     Ok (r\<lparr>rg_nodes := set_node_status this leaving Leaving (rg_nodes r),
           rg_vnodes := map (vnode_leave this leaving) (rg_vnodes r)\<rparr>)"

definition join_node ::
  "node_id \<Rightarrow> node_id \<Rightarrow> 'a \<Rightarrow> 'm \<Rightarrow> ('a, 'm) ring \<Rightarrow> (('a, 'm) ring, ring_error) res" where
  "join_node this i addr meta r =
     (let finish = (\<lambda>r. if 1 < valid_physical_count r (fst (split_u64 i)) then Err DuplicatedPhysical
                        else Ok (r\<lparr>rg_version := vv_event (rg_version r) this\<rparr>))
      in case map_of (rg_nodes r) i of
           None \<Rightarrow>
             finish (r\<lparr>rg_nodes := AList.update i
               \<lparr>nd_addr = addr, nd_status = Valid, nd_meta = meta, nd_version = vv_event vv_new this\<rparr>
               (rg_nodes r)\<rparr>)
         | Some n \<Rightarrow>
             if nd_meta n = meta \<and> nd_addr n = addr then Ok r
             else finish (r\<lparr>rg_nodes := AList.update i
               (n\<lparr>nd_meta := meta, nd_addr := addr, nd_version := vv_event (nd_version n) this\<rparr>)
               (rg_nodes r)\<rparr>))"

definition vnode_remove :: "node_id \<Rightarrow> node_id \<Rightarrow> ring_vnode \<Rightarrow> ring_vnode" where
  "vnode_remove this removed vn =
     (case map_of (vn_owners vn) removed of
        Some _ \<Rightarrow> vn\<lparr>vn_owners := AList.delete removed (vn_owners vn),
                     vn_version := vv_event (vn_version vn) this\<rparr>
      | None \<Rightarrow> vn)"

definition remove_node :: "node_id \<Rightarrow> node_id \<Rightarrow> ('a, 'm) ring \<Rightarrow> (('a, 'm) ring, ring_error) res" where
  "remove_node this removed r =
     Ok (r\<lparr>rg_version := vv_event (rg_version r) this,
           rg_nodes := set_node_status this removed Invalid (rg_nodes r),
           rg_vnodes := map (vnode_remove this removed) (rg_vnodes r)\<rparr>)"

text \<open>Retiring owners go away once no owner is pending.\<close>

definition drop_retiring :: "ring_vnode \<Rightarrow> ring_vnode" where
  "drop_retiring vn =
     (if \<not> list_ex (\<lambda>(_, s). s = Pending) (vn_owners vn)
      then vn\<lparr>vn_owners := filter (\<lambda>(_, s). s \<noteq> Retiring) (vn_owners vn)\<rparr>
      else vn)"

definition promote_pending_node ::
  "node_id \<Rightarrow> node_id \<Rightarrow> vnode_id \<Rightarrow> ('a, 'm) ring \<Rightarrow> (('a, 'm) ring, ring_error) res" where
  "promote_pending_node this promoted vn_no r =
     (let r = r\<lparr>rg_version := vv_event (rg_version r) this\<rparr>; n = unat vn_no
      in if length (rg_vnodes r) \<le> n then Panic
         else
           (let vn = rg_vnodes r ! n
            in case map_of (vn_owners vn) promoted of
                 None \<Rightarrow> Err (NotPartOfVnode promoted vn_no)
               | Some Retiring \<Rightarrow> Err (CantBePromoted promoted)
               | Some Owner \<Rightarrow> Ok r
               | Some Pending \<Rightarrow>
                   Ok (r\<lparr>rg_vnodes := (rg_vnodes r)[n := drop_retiring
                     (vn\<lparr>vn_owners := AList.update promoted Owner (vn_owners vn),
                         vn_version := vv_event (vn_version vn) this\<rparr>)]\<rparr>)))"

definition vnode_replace :: "node_id \<Rightarrow> node_id \<Rightarrow> node_id \<Rightarrow> ring_vnode \<Rightarrow> ring_vnode" where
  "vnode_replace this old new vn =
     (case map_of (vn_owners vn) old of
        Some status \<Rightarrow> vn\<lparr>vn_owners := AList.update new status (AList.delete old (vn_owners vn)),
                          vn_version := vv_event (vn_version vn) this\<rparr>
      | None \<Rightarrow> vn)"

definition replace_node ::
  "node_id \<Rightarrow> node_id \<Rightarrow> node_id \<Rightarrow> 'a \<Rightarrow> 'm \<Rightarrow> ('a, 'm) ring \<Rightarrow> (('a, 'm) ring, ring_error) res" where
  "replace_node this old new addr meta r =
     (let node = \<lparr>nd_addr = addr, nd_status = Valid, nd_meta = meta, nd_version = vv_event vv_new this\<rparr>;
          nodes = AList.update new node (rg_nodes r)
      in if map_of (rg_nodes r) new \<noteq> None then Err (AlreadyInCluster new)
         else if map_of nodes old = None then Err (NotInCluster new)
         else
           (let r = r\<lparr>rg_version := vv_event (rg_version r) this,
                      rg_nodes := set_node_status this old Invalid nodes,
                      rg_vnodes := map (vnode_replace this old new) (rg_vnodes r)\<rparr>
            in if 1 < valid_physical_count r (fst (split_u64 new)) then Err DuplicatedPhysical
               else Ok r))"

section \<open>Merge\<close>

definition merge_node :: "(node_id \<times> ('a, 'm) node) list \<Rightarrow> node_id \<times> ('a, 'm) node \<Rightarrow>
    (node_id \<times> ('a, 'm) node) list" where
  "merge_node nodes p =
     (let (i, other) = p
      in case map_of nodes i of
           None \<Rightarrow> AList.update i other nodes
         | Some n \<Rightarrow>
             if vv_descends (nd_version n) (nd_version other) then nodes
             else if vv_descends (nd_version other) (nd_version other) then AList.update i other nodes
             else
               (let n = n\<lparr>nd_version := vv_merge (nd_version n) (nd_version other)\<rparr>
                in AList.update i
                     (case (nd_status other, nd_status other) of
                        (Valid, Valid) \<Rightarrow> n
                      | (Leaving, _) \<Rightarrow> n\<lparr>nd_status := Leaving\<rparr>
                      | (_, Leaving) \<Rightarrow> n\<lparr>nd_status := Leaving\<rparr>
                      | (Invalid, _) \<Rightarrow> n\<lparr>nd_status := Invalid\<rparr>
                      | (_, Invalid) \<Rightarrow> n\<lparr>nd_status := Invalid\<rparr>) nodes))"

fun merge_status :: "vnode_node_status \<Rightarrow> vnode_node_status \<Rightarrow> vnode_node_status" where
  "merge_status Owner _ = Owner"
| "merge_status _ Owner = Owner"
| "merge_status Pending _ = Pending"
| "merge_status _ Pending = Pending"
| "merge_status Retiring Retiring = Retiring"

definition merge_owner ::
  "(node_id \<times> vnode_node_status) list \<Rightarrow> node_id \<times> vnode_node_status \<Rightarrow> (node_id \<times> vnode_node_status) list" where
  "merge_owner owners p =
     (let (i, other) = p
      in case map_of owners i of
           None \<Rightarrow> AList.update i other owners
         | Some s \<Rightarrow> AList.update i (merge_status s other) owners)"

definition merge_vnode :: "ring_vnode \<Rightarrow> ring_vnode \<Rightarrow> ring_vnode" where
  "merge_vnode vn other =
     (if vv_descends (vn_version vn) (vn_version other) then vn
      else if vv_descends (vn_version other) (vn_version vn) then other
      else drop_retiring
        (vn\<lparr>vn_version := vv_merge (vn_version vn) (vn_version other),
            vn_owners := foldl merge_owner (vn_owners vn) (vn_owners other)\<rparr>))"

text \<open>The boolean tells whether the ring changed.\<close>

definition ring_merge ::
  "('a, 'm) ring \<Rightarrow> ('a, 'm) ring \<Rightarrow> (bool \<times> ('a, 'm) ring, ring_error) res" where
  "ring_merge self other =
     (if rg_cluster self \<noteq> rg_cluster other then Err ClusterNameDiffers
      else if length (rg_vnodes self) \<noteq> length (rg_vnodes other) \<and> rg_vnodes self \<noteq> []
      then Err IncompatiblePartitions
      else if rg_vnodes other = [] then Err OtherNotValid
      else if vv_descends (rg_version self) (rg_version other) then Ok (False, self)
      else if vv_descends (rg_version other) (rg_version self) then Ok (True, other)
      else
        Ok (True, self\<lparr>
          rg_version := vv_merge (rg_version self) (rg_version other),
          rg_nodes := foldl merge_node (rg_nodes self) (rg_nodes other),
          rg_vnodes :=
            (if rg_vnodes self = [] then rg_vnodes other
             else map (\<lambda>(vn, other_vn). merge_vnode vn other_vn)
                    (zip (rg_vnodes self) (rg_vnodes other)))\<rparr>))"

section \<open>Invariant of the ring\<close>

text \<open>
  Every owner of a vnode is a known node, and one that takes traffic (an owner or a pending
  one) is a valid node.
\<close>

declare map_of_eq_Some_iff [simp del]

definition node_st :: "(node_id \<times> ('a, 'm) node) list \<Rightarrow> node_id \<rightharpoonup> node_status" where
  "node_st nodes i = map_option nd_status (map_of nodes i)"

definition owners_ok :: "(node_id \<rightharpoonup> node_status) \<Rightarrow> (node_id \<rightharpoonup> vnode_node_status) \<Rightarrow> bool" where
  "owners_ok st owners \<longleftrightarrow>
     (\<forall>i s. owners i = Some s \<longrightarrow> st i \<noteq> None \<and> (s \<noteq> Retiring \<longrightarrow> st i = Some Valid))"

definition vnode_inv :: "(node_id \<times> ('a, 'm) node) list \<Rightarrow> ring_vnode \<Rightarrow> bool" where
  "vnode_inv nodes vn \<longleftrightarrow>
     lm_wf (vn_owners vn) \<and> owners_ok (node_st nodes) (map_of (vn_owners vn))"

definition ring_inv :: "('a, 'm) ring \<Rightarrow> bool" where
  "ring_inv r \<longleftrightarrow> lm_wf (rg_nodes r) \<and> list_all (vnode_inv (rg_nodes r)) (rg_vnodes r)"

lemma node_st_update: "node_st (AList.update i n nodes) = (node_st nodes)(i \<mapsto> nd_status n)"
  by (auto simp: node_st_def fun_eq_iff lm_simps)

lemma node_st_set_status:
  "node_st (set_node_status this i st nodes) =
     (if node_st nodes i = None then node_st nodes else (node_st nodes)(i \<mapsto> st))"
  by (auto simp: node_st_def set_node_status_def fun_eq_iff lm_simps split: option.splits)

lemma lm_wf_set_node_status: "lm_wf nodes \<Longrightarrow> lm_wf (set_node_status this i st nodes)"
  by (auto simp: set_node_status_def lm_wf_update split: option.splits)

lemma vnode_leave_owners:
  "map_of (vn_owners (vnode_leave this i vn)) =
     (if map_of (vn_owners vn) i = None then map_of (vn_owners vn)
      else (map_of (vn_owners vn))(i \<mapsto> Retiring))"
  by (auto simp: vnode_leave_def update_conv' fun_eq_iff split: option.splits)

lemma vnode_remove_owners:
  "map_of (vn_owners (vnode_remove this i vn)) = (map_of (vn_owners vn))(i := None)"
  by (auto simp: vnode_remove_def delete_conv' fun_eq_iff split: option.splits)

lemma vnode_replace_owners:
  "map_of (vn_owners (vnode_replace this old new vn)) =
     (if map_of (vn_owners vn) old = None then map_of (vn_owners vn)
      else (map_of (vn_owners vn))(old := None, new := map_of (vn_owners vn) old))"
  by (auto simp: vnode_replace_def update_conv' delete_conv' fun_eq_iff split: option.splits)

lemma lm_wf_vnode_ops:
  assumes "lm_wf (vn_owners vn)"
  shows "lm_wf (vn_owners (vnode_leave this i vn))"
    and "lm_wf (vn_owners (vnode_remove this i vn))"
    and "lm_wf (vn_owners (vnode_replace this i j vn))"
    and "lm_wf (vn_owners (drop_retiring vn))"
  using assms
  by (auto simp: vnode_leave_def vnode_remove_def vnode_replace_def drop_retiring_def lm_wf_update
      lm_wf_delete lm_wf_filter split: option.splits)

lemma drop_retiring_owners:
  assumes "lm_wf (vn_owners vn)"
  shows "map_of (vn_owners (drop_retiring vn)) i =
    (if Pending \<notin> ran (map_of (vn_owners vn)) \<and> map_of (vn_owners vn) i = Some Retiring
     then None else map_of (vn_owners vn) i)"
proof -
  have "list_ex (\<lambda>(_, s). s = Pending) (vn_owners vn) \<longleftrightarrow> Pending \<in> ran (map_of (vn_owners vn))"
    using assms by (auto simp: list_ex_iff ran_def map_of_eq_Some_iff)
  then show ?thesis
    using map_of_filter_lm [OF assms, of "\<lambda>_ s. s \<noteq> Retiring" i]
    by (auto simp: drop_retiring_def split: option.splits)
qed

lemma ring_invI:
  assumes "ring_inv r" "lm_wf (rg_nodes r')"
    and "rg_vnodes r' = map f (rg_vnodes r)"
    and "\<And>vn. vnode_inv (rg_nodes r) vn \<Longrightarrow> vnode_inv (rg_nodes r') (f vn)"
  shows "ring_inv r'"
  using assms by (auto simp: ring_inv_def list_all_iff)

lemma leave_node_inv:
  assumes "ring_inv r" "leave_node this i r = Ok r'"
  shows "ring_inv r'"
proof (rule ring_invI [OF assms(1)])
  show "rg_vnodes r' = map (vnode_leave this i) (rg_vnodes r)" "lm_wf (rg_nodes r')"
    using assms by (auto simp: leave_node_def ring_inv_def lm_wf_set_node_status)
  show "vnode_inv (rg_nodes r') (vnode_leave this i vn)" if "vnode_inv (rg_nodes r) vn" for vn
    using that assms(2)
    by (auto simp: leave_node_def vnode_inv_def lm_wf_vnode_ops owners_ok_def vnode_leave_owners
        node_st_set_status)
qed

lemma remove_node_inv:
  assumes "ring_inv r" "remove_node this i r = Ok r'"
  shows "ring_inv r'"
proof (rule ring_invI [OF assms(1)])
  show "rg_vnodes r' = map (vnode_remove this i) (rg_vnodes r)" "lm_wf (rg_nodes r')"
    using assms by (auto simp: remove_node_def ring_inv_def lm_wf_set_node_status)
  show "vnode_inv (rg_nodes r') (vnode_remove this i vn)" if "vnode_inv (rg_nodes r) vn" for vn
    using that assms(2)
    by (auto simp: remove_node_def vnode_inv_def lm_wf_vnode_ops owners_ok_def vnode_remove_owners
        node_st_set_status)
qed

lemma join_node_st:
  assumes "join_node this i addr meta r = Ok r'"
  shows "rg_vnodes r' = rg_vnodes r"
    and "lm_wf (rg_nodes r) \<Longrightarrow> lm_wf (rg_nodes r')"
    and "node_st (rg_nodes r') =
      (if node_st (rg_nodes r) i = None then (node_st (rg_nodes r))(i \<mapsto> Valid) else node_st (rg_nodes r))"
  using assms
  by (auto simp: join_node_def Let_def lm_wf_update node_st_def fun_eq_iff lm_simps
      split: option.splits if_splits)

lemma join_node_inv:
  assumes "ring_inv r" "join_node this i addr meta r = Ok r'"
  shows "ring_inv r'"
proof (rule ring_invI [OF assms(1)])
  show "rg_vnodes r' = map id (rg_vnodes r)" "lm_wf (rg_nodes r')"
    using assms join_node_st [OF assms(2)] by (auto simp: ring_inv_def)
  show "vnode_inv (rg_nodes r') (id vn)" if "vnode_inv (rg_nodes r) vn" for vn
    using that by (auto simp: vnode_inv_def owners_ok_def join_node_st(3) [OF assms(2)])
qed

lemma promote_pending_node_inv:
  assumes "ring_inv r" "promote_pending_node this i vn_no r = Ok r'"
  shows "ring_inv r'"
proof -
  have "vnode_inv nodes (drop_retiring (vn\<lparr>vn_owners := AList.update i Owner (vn_owners vn), vn_version := v\<rparr>))"
    if "vnode_inv nodes vn" "map_of (vn_owners vn) i = Some Pending"
    for nodes :: "(node_id \<times> ('a, 'b) node) list" and vn v
    using that by (auto simp: vnode_inv_def lm_wf_vnode_ops lm_wf_update owners_ok_def
        drop_retiring_owners lm_simps split: if_splits)
  then show ?thesis
    using assms
    by (auto simp: promote_pending_node_def Let_def ring_inv_def list_all_length nth_list_update
        split: if_splits option.splits vnode_node_status.splits)
qed

lemma replace_node_inv:
  assumes "ring_inv r" "replace_node this old new addr meta r = Ok r'"
  shows "ring_inv r'"
proof (rule ring_invI [OF assms(1)])
  let ?node = "\<lparr>nd_addr = addr, nd_status = Valid, nd_meta = meta, nd_version = vv_event vv_new this\<rparr>"
  let ?nodes = "AList.update new ?node (rg_nodes r)"
  have new: "node_st (rg_nodes r) new = None"
    and nodes: "rg_nodes r' = set_node_status this old Invalid ?nodes"
    using assms(2) by (auto simp: replace_node_def Let_def node_st_def split: if_splits)
  show "rg_vnodes r' = map (vnode_replace this old new) (rg_vnodes r)" "lm_wf (rg_nodes r')"
    using assms by (auto simp: replace_node_def Let_def ring_inv_def lm_wf_set_node_status lm_wf_update
        split: if_splits)
  show "vnode_inv (rg_nodes r') (vnode_replace this old new vn)" if "vnode_inv (rg_nodes r) vn" for vn
  proof -
    have "map_of (vn_owners vn) new = None"
      using that new unfolding vnode_inv_def owners_ok_def by (metis not_None_eq)
    with that show ?thesis
      unfolding nodes
      by (auto simp: vnode_inv_def lm_wf_vnode_ops owners_ok_def vnode_replace_owners
          node_st_set_status node_st_update)
  qed
qed

section \<open>Merging rings\<close>

definition vnode_wf :: "ring_vnode \<Rightarrow> bool" where
  "vnode_wf vn \<longleftrightarrow> lm_wf (vn_owners vn) \<and> lm_wf (vn_version vn)"

definition owner_join :: "vnode_node_status option \<Rightarrow> vnode_node_status option \<Rightarrow> vnode_node_status option" where
  "owner_join a b =
     (case (a, b) of
        (Some s, Some t) \<Rightarrow> Some (merge_status s t)
      | (Some s, None) \<Rightarrow> Some s
      | (None, t) \<Rightarrow> t)"

lemma merge_status_commute: "merge_status a b = merge_status b a"
  by (cases a; cases b) simp_all

lemma owner_join_commute: "owner_join a b = owner_join b a"
  by (cases a; cases b) (simp_all add: owner_join_def merge_status_commute)

lemma merge_owners:
  assumes "lm_wf b"
  shows "map_of (foldl merge_owner a b) i = owner_join (map_of a i) (map_of b i)"
    and "lm_wf a \<Longrightarrow> lm_wf (foldl merge_owner a b)"
proof -
  show "map_of (foldl merge_owner a b) i = owner_join (map_of a i) (map_of b i)"
    using assms
  proof (induction b arbitrary: a)
    case (Cons p b)
    obtain j t where p: "p = (j, t)"
      by (metis surj_pair)
    have "map_of b j = None"
      using Cons.prems p by (auto simp: map_of_eq_None_iff)
    then show ?case
      using Cons p by (auto simp: merge_owner_def owner_join_def lm_simps split: option.splits)
  qed (simp add: owner_join_def split: option.splits)
  show "lm_wf a \<Longrightarrow> lm_wf (foldl merge_owner a b)"
    by (induction b arbitrary: a) (auto simp: merge_owner_def lm_wf_update split: option.splits)
qed

text \<open>Two concurrent versions of a vnode merge to the same owners on both sides.\<close>

lemma merge_vnode_concurrent:
  assumes "vnode_wf a" "vnode_wf b"
    and "\<not> vv_descends (vn_version a) (vn_version b)" "\<not> vv_descends (vn_version b) (vn_version a)"
  shows "map_of (vn_owners (merge_vnode a b)) = map_of (vn_owners (merge_vnode b a))"
proof -
  have wf: "lm_wf (foldl merge_owner (vn_owners a) (vn_owners b))"
    "lm_wf (foldl merge_owner (vn_owners b) (vn_owners a))"
    using assms(1,2) by (simp_all add: vnode_wf_def merge_owners)
  have eq: "map_of (foldl merge_owner (vn_owners a) (vn_owners b)) =
      map_of (foldl merge_owner (vn_owners b) (vn_owners a))"
    using assms(1,2) by (auto simp: vnode_wf_def merge_owners owner_join_commute)
  show ?thesis
    using assms(3,4) wf eq by (intro ext) (simp add: merge_vnode_def drop_retiring_owners)
qed

lemma merge_vnode_version:
  assumes "vnode_wf a" "vnode_wf b"
  shows "vv_dots (vn_version (merge_vnode a b)) = vv_dots (vn_version a) \<union> vv_dots (vn_version b)"
  using assms
  by (auto simp: merge_vnode_def drop_retiring_def vnode_wf_def vv_dots_merge vv_descends_dots)

text \<open>The version of a merged ring is the least upper bound of the versions.\<close>

lemma ring_merge_version:
  assumes "lm_wf (rg_version a)" "lm_wf (rg_version b)" "ring_merge a b = Ok (changed, c)"
  shows "vv_dots (rg_version c) = vv_dots (rg_version a) \<union> vv_dots (rg_version b)"
    and "changed \<longleftrightarrow> \<not> vv_dots (rg_version b) \<subseteq> vv_dots (rg_version a)"
    and "\<not> changed \<Longrightarrow> c = a"
    and "lm_wf (rg_version c)"
  using assms
  by (auto simp: ring_merge_def vv_descends_dots vv_dots_merge lm_wf_vv_merge split: if_splits)

text \<open>
  In a merge of diverging rings a node both rings know is taken from the other ring, unless
  this ring's version of the node descends from it.
\<close>

lemma merge_nodes_lookup:
  assumes "lm_wf b" "\<And>i n. map_of b i = Some n \<Longrightarrow> lm_wf (nd_version n)"
  shows "map_of (foldl merge_node a b) i =
    (case (map_of a i, map_of b i) of
       (Some n, Some m) \<Rightarrow> Some (if vv_descends (nd_version n) (nd_version m) then n else m)
     | (Some n, None) \<Rightarrow> Some n
     | (None, m) \<Rightarrow> m)"
  using assms
proof (induction b arbitrary: a)
  case (Cons p b)
  obtain j m where p: "p = (j, m)"
    by (metis surj_pair)
  have no: "map_of b j = None"
    using Cons.prems(1) p by (auto simp: map_of_eq_None_iff)
  have wf: "\<And>i n. map_of b i = Some n \<Longrightarrow> lm_wf (nd_version n)"
    using Cons.prems(2) no p by (metis (no_types) map_of_Cons_code(2) option.distinct(1))
  have "vv_descends (nd_version m) (nd_version m)"
    using Cons.prems(2) [of j m] p by (simp add: vv.descends_refl)
  then show ?case
    using Cons.IH [of "merge_node a p"] Cons.prems(1) wf no p
    by (auto simp: merge_node_def lm_simps split: option.splits)
qed (auto split: option.splits)

lemma ring_new_inv: "ring_inv (ring_new c p rf)"
  by (simp add: ring_inv_def ring_new_def ring_vnode_default_def list_all_iff vnode_inv_def owners_ok_def)

section \<open>Properties\<close>

text \<open>
  C27: Two nodes whose rings diverged on a vnode agree on its owners after each merged the other's
  ring, and the merged version of the vnode is the least upper bound of both.
\<close>

theorem merge_vnode_agrees:
  assumes "vnode_wf a" "vnode_wf b"
    and "\<not> vv_descends (vn_version a) (vn_version b)" "\<not> vv_descends (vn_version b) (vn_version a)"
  shows "map_of (vn_owners (merge_vnode a b)) = map_of (vn_owners (merge_vnode b a)) \<and>
    vv_dots (vn_version (merge_vnode a b)) = vv_dots (vn_version a) \<union> vv_dots (vn_version b)"
  using merge_vnode_concurrent [OF assms] merge_vnode_version [OF assms(1,2)] by blast

theorem merge_vnode_agrees_witness:
  "let a = \<lparr>vn_owners = [(1, Owner), (2, Retiring)], vn_version = [(1, 2)]\<rparr>;
       b = \<lparr>vn_owners = [(1, Owner), (2, Owner), (3, Pending)], vn_version = [(2, 1)]\<rparr> in
   map_of (vn_owners (merge_vnode a b)) = map_of (vn_owners (merge_vnode b a)) \<and>
   vv_dots (vn_version (merge_vnode a b)) = vv_dots (vn_version a) \<union> vv_dots (vn_version b)"
  unfolding Let_def
  by (rule merge_vnode_agrees) (simp_all add: vnode_wf_def vv_descends_def)



text \<open>
  C39: When two diverged rings hold concurrent versions of a node, exchanging them swaps the entries:
  each side takes the other's entry as it is, and both then have the same ring version, so no
  later exchange repairs it.
\<close>

theorem ring_exchange_swaps:
  assumes "ring_merge a b = Ok (True, a')" "ring_merge b a = Ok (True, b')"
    and "lm_wf (rg_version a)" "lm_wf (rg_version b)" "lm_wf (rg_nodes a)" "lm_wf (rg_nodes b)"
    and "\<And>i n. map_of (rg_nodes a) i = Some n \<Longrightarrow> lm_wf (nd_version n)"
    and "\<And>i n. map_of (rg_nodes b) i = Some n \<Longrightarrow> lm_wf (nd_version n)"
    and "map_of (rg_nodes a) i = Some n" "map_of (rg_nodes b) i = Some m"
    and "\<not> vv_descends (nd_version n) (nd_version m)" "\<not> vv_descends (nd_version m) (nd_version n)"
  shows "map_of (rg_nodes a') i = Some m \<and> map_of (rg_nodes b') i = Some n \<and>
    vv_dots (rg_version a') = vv_dots (rg_version b')"
proof -
  have div: "\<not> vv_descends (rg_version a) (rg_version b)" "\<not> vv_descends (rg_version b) (rg_version a)"
    using assms(1,2) by (auto simp: ring_merge_def split: if_splits)
  then have nodes: "rg_nodes a' = foldl merge_node (rg_nodes a) (rg_nodes b)"
    "rg_nodes b' = foldl merge_node (rg_nodes b) (rg_nodes a)"
    using assms(1,2) by (auto simp: ring_merge_def split: if_splits)
  have "map_of (rg_nodes a') i = Some m" "map_of (rg_nodes b') i = Some n"
    unfolding nodes using assms(9-12) merge_nodes_lookup [OF assms(6,8), where a = "rg_nodes a"]
      merge_nodes_lookup [OF assms(5,7), where a = "rg_nodes b"] by simp_all
  moreover have "vv_dots (rg_version a') = vv_dots (rg_version b')"
    using ring_merge_version(1) [OF assms(3,4,1)] ring_merge_version(1) [OF assms(4,3,2)] by auto
  ultimately show ?thesis
    by blast
qed

theorem ring_exchange_swaps_witness:
  "let n = \<lparr>nd_addr = ''a'', nd_status = Valid, nd_meta = ''m'', nd_version = [(1, 1)]\<rparr>;
       m = \<lparr>nd_addr = ''b'', nd_status = Leaving, nd_meta = ''m'', nd_version = [(2, 1)]\<rparr>;
       vn = \<lparr>vn_owners = [], vn_version = []\<rparr>;
       a = \<lparr>rg_vnodes = [vn], rg_nodes = [(7, n)], rg_replication_factor = 1, rg_version = [(1, 1)],
            rg_cluster = ''c''\<rparr>;
       b = \<lparr>rg_vnodes = [vn], rg_nodes = [(7, m)], rg_replication_factor = 1, rg_version = [(2, 1)],
            rg_cluster = ''c''\<rparr>;
       a' = a\<lparr>rg_version := [(1, 1), (2, 1)], rg_nodes := [(7, m)]\<rparr>;
       b' = b\<lparr>rg_version := [(2, 1), (1, 1)], rg_nodes := [(7, n)]\<rparr> in
   map_of (rg_nodes a') 7 = Some m \<and> map_of (rg_nodes b') 7 = Some n \<and>
   vv_dots (rg_version a') = vv_dots (rg_version b')"
  unfolding Let_def
  by (rule ring_exchange_swaps [where
        a = "\<lparr>rg_vnodes = [\<lparr>vn_owners = [], vn_version = []\<rparr>],
          rg_nodes = [(7, \<lparr>nd_addr = ''a'', nd_status = Valid, nd_meta = ''m'', nd_version = [(1, 1)]\<rparr>)],
          rg_replication_factor = 1, rg_version = [(1, 1)], rg_cluster = ''c''\<rparr>" and
        b = "\<lparr>rg_vnodes = [\<lparr>vn_owners = [], vn_version = []\<rparr>],
          rg_nodes = [(7, \<lparr>nd_addr = ''b'', nd_status = Leaving, nd_meta = ''m'', nd_version = [(2, 1)]\<rparr>)],
          rg_replication_factor = 1, rg_version = [(2, 1)], rg_cluster = ''c''\<rparr>"])
     (auto simp: ring_merge_def vv_descends_def merge_node_def merge_vnode_def vv_merge_def
       vv_add_def drop_retiring_def split: if_splits)

end
