(* ===== verification/Ring_Rebalance.thy ===== *)
theory Ring_Rebalance
  imports Ring "HOL-Library.Product_Lexorder"
begin

text \<open>
  \<^verbatim>\<open>Ring::rebalance\<close> and \<^verbatim>\<open>Ring::is_valid\<close>. The map from a valid node to the vnodes it serves
  (\<^verbatim>\<open>node_map\<close>) is an association list to lists of vnode numbers. Its iteration order, unspecified
  in the source, is the order of the list; the properties hold for every order. A failed
  assertion, an \<^verbatim>\<open>unwrap\<close> of a missing entry and \<^verbatim>\<open>unreachable!\<close> are the result \<open>None\<close> of a step. The
  quotient \<^verbatim>\<open>ceil\<close> of two \<^verbatim>\<open>f64\<close> is the integer one, exact on the numbers below \<open>2 ^ 53\<close> that occur.
\<close>

type_synonym node_map = "(node_id \<times> nat list) list"

definition count_status :: "(vnode_node_status \<Rightarrow> bool) \<Rightarrow> ring_vnode \<Rightarrow> nat" where
  "count_status p vn = length (filter (\<lambda>(_, s). p s) (vn_owners vn))"

definition ceil_div :: "nat \<Rightarrow> nat \<Rightarrow> nat" where
  "ceil_div a b = (a + b - 1) div b"

section \<open>At most as many nodes as replicas\<close>

definition rebalance_small_step ::
  "node_id \<Rightarrow> vnode_node_status \<Rightarrow> ring_vnode \<Rightarrow> node_id \<times> ('a, 'm) node \<Rightarrow> ring_vnode" where
  "rebalance_small_step this status vn p =
     (let (i, n) = p;
          take = vn\<lparr>vn_owners := AList.update i status (vn_owners vn),
                    vn_version := vv_event (vn_version vn) this\<rparr>
      in if nd_status n \<noteq> Valid then vn
         else case map_of (vn_owners vn) i of
                None \<Rightarrow> take
              | Some s \<Rightarrow> if s \<noteq> Retiring then vn else take)"

definition rebalance_small :: "node_id \<Rightarrow> ('a, 'm) ring \<Rightarrow> ('a, 'm) ring" where
  "rebalance_small this r =
     (let status = (if length (rg_nodes r) = 1 then Owner else Pending)
      in r\<lparr>rg_vnodes := map (\<lambda>vn. foldl (rebalance_small_step this status) vn (rg_nodes r)) (rg_vnodes r)\<rparr>)"

section \<open>More nodes than replicas\<close>

definition nm_init :: "(node_id \<times> ('a, 'm) node) list \<Rightarrow> node_map" where
  "nm_init nodes = map (\<lambda>(i, _). (i, [])) (filter (\<lambda>(_, n). nd_status n = Valid) nodes)"

text \<open>\<^verbatim>\<open>node_map.get_mut(node).unwrap().insert(vn_no)\<close>: the flag is the one \<^verbatim>\<open>insert\<close> returns.\<close>

definition nm_insert :: "node_map \<Rightarrow> node_id \<Rightarrow> nat \<Rightarrow> (bool \<times> node_map) option" where
  "nm_insert nm i k =
     (case map_of nm i of
        None \<Rightarrow> None
      | Some ks \<Rightarrow>
          if k \<in> set ks then Some (False, nm) else Some (True, AList.update i (k # ks) nm))"

definition nm_remove :: "node_map \<Rightarrow> node_id \<Rightarrow> nat \<Rightarrow> (bool \<times> node_map) option" where
  "nm_remove nm i k =
     (case map_of nm i of
        None \<Rightarrow> None
      | Some ks \<Rightarrow> Some (k \<in> set ks, AList.update i (removeAll k ks) nm))"

fun nm_register :: "nat \<Rightarrow> (node_id \<times> vnode_node_status) list \<Rightarrow> node_map \<Rightarrow> node_map option" where
  "nm_register k [] nm = Some nm"
| "nm_register k ((i, s) # owners) nm =
     (if s \<noteq> Retiring
      then (case nm_insert nm i k of None \<Rightarrow> None | Some (_, nm') \<Rightarrow> nm_register k owners nm')
      else nm_register k owners nm)"

fun nm_register_all :: "nat \<Rightarrow> ring_vnode list \<Rightarrow> node_map \<Rightarrow> node_map option" where
  "nm_register_all k [] nm = Some nm"
| "nm_register_all k (vn # vns) nm =
     (case nm_register k (vn_owners vn) nm of
        None \<Rightarrow> None
      | Some nm' \<Rightarrow> nm_register_all (k + 1) vns nm')"

text \<open>\<^verbatim>\<open>min_by_key\<close> and \<^verbatim>\<open>min\<close>: an element with the least key, the first one.\<close>

fun min_by :: "('x \<Rightarrow> 'k::linorder) \<Rightarrow> 'x list \<Rightarrow> 'x option" where
  "min_by f [] = None"
| "min_by f (x # xs) =
     (case min_by f xs of
        None \<Rightarrow> Some x
      | Some y \<Rightarrow> if f x \<le> f y then Some x else Some y)"

text \<open>The body of the loop that completes the replicas of vnode \<open>k\<close>.\<close>

definition add_replica :: "nat \<Rightarrow> node_map \<times> ring_vnode \<Rightarrow> (node_map \<times> ring_vnode) option" where
  "add_replica k p =
     (let (nm, vn) = p
      in case min_by (\<lambda>(_, ks). length ks) (filter (\<lambda>(n, _). map_of (vn_owners vn) n = None) nm) of
           Some (n, _) \<Rightarrow>
             (case nm_insert nm n k of
                Some (True, nm') \<Rightarrow>
                  Some (nm', vn\<lparr>vn_owners := AList.update n Pending (vn_owners vn)\<rparr>)
              | _ \<Rightarrow> None)
         | None \<Rightarrow>
             (case min_by (\<lambda>(l, n). (l, n))
                     (List.map_filter (\<lambda>(n, s).
                        if s = Retiring then map_option (\<lambda>ks. (length ks, n)) (map_of nm n) else None)
                        (vn_owners vn)) of
                Some (_, n) \<Rightarrow>
                  (case nm_insert nm n k of
                     Some (True, nm') \<Rightarrow>
                       if map_of (vn_owners vn) n \<noteq> None
                       then Some (nm', vn\<lparr>vn_owners := AList.update n Owner (vn_owners vn)\<rparr>)
                       else None
                   | _ \<Rightarrow> None)
              | None \<Rightarrow> None))"

fun add_replicas :: "nat \<Rightarrow> nat \<Rightarrow> node_map \<times> ring_vnode \<Rightarrow> (node_map \<times> ring_vnode) option" where
  "add_replicas 0 k p = Some p"
| "add_replicas (Suc n) k p =
     (case add_replica k p of None \<Rightarrow> None | Some p' \<Rightarrow> add_replicas n k p')"

text \<open>\<^verbatim>\<open>for (vn_no, vn) in self.vnodes.iter_mut().enumerate()\<close>, with a body that may panic.\<close>

fun vn_loop :: "(nat \<Rightarrow> node_map \<Rightarrow> ring_vnode \<Rightarrow> (node_map \<times> ring_vnode) option) \<Rightarrow>
    nat \<Rightarrow> ring_vnode list \<Rightarrow> node_map \<Rightarrow> (node_map \<times> ring_vnode list) option" where
  "vn_loop f k [] nm = Some (nm, [])"
| "vn_loop f k (vn # vns) nm =
     (case f k nm vn of
        None \<Rightarrow> None
      | Some (nm', vn') \<Rightarrow>
          (case vn_loop f (k + 1) vns nm' of
             None \<Rightarrow> None
           | Some (nm'', vns') \<Rightarrow> Some (nm'', vn' # vns')))"

definition complete_replicas :: "nat \<Rightarrow> nat \<Rightarrow> node_map \<Rightarrow> ring_vnode \<Rightarrow> (node_map \<times> ring_vnode) option" where
  "complete_replicas rf k nm vn =
     add_replicas (rf - count_status (\<lambda>s. s \<noteq> Retiring) vn) k (nm, vn)"

text \<open>The body of the robin-hood loop: one pair of a busy node and a candidate.\<close>

definition move_replica ::
  "nat \<Rightarrow> node_id \<times> node_id \<Rightarrow> node_map \<times> ring_vnode \<Rightarrow> (node_map \<times> ring_vnode) option" where
  "move_replica k ft p =
     (let (from, to) = ft; (nm, vn) = p; owners = vn_owners vn
      in if map_of owners to \<noteq> None then None
         else
           (let owners = AList.update to Pending owners
            in if map_of owners from = None then None
               else
                 (let owners = AList.update from Retiring owners
                  in case nm_remove nm from k of
                       Some (True, nm) \<Rightarrow>
                         (case nm_insert nm to k of
                            Some (True, nm) \<Rightarrow> Some (nm, vn\<lparr>vn_owners := owners\<rparr>)
                          | _ \<Rightarrow> None)
                     | _ \<Rightarrow> None)))"

fun move_replicas ::
  "nat \<Rightarrow> (node_id \<times> node_id) list \<Rightarrow> node_map \<times> ring_vnode \<Rightarrow> (node_map \<times> ring_vnode) option" where
  "move_replicas k [] p = Some p"
| "move_replicas k (ft # fts) p =
     (case move_replica k ft p of None \<Rightarrow> None | Some p' \<Rightarrow> move_replicas k fts p')"

definition doing_much :: "nat \<Rightarrow> node_map \<Rightarrow> ring_vnode \<Rightarrow> node_id list option" where
  "doing_much vnpn nm vn =
     (if list_all (\<lambda>(n, s). s \<noteq> Retiring \<longrightarrow> map_of nm n \<noteq> None) (vn_owners vn)
      then Some (map fst (filter (\<lambda>(n, s). s \<noteq> Retiring \<and>
             (case map_of nm n of Some ks \<Rightarrow> vnpn < length ks | None \<Rightarrow> False)) (vn_owners vn)))
      else None)"

definition idle_candidates :: "nat \<Rightarrow> node_map \<Rightarrow> ring_vnode \<Rightarrow> node_id list" where
  "idle_candidates vnpn nm vn =
     map fst (filter (\<lambda>(n, ks). length ks < vnpn \<and> map_of (vn_owners vn) n = None) nm)"

definition robin_hood :: "nat \<Rightarrow> nat \<Rightarrow> node_map \<Rightarrow> ring_vnode \<Rightarrow> (node_map \<times> ring_vnode) option" where
  "robin_hood vnpn k nm vn =
     (case doing_much vnpn nm vn of
        None \<Rightarrow> None
      | Some busy \<Rightarrow> move_replicas k (zip busy (idle_candidates vnpn nm vn)) (nm, vn))"

section \<open>Validity\<close>

text \<open>The replicas of each node, \<^verbatim>\<open>node_map\<close> of \<^verbatim>\<open>is_valid\<close>.\<close>

definition replica_counts :: "ring_vnode list \<Rightarrow> (node_id \<times> nat) list" where
  "replica_counts vns =
     foldl (\<lambda>m n. AList.update n (case map_of m n of Some c \<Rightarrow> c + 1 | None \<Rightarrow> 1) m) []
       (concat (map (\<lambda>vn. map fst (filter (\<lambda>(_, s). s = Owner) (vn_owners vn)) @
                          map fst (filter (\<lambda>(_, s). s = Pending) (vn_owners vn))) vns))"

definition is_valid :: "('a, 'm) ring \<Rightarrow> (unit, ring_error) res" where
  "is_valid r =
     (let count = valid_nodes_count r;
          desired = min count (rg_replication_factor r);
          total = length (rg_vnodes r) * rg_replication_factor r
      in if count = 0 then Panic
         else
           (let vnpn = ceil_div total count; vnpn_rest = total mod count
            in case position (\<lambda>vn. count_status (\<lambda>s. s = Owner) vn + count_status (\<lambda>s. s = Pending) vn
                                    \<noteq> desired) (rg_vnodes r) of
                 Some k \<Rightarrow> Err (TooFewReplicas k)
               | None \<Rightarrow>
                   (case filter (\<lambda>(_, c). vnpn + vnpn_rest < c) (replica_counts (rg_vnodes r)) of
                      [] \<Rightarrow> Ok ()
                    | (n, _) # _ \<Rightarrow> Err (TooManyVnodes n))))"

definition rebalance_large :: "node_id \<Rightarrow> ('a, 'm) ring \<Rightarrow> ('a, 'm) ring option" where
  "rebalance_large this r =
     (let vns = map (\<lambda>vn. vn\<lparr>vn_version := vv_event (vn_version vn) this\<rparr>) (rg_vnodes r);
          rf = rg_replication_factor r
      in case nm_register_all 0 vns (nm_init (rg_nodes r)) of
           None \<Rightarrow> None
         | Some nm \<Rightarrow>
             (let vnpn = ceil_div (length vns * rf) (length nm)
              in case vn_loop (complete_replicas rf) 0 vns nm of
                   None \<Rightarrow> None
                 | Some (nm, vns) \<Rightarrow>
                     (case vn_loop (robin_hood vnpn) 0 vns nm of
                        None \<Rightarrow> None
                      | Some (_, vns) \<Rightarrow> Some (r\<lparr>rg_vnodes := vns\<rparr>))))"

definition rebalance :: "node_id \<Rightarrow> ('a, 'm) ring \<Rightarrow> (('a, 'm) ring, ring_error) res" where
  "rebalance this r =
     (let r = r\<lparr>rg_version := vv_event (rg_version r) this\<rparr>
      in if valid_nodes_count r \<le> rg_replication_factor r then Ok (rebalance_small this r)
         else case rebalance_large this r of
                None \<Rightarrow> Panic
              | Some r' \<Rightarrow> res_bind (is_valid r') (\<lambda>_. Ok r'))"

section \<open>The node map mirrors the owners\<close>

declare map_of_eq_Some_iff [simp del]

definition active :: "ring_vnode \<Rightarrow> node_id set" where
  "active vn = {n. \<exists>s. map_of (vn_owners vn) n = Some s \<and> s \<noteq> Retiring}"

definition nm_mem :: "node_map \<Rightarrow> nat \<Rightarrow> node_id \<Rightarrow> bool" where
  "nm_mem nm k n \<longleftrightarrow> (\<exists>ks. map_of nm n = Some ks \<and> k \<in> set ks)"

abbreviation nm_keys :: "node_map \<Rightarrow> node_id set" where
  "nm_keys nm \<equiv> dom (map_of nm)"

definition nm_sync :: "node_map \<Rightarrow> nat \<Rightarrow> ring_vnode \<Rightarrow> bool" where
  "nm_sync nm k vn \<longleftrightarrow> lm_wf (vn_owners vn) \<and> active vn = {n. nm_mem nm k n}"

text \<open>A step on vnode \<open>k\<close> changes only the membership of \<open>k\<close>.\<close>

definition nm_step :: "nat \<Rightarrow> node_map \<Rightarrow> node_map \<Rightarrow> bool" where
  "nm_step k nm nm' \<longleftrightarrow>
     lm_wf nm' \<and> nm_keys nm' = nm_keys nm \<and> (\<forall>j n. j \<noteq> k \<longrightarrow> nm_mem nm' j n = nm_mem nm j n)"

lemma nm_step_refl: "lm_wf nm \<Longrightarrow> nm_step k nm nm"
  by (simp add: nm_step_def)

lemma nm_step_trans: "nm_step k a b \<Longrightarrow> nm_step k b c \<Longrightarrow> nm_step k a c"
  by (simp add: nm_step_def)

lemma finite_active [simp]: "finite (active vn)"
  by simp

lemma count_active:
  assumes "lm_wf (vn_owners vn)"
  shows "count_status (\<lambda>s. s \<noteq> Retiring) vn = card (active vn)"
    and "count_status (\<lambda>s. s = Owner) vn + count_status (\<lambda>s. s = Pending) vn = card (active vn)"
proof -
  let ?f = "filter (\<lambda>(_, s). s \<noteq> Retiring) (vn_owners vn)"
  have "dom (map_of ?f) = active vn"
    using map_of_filter_lm [OF assms, of "\<lambda>_ s. s \<noteq> Retiring"]
    by (auto simp: active_def dom_def split: option.splits if_splits)
  then show *: "count_status (\<lambda>s. s \<noteq> Retiring) vn = card (active vn)"
    using lm_wf_card_dom [OF lm_wf_filter [OF assms], of "\<lambda>(_, s). s \<noteq> Retiring"]
    by (simp only: count_status_def)
  have "count_status (\<lambda>s. s = Owner) vn + count_status (\<lambda>s. s = Pending) vn =
      count_status (\<lambda>s. s \<noteq> Retiring) vn"
  proof -
    have "length (filter (\<lambda>(_, s). s = Owner) xs) + length (filter (\<lambda>(_, s). s = Pending) xs) =
        length (filter (\<lambda>(_, s). s \<noteq> Retiring) xs)" for xs :: "(node_id \<times> vnode_node_status) list"
    proof (induction xs)
      case (Cons x xs)
      then show ?case
        by (cases x; cases "snd x") auto
    qed simp
    then show ?thesis
      by (simp add: count_status_def)
  qed
  with * show "count_status (\<lambda>s. s = Owner) vn + count_status (\<lambda>s. s = Pending) vn = card (active vn)"
    by simp
qed

lemma nm_insert_ok:
  assumes "lm_wf nm" "n \<in> nm_keys nm" "\<not> nm_mem nm k n"
  obtains nm' where "nm_insert nm n k = Some (True, nm')" "nm_step k nm nm'"
    "{m. nm_mem nm' k m} = insert n {m. nm_mem nm k m}"
proof -
  obtain ks where ks: "map_of nm n = Some ks" "k \<notin> set ks"
    using assms(2,3) by (auto simp: nm_mem_def)
  let ?nm = "AList.update n (k # ks) nm"
  have "nm_insert nm n k = Some (True, ?nm)"
    using ks by (simp add: nm_insert_def)
  moreover have "nm_step k nm ?nm"
    using assms(1) ks by (auto simp: nm_step_def lm_wf_update nm_mem_def lm_simps update_conv')
  moreover have "{m. nm_mem ?nm k m} = insert n {m. nm_mem nm k m}"
    by (auto simp: nm_mem_def lm_simps)
  ultimately show ?thesis
    using that by blast
qed

lemma nm_remove_ok:
  assumes "lm_wf nm" "nm_mem nm k n"
  obtains nm' where "nm_remove nm n k = Some (True, nm')" "nm_step k nm nm'"
    "{m. nm_mem nm' k m} = {m. nm_mem nm k m} - {n}"
proof -
  obtain ks where ks: "map_of nm n = Some ks" "k \<in> set ks"
    using assms(2) by (auto simp: nm_mem_def)
  let ?nm = "AList.update n (removeAll k ks) nm"
  have "nm_remove nm n k = Some (True, ?nm)"
    using ks by (simp add: nm_remove_def)
  moreover have "nm_step k nm ?nm"
    using assms(1) ks by (auto simp: nm_step_def lm_wf_update nm_mem_def lm_simps update_conv')
  moreover have "{m. nm_mem ?nm k m} = {m. nm_mem nm k m} - {n}"
    by (auto simp: nm_mem_def lm_simps)
  ultimately show ?thesis
    using that by blast
qed

lemma min_by_None: "min_by f xs = None \<longleftrightarrow> xs = []"
  by (cases xs) (auto split: option.splits)

lemma min_by_mem: "min_by f xs = Some x \<Longrightarrow> x \<in> set xs"
  by (induction xs arbitrary: x) (auto split: option.splits if_splits)

lemma active_update:
  "active (vn\<lparr>vn_owners := AList.update n s (vn_owners vn)\<rparr>) =
     (if s = Retiring then active vn - {n} else insert n (active vn))"
  by (auto simp: active_def lm_simps)

text \<open>
  What a step on vnode \<open>k\<close> keeps: the map still mirrors the owners, its keys are the same, other
  vnodes are untouched, new owners are keys of the map and the version is kept.
\<close>

definition vn_step :: "nat \<Rightarrow> node_map \<Rightarrow> ring_vnode \<Rightarrow> node_map \<Rightarrow> ring_vnode \<Rightarrow> bool" where
  "vn_step k nm vn nm' vn' \<longleftrightarrow>
     nm_step k nm nm' \<and> nm_sync nm' k vn' \<and> vn_version vn' = vn_version vn \<and>
     dom (map_of (vn_owners vn')) \<subseteq> dom (map_of (vn_owners vn)) \<union> nm_keys nm"

lemma vn_step_refl: "lm_wf nm \<Longrightarrow> nm_sync nm k vn \<Longrightarrow> vn_step k nm vn nm vn"
  by (simp add: vn_step_def nm_step_refl)

lemma vn_step_trans:
  assumes 1: "vn_step k a u b v" and 2: "vn_step k b v c w"
  shows "vn_step k a u c w"
proof -
  have "nm_keys b = nm_keys a"
    using 1 by (simp add: vn_step_def nm_step_def)
  then have "dom (map_of (vn_owners w)) \<subseteq> dom (map_of (vn_owners u)) \<union> nm_keys a"
    using 1 2 unfolding vn_step_def by blast
  moreover have "nm_step k a c"
    using 1 2 nm_step_trans unfolding vn_step_def by blast
  ultimately show ?thesis
    using 1 2 unfolding vn_step_def by simp
qed

lemma nm_sync_keys: "nm_sync nm k vn \<Longrightarrow> active vn \<subseteq> nm_keys nm"
  by (auto simp: nm_sync_def nm_mem_def)

lemma nm_sync_take:
  assumes "lm_wf nm" "nm_sync nm k vn" "n \<in> nm_keys nm" "n \<notin> active vn" "s \<noteq> Retiring"
  obtains nm' where "nm_insert nm n k = Some (True, nm')"
    "vn_step k nm vn nm' (vn\<lparr>vn_owners := AList.update n s (vn_owners vn)\<rparr>)"
proof -
  have "\<not> nm_mem nm k n"
    using assms(2,4) by (simp add: nm_sync_def)
  from nm_insert_ok [OF assms(1,3) this] obtain nm' where
    nm': "nm_insert nm n k = Some (True, nm')" "nm_step k nm nm'"
      "{m. nm_mem nm' k m} = insert n {m. nm_mem nm k m}" .
  then have "vn_step k nm vn nm' (vn\<lparr>vn_owners := AList.update n s (vn_owners vn)\<rparr>)"
    using assms by (auto simp: vn_step_def nm_sync_def active_update lm_wf_update update_conv')
  with nm'(1) that show ?thesis
    by blast
qed

lemma mem_map_filter: "y \<in> set (List.map_filter f xs) \<longleftrightarrow> (\<exists>x\<in>set xs. f x = Some y)"
  by (induction xs) (auto simp: List.map_filter_simps split: option.splits)

lemma list_not_Nil: "x \<in> set xs \<Longrightarrow> xs \<noteq> []"
  by auto

lemma add_replica_ok:
  assumes "lm_wf nm" "nm_sync nm k vn" "card (active vn) < card (nm_keys nm)"
  obtains n nm' vn' where "add_replica k (nm, vn) = Some (nm', vn')" "vn_step k nm vn nm' vn'"
    "n \<notin> active vn" "active vn' = insert n (active vn)"
proof (cases "min_by (\<lambda>(_, ks). length ks) (filter (\<lambda>(n, _). map_of (vn_owners vn) n = None) nm)")
  case (Some p)
  obtain n ks where p: "p = (n, ks)"
    by (cases p)
  have "(n, ks) \<in> set nm" "map_of (vn_owners vn) n = None"
    using min_by_mem [OF Some] p by auto
  then have n: "n \<in> nm_keys nm" "n \<notin> active vn"
    using weak_map_of_SomeI by (force simp: active_def)+
  from nm_sync_take [OF assms(1,2) n, of Pending] obtain nm' where
    "nm_insert nm n k = Some (True, nm')"
    "vn_step k nm vn nm' (vn\<lparr>vn_owners := AList.update n Pending (vn_owners vn)\<rparr>)"
    by auto
  then show ?thesis
    using n that Some p by (auto simp: add_replica_def active_update)
next
  case None
  let ?rets = "List.map_filter (\<lambda>(n, s).
    if s = Retiring then map_option (\<lambda>ks. (length ks, n)) (map_of nm n) else None) (vn_owners vn)"
  have none: "nm_keys nm \<subseteq> dom (map_of (vn_owners vn))"
    using None by (auto simp: min_by_None filter_empty_conv dom_def dest: map_of_SomeD)
  obtain m where m: "m \<in> nm_keys nm" "m \<notin> active vn"
    using assms(3) nm_sync_keys [OF assms(2)] by (metis card_mono finite_active not_less subsetI)
  have "(m, Retiring) \<in> set (vn_owners vn)"
    using none m by (force simp: active_def dest: map_of_SomeD)
  moreover obtain ks where "map_of nm m = Some ks"
    using m(1) by blast
  ultimately have "(length ks, m) \<in> set ?rets"
    unfolding mem_map_filter by (intro bexI [of _ "(m, Retiring)"]) simp_all
  then have "?rets \<noteq> []"
    by (rule list_not_Nil)
  then obtain q where "min_by (\<lambda>(l, n). (l, n)) ?rets = Some q"
    unfolding min_by_None [of "\<lambda>(l, n). (l, n)", symmetric] by blast
  then obtain l n where n: "min_by (\<lambda>(l, n). (l, n)) ?rets = Some (l, n)"
    by (cases q) simp
  then have "(n, Retiring) \<in> set (vn_owners vn)" "n \<in> nm_keys nm"
    using min_by_mem [OF n] unfolding mem_map_filter by (auto split: if_splits)
  moreover have "map_of (vn_owners vn) n = Some Retiring"
    using assms(2) \<open>(n, Retiring) \<in> set (vn_owners vn)\<close> by (simp add: nm_sync_def)
  ultimately have n': "n \<in> nm_keys nm" "n \<notin> active vn" "map_of (vn_owners vn) n \<noteq> None"
    by (auto simp: active_def)
  from nm_sync_take [OF assms(1,2) n'(1,2), of Owner] obtain nm' where
    "nm_insert nm n k = Some (True, nm')"
    "vn_step k nm vn nm' (vn\<lparr>vn_owners := AList.update n Owner (vn_owners vn)\<rparr>)"
    by auto
  then show ?thesis
    using n n' that None by (auto simp: add_replica_def active_update)
qed

lemma add_replicas_ok:
  assumes "lm_wf nm" "nm_sync nm k vn" "c + card (active vn) \<le> card (nm_keys nm)"
  obtains nm' vn' where "add_replicas c k (nm, vn) = Some (nm', vn')" "vn_step k nm vn nm' vn'"
    "card (active vn') = c + card (active vn)"
  using assms
proof (induction c arbitrary: nm vn thesis)
  case 0
  then show ?case
    by (simp add: vn_step_refl)
next
  case (Suc c)
  then have "card (active vn) < card (nm_keys nm)"
    by simp
  from add_replica_ok [OF Suc.prems(2,3) this] obtain n nm1 vn1 where
    1: "add_replica k (nm, vn) = Some (nm1, vn1)" "vn_step k nm vn nm1 vn1"
      "n \<notin> active vn" "active vn1 = insert n (active vn)" .
  then have 2: "lm_wf nm1" "nm_sync nm1 k vn1" "nm_keys nm1 = nm_keys nm"
    "card (active vn1) = Suc (card (active vn))"
    by (simp_all add: vn_step_def nm_step_def)
  then have "c + card (active vn1) \<le> card (nm_keys nm1)"
    using Suc.prems(4) by simp
  from Suc.IH [OF _ 2(1,2) this] obtain nm' vn' where
    3: "add_replicas c k (nm1, vn1) = Some (nm', vn')" "vn_step k nm1 vn1 nm' vn'"
      "card (active vn') = c + card (active vn1)"
    by blast
  show ?case
    by (rule Suc.prems(1) [OF _ vn_step_trans [OF 1(2) 3(2)]]) (simp_all add: 1(1) 2(4) 3(1,3))
qed

lemma complete_replicas_ok:
  assumes "lm_wf nm" "nm_sync nm k vn" "rf \<le> card (nm_keys nm)"
  obtains nm' vn' where "complete_replicas rf k nm vn = Some (nm', vn')" "vn_step k nm vn nm' vn'"
    "card (active vn') = max rf (card (active vn))"
proof -
  let ?c = "rf - card (active vn)"
  have "count_status (\<lambda>s. s \<noteq> Retiring) vn = card (active vn)"
    using assms(2) by (simp add: nm_sync_def count_active)
  moreover have "card (active vn) \<le> card (nm_keys nm)"
    using nm_sync_keys [OF assms(2)] by (simp add: card_mono)
  moreover from this have "?c + card (active vn) \<le> card (nm_keys nm)"
    using assms(3) by simp
  from add_replicas_ok [OF assms(1,2) this] obtain nm' vn' where
    "add_replicas ?c k (nm, vn) = Some (nm', vn')" "vn_step k nm vn nm' vn'"
    "card (active vn') = ?c + card (active vn)" .
  ultimately show ?thesis
    using that by (simp add: complete_replicas_def)
qed

lemma move_replica_ok:
  assumes "lm_wf nm" "nm_sync nm k vn" "from \<in> active vn" "to \<in> nm_keys nm"
    "map_of (vn_owners vn) to = None"
  obtains nm' vn' where "move_replica k (from, to) (nm, vn) = Some (nm', vn')"
    "vn_step k nm vn nm' vn'" "active vn' = insert to (active vn - {from})"
    "dom (map_of (vn_owners vn')) = insert to (dom (map_of (vn_owners vn)))"
proof -
  let ?vn = "vn\<lparr>vn_owners := AList.update from Retiring (AList.update to Pending (vn_owners vn))\<rparr>"
  have ne: "from \<noteq> to" "map_of (vn_owners vn) from \<noteq> None"
    using assms(3,5) by (auto simp: active_def)
  have sync: "active vn = {n. nm_mem nm k n}" "lm_wf (vn_owners vn)"
    using assms(2) by (simp_all add: nm_sync_def)
  from assms(3) sync have "nm_mem nm k from"
    by blast
  from nm_remove_ok [OF assms(1) this] obtain nm1 where 1: "nm_remove nm from k = Some (True, nm1)"
    "nm_step k nm nm1" "{m. nm_mem nm1 k m} = active vn - {from}"
    using sync by metis
  have "to \<notin> active vn"
    using assms(5) by (simp add: active_def)
  then have "lm_wf nm1" "to \<in> nm_keys nm1" "\<not> nm_mem nm1 k to"
    using 1 assms(4) by (auto simp: nm_step_def)
  from nm_insert_ok [OF this] obtain nm2 where 2: "nm_insert nm1 to k = Some (True, nm2)"
    "nm_step k nm1 nm2" "{m. nm_mem nm2 k m} = insert to (active vn - {from})"
    using 1(3) by metis
  have act: "active ?vn = insert to (active vn - {from})"
    using ne by (auto simp: active_def lm_simps)
  have dom: "dom (map_of (vn_owners ?vn)) = insert to (dom (map_of (vn_owners vn)))"
    using ne by (auto simp: lm_simps split: if_splits)
  have "vn_step k nm vn nm2 ?vn"
    unfolding vn_step_def dom using 2 nm_step_trans [OF 1(2) 2(2)] act assms(4) sync(2)
    by (simp add: nm_sync_def lm_wf_update subset_insertI2)
  moreover have "move_replica k (from, to) (nm, vn) = Some (nm2, ?vn)"
    using assms(5) ne 1 2 by (simp add: move_replica_def Let_def lm_simps)
  ultimately show ?thesis
    using act dom that by blast
qed

lemma move_replicas_ok:
  assumes "lm_wf nm" "nm_sync nm k vn" "distinct (map fst fts)" "distinct (map snd fts)"
    "set (map fst fts) \<subseteq> active vn" "set (map snd fts) \<subseteq> nm_keys nm - dom (map_of (vn_owners vn))"
  obtains nm' vn' where "move_replicas k fts (nm, vn) = Some (nm', vn')"
    "vn_step k nm vn nm' vn'" "card (active vn') = card (active vn)"
  using assms
proof (induction fts arbitrary: nm vn thesis)
  case Nil
  then show ?case
    by (simp add: vn_step_refl)
next
  case (Cons ft fts)
  obtain f t where ft: "ft = (f, t)"
    by (cases ft)
  have pre: "f \<in> active vn" "t \<in> nm_keys nm" "map_of (vn_owners vn) t = None"
    using Cons.prems(6,7) ft by (auto simp: domIff)
  from move_replica_ok [OF Cons.prems(2,3) pre] obtain nm1 vn1 where
    1: "move_replica k ft (nm, vn) = Some (nm1, vn1)" "vn_step k nm vn nm1 vn1"
      "active vn1 = insert t (active vn - {f})"
      "dom (map_of (vn_owners vn1)) = insert t (dom (map_of (vn_owners vn)))"
    unfolding ft .
  have 2: "lm_wf nm1" "nm_sync nm1 k vn1" "nm_keys nm1 = nm_keys nm"
    using 1(2) by (simp_all add: vn_step_def nm_step_def)
  have "t \<notin> active vn"
    using pre(3) by (simp add: active_def)
  then have card: "card (active vn1) = card (active vn)"
    unfolding 1(3) using card_Suc_Diff1 [OF finite_active pre(1)] by simp
  have sub: "set (map fst fts) \<subseteq> active vn1"
    "set (map snd fts) \<subseteq> nm_keys nm1 - dom (map_of (vn_owners vn1))"
    using Cons.prems(4-7) unfolding 1(3,4) 2(3) ft by auto
  have "distinct (map fst fts)" "distinct (map snd fts)"
    using Cons.prems(4,5) by simp_all
  from Cons.IH [OF _ 2(1,2) this sub] obtain nm' vn' where
    3: "move_replicas k fts (nm1, vn1) = Some (nm', vn')" "vn_step k nm1 vn1 nm' vn'"
      "card (active vn') = card (active vn1)"
    by blast
  show ?case
    by (rule Cons.prems(1) [OF _ vn_step_trans [OF 1(2) 3(2)]]) (simp_all add: 1(1) card 3(1,3))
qed

lemma robin_hood_ok:
  assumes "lm_wf nm" "nm_sync nm k vn"
  obtains nm' vn' where "robin_hood vnpn k nm vn = Some (nm', vn')" "vn_step k nm vn nm' vn'"
    "card (active vn') = card (active vn)"
proof -
  have wf: "lm_wf (vn_owners vn)"
    using assms(2) by (simp add: nm_sync_def)
  have act: "n \<in> active vn" if "(n, s) \<in> set (vn_owners vn)" "s \<noteq> Retiring" for n s
    using that wf by (auto simp: active_def)
  let ?busy = "map fst (filter (\<lambda>(n, s). s \<noteq> Retiring \<and>
    (case map_of nm n of Some ks \<Rightarrow> vnpn < length ks | None \<Rightarrow> False)) (vn_owners vn))"
  let ?idle = "idle_candidates vnpn nm vn"
  have "list_all (\<lambda>(n, s). s \<noteq> Retiring \<longrightarrow> map_of nm n \<noteq> None) (vn_owners vn)"
    unfolding list_all_iff using act nm_sync_keys [OF assms(2)] by blast
  then have busy: "doing_much vnpn nm vn = Some ?busy"
    by (simp add: doing_much_def)
  have d: "distinct ?busy" "distinct ?idle"
    unfolding idle_candidates_def using wf assms(1) lm_wf_filter by blast+
  have "set ?busy \<subseteq> active vn"
    using act by auto
  moreover have "set ?idle \<subseteq> nm_keys nm - dom (map_of (vn_owners vn))"
    by (auto simp: idle_candidates_def dest: weak_map_of_SomeI)
  ultimately have "set (map fst (zip ?busy ?idle)) \<subseteq> active vn"
    "set (map snd (zip ?busy ?idle)) \<subseteq> nm_keys nm - dom (map_of (vn_owners vn))"
    unfolding map_fst_zip_take map_snd_zip_take by (meson order_trans set_take_subset)+
  moreover have "distinct (map fst (zip ?busy ?idle))" "distinct (map snd (zip ?busy ?idle))"
    using d by (simp_all add: map_fst_zip_take map_snd_zip_take)
  ultimately show ?thesis
    using move_replicas_ok [OF assms] that unfolding robin_hood_def busy option.case by blast
qed

text \<open>One pass over the vnodes: the contract of its body, \<open>pre\<close> and \<open>post\<close>, holds for each of them.\<close>

lemma vn_loop_ok:
  assumes body: "\<And>k nm vn. lm_wf nm \<Longrightarrow> nm_keys nm = N \<Longrightarrow> nm_sync nm k vn \<Longrightarrow>
      \<exists>nm' vn'. f k nm vn = Some (nm', vn') \<and> vn_step k nm vn nm' vn' \<and> post vn vn'"
    and "lm_wf nm" "nm_keys nm = N" "\<forall>i < length vns. nm_sync nm (k + i) (vns ! i)"
  shows "\<exists>nm' vns'. vn_loop f k vns nm = Some (nm', vns') \<and> lm_wf nm' \<and> nm_keys nm' = N \<and>
      length vns' = length vns \<and>
      (\<forall>j n. j < k \<longrightarrow> nm_mem nm' j n = nm_mem nm j n) \<and>
      (\<forall>i < length vns. nm_sync nm' (k + i) (vns' ! i) \<and> post (vns ! i) (vns' ! i) \<and>
         vn_version (vns' ! i) = vn_version (vns ! i) \<and>
         dom (map_of (vn_owners (vns' ! i))) \<subseteq> dom (map_of (vn_owners (vns ! i))) \<union> N)"
  using assms(2-)
proof (induction vns arbitrary: k nm)
  case Nil
  then show ?case
    by simp
next
  case (Cons vn vns)
  have "nm_sync nm k vn"
    using Cons.prems(3) by force
  from body [OF Cons.prems(1,2) this] obtain nm1 vn1 where
    1: "f k nm vn = Some (nm1, vn1)" "vn_step k nm vn nm1 vn1" "post vn vn1"
    by blast
  have 2: "lm_wf nm1" "nm_keys nm1 = N" "\<And>j n. j \<noteq> k \<Longrightarrow> nm_mem nm1 j n = nm_mem nm j n"
    using 1(2) Cons.prems(2) by (simp_all add: vn_step_def nm_step_def)
  have "\<forall>i < length vns. nm_sync nm1 (k + 1 + i) (vns ! i)"
    using Cons.prems(3) 2(3) by (force simp: nm_sync_def)
  from Cons.IH [OF 2(1,2) this] obtain nm' vns' where
    3: "vn_loop f (k + 1) vns nm1 = Some (nm', vns')" "lm_wf nm'" "nm_keys nm' = N"
      "length vns' = length vns" "\<And>j n. j < k + 1 \<Longrightarrow> nm_mem nm' j n = nm_mem nm1 j n"
      "\<And>i. i < length vns \<Longrightarrow> nm_sync nm' (k + 1 + i) (vns' ! i) \<and> post (vns ! i) (vns' ! i) \<and>
         vn_version (vns' ! i) = vn_version (vns ! i) \<and>
         dom (map_of (vn_owners (vns' ! i))) \<subseteq> dom (map_of (vn_owners (vns ! i))) \<union> N"
    by blast
  have head: "nm_sync nm' k vn1"
    using 1(2) 3(5) [of k] by (simp add: vn_step_def nm_sync_def)
  have "nm_sync nm' (k + i) ((vn1 # vns') ! i) \<and> post ((vn # vns) ! i) ((vn1 # vns') ! i) \<and>
      vn_version ((vn1 # vns') ! i) = vn_version ((vn # vns) ! i) \<and>
      dom (map_of (vn_owners ((vn1 # vns') ! i))) \<subseteq> dom (map_of (vn_owners ((vn # vns) ! i))) \<union> N"
    if "i < length (vn # vns)" for i
  proof (cases i)
    case 0
    then show ?thesis
      using head 1(2,3) Cons.prems(2) by (simp add: vn_step_def)
  next
    case (Suc j)
    then show ?thesis
      using 3(6) [of j] that by simp
  qed
  then show ?case
    using 1(1) 2(3) 3(1-5) by (intro exI [of _ nm'] exI [of _ "vn1 # vns'"]) simp
qed

lemma nm_insert_any:
  assumes "lm_wf nm" "n \<in> nm_keys nm"
  obtains b nm' where "nm_insert nm n k = Some (b, nm')" "nm_step k nm nm'"
    "{m. nm_mem nm' k m} = insert n {m. nm_mem nm k m}"
proof (cases "nm_mem nm k n")
  case True
  then have "nm_insert nm n k = Some (False, nm)"
    by (auto simp: nm_insert_def nm_mem_def)
  then show ?thesis
    using that True nm_step_refl [OF assms(1)] by blast
next
  case False
  then show ?thesis
    using nm_insert_ok [OF assms] that by metis
qed

lemma nm_register_ok:
  assumes "lm_wf nm" "\<forall>(n, s) \<in> set owners. s \<noteq> Retiring \<longrightarrow> n \<in> nm_keys nm"
  shows "\<exists>nm'. nm_register k owners nm = Some nm' \<and> nm_step k nm nm' \<and>
     {m. nm_mem nm' k m} = {m. nm_mem nm k m} \<union> {n. \<exists>s. (n, s) \<in> set owners \<and> s \<noteq> Retiring}"
  using assms
proof (induction owners arbitrary: nm)
  case Nil
  then show ?case
    by (simp add: nm_step_refl)
next
  case (Cons p owners)
  obtain n s where p: "p = (n, s)"
    by (cases p)
  show ?case
  proof (cases "s = Retiring")
    case True
    then show ?thesis
      using Cons.IH [OF Cons.prems(1)] Cons.prems(2) p by auto
  next
    case False
    then have "n \<in> nm_keys nm"
      using Cons.prems(2) p by auto
    from nm_insert_any [OF Cons.prems(1) this] obtain b nm1 where
      1: "nm_insert nm n k = Some (b, nm1)" "nm_step k nm nm1"
        "{m. nm_mem nm1 k m} = insert n {m. nm_mem nm k m}" .
    have "lm_wf nm1" "\<forall>(n, s) \<in> set owners. s \<noteq> Retiring \<longrightarrow> n \<in> nm_keys nm1"
      using 1(2) Cons.prems(2) by (auto simp: nm_step_def)
    from Cons.IH [OF this] obtain nm' where
      2: "nm_register k owners nm1 = Some nm'" "nm_step k nm1 nm'"
        "{m. nm_mem nm' k m} = {m. nm_mem nm1 k m} \<union> {n. \<exists>s. (n, s) \<in> set owners \<and> s \<noteq> Retiring}"
      by blast
    have "{n. \<exists>s. (n, s) \<in> set (p # owners) \<and> s \<noteq> Retiring} =
        insert n {n. \<exists>s. (n, s) \<in> set owners \<and> s \<noteq> Retiring}"
      using False p by auto
    then show ?thesis
      using False p 1 2 nm_step_trans [OF 1(2) 2(2)] by simp
  qed
qed

lemma active_owners: "lm_wf (vn_owners vn) \<Longrightarrow>
    active vn = {n. \<exists>s. (n, s) \<in> set (vn_owners vn) \<and> s \<noteq> Retiring}"
  by (simp add: active_def lm_wf_map_of_iff)

lemma nm_register_all_ok:
  assumes "lm_wf nm" "\<forall>vn \<in> set vns. lm_wf (vn_owners vn) \<and> active vn \<subseteq> nm_keys nm"
    "\<forall>j \<ge> k. \<forall>n. \<not> nm_mem nm j n"
  shows "\<exists>nm'. nm_register_all k vns nm = Some nm' \<and> lm_wf nm' \<and> nm_keys nm' = nm_keys nm \<and>
     (\<forall>j n. j < k \<longrightarrow> nm_mem nm' j n = nm_mem nm j n) \<and>
     (\<forall>i < length vns. nm_sync nm' (k + i) (vns ! i))"
  using assms
proof (induction vns arbitrary: k nm)
  case Nil
  then show ?case
    by simp
next
  case (Cons vn vns)
  have vn: "lm_wf (vn_owners vn)" "active vn \<subseteq> nm_keys nm"
    using Cons.prems(2) by simp_all
  then have "\<forall>(n, s) \<in> set (vn_owners vn). s \<noteq> Retiring \<longrightarrow> n \<in> nm_keys nm"
    unfolding active_owners [OF vn(1)] by blast
  from nm_register_ok [OF Cons.prems(1) this, of k] obtain nm1 where
    1: "nm_register k (vn_owners vn) nm = Some nm1" "nm_step k nm nm1"
      "{m. nm_mem nm1 k m} = active vn"
    using Cons.prems(3) by (auto simp: active_owners [OF vn(1)])
  have 2: "lm_wf nm1" "nm_keys nm1 = nm_keys nm" "\<And>j n. j \<noteq> k \<Longrightarrow> nm_mem nm1 j n = nm_mem nm j n"
    using 1(2) by (simp_all add: nm_step_def)
  have "\<forall>vn \<in> set vns. lm_wf (vn_owners vn) \<and> active vn \<subseteq> nm_keys nm1"
    "\<forall>j \<ge> k + 1. \<forall>n. \<not> nm_mem nm1 j n"
    using Cons.prems(2,3) 2(2,3) by simp_all
  from Cons.IH [OF 2(1) this] obtain nm' where
    3: "nm_register_all (k + 1) vns nm1 = Some nm'" "lm_wf nm'" "nm_keys nm' = nm_keys nm1"
      "\<And>j n. j < k + 1 \<Longrightarrow> nm_mem nm' j n = nm_mem nm1 j n"
      "\<And>i. i < length vns \<Longrightarrow> nm_sync nm' (k + 1 + i) (vns ! i)"
    by blast
  have "nm_sync nm' k vn"
    using 1(3) 3(4) [of k] vn(1) by (simp add: nm_sync_def)
  then have "nm_sync nm' (k + i) ((vn # vns) ! i)" if "i < length (vn # vns)" for i
    using 3(5) [of "i - 1"] that by (cases i) simp_all
  then show ?case
    using 1(1) 2(2,3) 3(1-4) by (intro exI [of _ nm']) simp
qed

section \<open>The rebalanced ring\<close>

definition valid_ids :: "('a, 'm) ring \<Rightarrow> node_id set" where
  "valid_ids r = {i. node_st (rg_nodes r) i = Some Valid}"

lemma nm_init_props:
  assumes "lm_wf (rg_nodes r)"
  shows "lm_wf (nm_init (rg_nodes r))" "nm_keys (nm_init (rg_nodes r)) = valid_ids r"
    "\<not> nm_mem (nm_init (rg_nodes r)) j n" "card (valid_ids r) = valid_nodes_count r"
proof -
  let ?v = "filter (\<lambda>(_, n). nd_status n = Valid) (rg_nodes r)"
  have fst: "map fst (nm_init (rg_nodes r)) = map fst ?v"
    by (simp add: nm_init_def comp_def case_prod_beta)
  have wf: "lm_wf ?v"
    by (rule lm_wf_filter [OF assms])
  with fst show "lm_wf (nm_init (rg_nodes r))"
    by simp
  have keys: "nm_keys (nm_init (rg_nodes r)) = dom (map_of ?v)"
    by (simp only: dom_map_of_conv_image_fst fst flip: set_map)
  also have dom: "dom (map_of ?v) = valid_ids r"
    using map_of_filter_lm [OF assms, of "\<lambda>_ n. nd_status n = Valid"]
    by (auto simp: valid_ids_def node_st_def dom_def split: option.splits if_splits)
  finally show "nm_keys (nm_init (rg_nodes r)) = valid_ids r" .
  show "\<not> nm_mem (nm_init (rg_nodes r)) j n"
    by (auto simp: nm_mem_def nm_init_def dest!: map_of_SomeD)
  show "card (valid_ids r) = valid_nodes_count r"
    using lm_wf_card_dom [OF wf] by (simp add: dom valid_nodes_count_def)
qed

lemma vnode_inv_active:
  "vnode_inv nodes vn \<longleftrightarrow> lm_wf (vn_owners vn) \<and> dom (map_of (vn_owners vn)) \<subseteq> dom (node_st nodes) \<and>
     active vn \<subseteq> {i. node_st nodes i = Some Valid}"
  by (auto simp: vnode_inv_def owners_ok_def active_def dom_def)

text \<open>The state between the passes of \<^verbatim>\<open>rebalance\<close>, and what a pass keeps of a vnode.\<close>

definition vns_ok :: "node_id set \<Rightarrow> node_map \<Rightarrow> ring_vnode list \<Rightarrow> bool" where
  "vns_ok N nm vns \<longleftrightarrow> lm_wf nm \<and> nm_keys nm = N \<and> (\<forall>i < length vns. nm_sync nm i (vns ! i))"

definition vn_grow :: "node_id set \<Rightarrow> ring_vnode \<Rightarrow> ring_vnode \<Rightarrow> bool" where
  "vn_grow N vn vn' \<longleftrightarrow> vn_version vn' = vn_version vn \<and>
     dom (map_of (vn_owners vn')) \<subseteq> dom (map_of (vn_owners vn)) \<union> N"

lemma vn_grow_trans: "vn_grow N u v \<Longrightarrow> vn_grow N v w \<Longrightarrow> vn_grow N u w"
  unfolding vn_grow_def by (elim conjE, intro conjI) (simp, blast)

lemma vn_pass:
  assumes "\<And>k nm vn. lm_wf nm \<Longrightarrow> nm_keys nm = N \<Longrightarrow> nm_sync nm k vn \<Longrightarrow>
      \<exists>nm' vn'. f k nm vn = Some (nm', vn') \<and> vn_step k nm vn nm' vn' \<and> post vn vn'"
    and "vns_ok N nm vns"
  obtains nm' vns' where "vn_loop f 0 vns nm = Some (nm', vns')" "vns_ok N nm' vns'"
    "list_all2 (\<lambda>vn vn'. vn_grow N vn vn' \<and> post vn vn') vns vns'"
proof -
  have "lm_wf nm" "nm_keys nm = N" "\<forall>i < length vns. nm_sync nm (0 + i) (vns ! i)"
    using assms(2) by (simp_all add: vns_ok_def)
  from vn_loop_ok [of N f post, OF assms(1) this] obtain nm' vns' where
    "vn_loop f 0 vns nm = Some (nm', vns')" "lm_wf nm'" "nm_keys nm' = N" "length vns' = length vns"
    "\<forall>i < length vns. nm_sync nm' (0 + i) (vns' ! i) \<and> post (vns ! i) (vns' ! i) \<and>
       vn_version (vns' ! i) = vn_version (vns ! i) \<and>
       dom (map_of (vn_owners (vns' ! i))) \<subseteq> dom (map_of (vn_owners (vns ! i))) \<union> N"
    by blast
  then show ?thesis
    by (intro that [of nm' vns']) (simp_all add: vns_ok_def vn_grow_def list_all2_conv_all_nth)
qed

lemma vns_ok_init:
  assumes wf: "lm_wf (rg_nodes r)" and vns: "list_all (vnode_inv (rg_nodes r)) vns"
  obtains nm where "nm_register_all 0 vns (nm_init (rg_nodes r)) = Some nm"
    "vns_ok (valid_ids r) nm vns"
proof -
  note init = nm_init_props [OF wf]
  have "\<forall>vn \<in> set vns. lm_wf (vn_owners vn) \<and> active vn \<subseteq> nm_keys (nm_init (rg_nodes r))"
    using vns unfolding init(2) by (auto simp: list_all_iff vnode_inv_active valid_ids_def)
  from nm_register_all_ok [OF init(1) this, of 0] show ?thesis
    using init(2,3) that by (auto simp: vns_ok_def)
qed

lemma vns_ok_inv:
  assumes "vns_ok (valid_ids r) nm vns'" "list_all (vnode_inv (rg_nodes r)) vns"
    and "list_all2 (vn_grow (valid_ids r)) vns vns'"
  shows "list_all (vnode_inv (rg_nodes r)) vns'"
proof -
  have "vnode_inv (rg_nodes r) (vns' ! i)" if i: "i < length vns'" for i
  proof -
    have "vn_grow (valid_ids r) (vns ! i) (vns' ! i)" "vnode_inv (rg_nodes r) (vns ! i)"
      using assms(2,3) i by (auto simp: list_all2_conv_all_nth list_all_length)
    moreover have "valid_ids r \<subseteq> dom (node_st (rg_nodes r))"
      by (auto simp: valid_ids_def)
    ultimately have "dom (map_of (vn_owners (vns' ! i))) \<subseteq> dom (node_st (rg_nodes r))"
      unfolding vn_grow_def vnode_inv_active by blast
    moreover have "nm_sync nm i (vns' ! i)" "nm_keys nm = valid_ids r"
      using assms(1) i by (simp_all add: vns_ok_def)
    ultimately show ?thesis
      using nm_sync_keys [of nm i] unfolding vnode_inv_active valid_ids_def nm_sync_def by metis
  qed
  then show ?thesis
    by (simp add: list_all_length)
qed

lemma rebalance_large_ok:
  assumes inv: "ring_inv r" and rf: "rg_replication_factor r \<le> valid_nodes_count r"
  obtains vns where "rebalance_large this r = Some (r\<lparr>rg_vnodes := vns\<rparr>)"
    "list_all (vnode_inv (rg_nodes r)) vns"
    "list_all2 (\<lambda>vn vn'. vn_version vn' = vv_event (vn_version vn) this \<and>
       card (active vn') = max (rg_replication_factor r) (card (active vn))) (rg_vnodes r) vns"
proof -
  let ?rf = "rg_replication_factor r" and ?N = "valid_ids r"
  define vns where "vns = map (\<lambda>vn. vn\<lparr>vn_version := vv_event (vn_version vn) this\<rparr>) (rg_vnodes r)"
  have wf: "lm_wf (rg_nodes r)" and vinv: "list_all (vnode_inv (rg_nodes r)) vns"
    using inv by (auto simp: ring_inv_def vns_def list_all_iff vnode_inv_def)
  from vns_ok_init [OF this] obtain nm where
    1: "nm_register_all 0 vns (nm_init (rg_nodes r)) = Some nm" "vns_ok ?N nm vns" .
  have "\<exists>nm' vn'. complete_replicas ?rf k nm vn = Some (nm', vn') \<and> vn_step k nm vn nm' vn' \<and>
      card (active vn') = max ?rf (card (active vn))"
    if "lm_wf nm" "nm_keys nm = ?N" "nm_sync nm k vn" for k nm vn
    using complete_replicas_ok [OF that(1,3)] that(2) rf nm_init_props(4) [OF wf] by metis
  from vn_pass [of ?N "complete_replicas ?rf" "\<lambda>vn vn'. card (active vn') = max ?rf (card (active vn))",
      OF this 1(2)] obtain nm1 vns1 where
    2: "vn_loop (complete_replicas ?rf) 0 vns nm = Some (nm1, vns1)" "vns_ok ?N nm1 vns1"
      "list_all2 (\<lambda>vn vn'. vn_grow ?N vn vn' \<and> card (active vn') = max ?rf (card (active vn))) vns vns1"
    .
  let ?vnpn = "ceil_div (length vns * ?rf) (length nm)"
  have "\<exists>nm' vn'. robin_hood ?vnpn k nm vn = Some (nm', vn') \<and> vn_step k nm vn nm' vn' \<and>
      card (active vn') = card (active vn)"
    if "lm_wf nm" "nm_keys nm = ?N" "nm_sync nm k vn" for k nm vn
    using robin_hood_ok [OF that(1,3)] by metis
  from vn_pass [of ?N "robin_hood ?vnpn" "\<lambda>vn vn'. card (active vn') = card (active vn)",
      OF this 2(2)] obtain nm2 vns2 where
    3: "vn_loop (robin_hood ?vnpn) 0 vns1 nm1 = Some (nm2, vns2)" "vns_ok ?N nm2 vns2"
      "list_all2 (\<lambda>vn vn'. vn_grow ?N vn vn' \<and> card (active vn') = card (active vn)) vns1 vns2"
    .
  have all: "list_all2 (\<lambda>vn vn'. vn_grow ?N vn vn' \<and> card (active vn') = max ?rf (card (active vn))) vns vns2"
    by (rule list_all2_trans [OF _ 2(3) 3(3)])
       (elim conjE, intro conjI, erule (1) vn_grow_trans, simp)
  show ?thesis
  proof (rule that)
    show "rebalance_large this r = Some (r\<lparr>rg_vnodes := vns2\<rparr>)"
      using 1(1) 2(1) 3(1) by (simp add: rebalance_large_def Let_def flip: vns_def)
    show "list_all (vnode_inv (rg_nodes r)) vns2"
      using vns_ok_inv [OF 3(2) vinv] all by (simp add: list_all2_conv_all_nth)
    show "list_all2 (\<lambda>vn vn'. vn_version vn' = vv_event (vn_version vn) this \<and>
        card (active vn') = max ?rf (card (active vn))) (rg_vnodes r) vns2"
      using all by (simp add: vns_def list_all2_conv_all_nth vn_grow_def active_def)
  qed
qed

lemma rebalance_small_fold:
  fixes nodes :: "(node_id \<times> ('a, 'm) node) list"
  assumes "lm_wf (vn_owners vn)" "status \<noteq> Retiring"
  shows "lm_wf (vn_owners (foldl (rebalance_small_step this status) vn nodes))"
    and "active (foldl (rebalance_small_step this status) vn nodes) =
      active vn \<union> {i. \<exists>n. (i, n) \<in> set nodes \<and> nd_status n = Valid}"
    and "dom (map_of (vn_owners (foldl (rebalance_small_step this status) vn nodes))) =
      dom (map_of (vn_owners vn)) \<union> {i. \<exists>n. (i, n) \<in> set nodes \<and> nd_status n = Valid}"
proof -
  let ?step = "rebalance_small_step this status"
  have step: "lm_wf (vn_owners (?step vn (i, n)))"
    "active (?step vn (i, n)) = (if nd_status n = Valid then insert i (active vn) else active vn)"
    "dom (map_of (vn_owners (?step vn (i, n)))) =
       (if nd_status n = Valid then insert i (dom (map_of (vn_owners vn))) else dom (map_of (vn_owners vn)))"
    if "lm_wf (vn_owners vn)" for vn i and n :: "('a, 'm) node"
    using that assms(2)
    by (auto simp: rebalance_small_step_def Let_def lm_wf_update active_def lm_simps split: option.splits)
  have "lm_wf (vn_owners (foldl ?step vn nodes)) \<and>
    active (foldl ?step vn nodes) = active vn \<union> {i. \<exists>n. (i, n) \<in> set nodes \<and> nd_status n = Valid} \<and>
    dom (map_of (vn_owners (foldl ?step vn nodes))) =
      dom (map_of (vn_owners vn)) \<union> {i. \<exists>n. (i, n) \<in> set nodes \<and> nd_status n = Valid}"
    using assms(1)
  proof (induction nodes arbitrary: vn)
    case (Cons p nodes)
    obtain i n where p: "p = (i, n)"
      by (cases p)
    show ?case
      unfolding p foldl_Cons
      using Cons.IH [OF step(1) [OF Cons.prems, of i n]] step(2,3) [OF Cons.prems, of i n] by auto
  qed simp
  then show "lm_wf (vn_owners (foldl ?step vn nodes))"
    "active (foldl ?step vn nodes) = active vn \<union> {i. \<exists>n. (i, n) \<in> set nodes \<and> nd_status n = Valid}"
    "dom (map_of (vn_owners (foldl ?step vn nodes))) =
      dom (map_of (vn_owners vn)) \<union> {i. \<exists>n. (i, n) \<in> set nodes \<and> nd_status n = Valid}"
    by simp_all
qed

lemma rebalance_small_ok:
  assumes "ring_inv r"
  shows "ring_inv (rebalance_small this r)"
    and "vn \<in> set (rg_vnodes (rebalance_small this r)) \<Longrightarrow> active vn = valid_ids r"
proof -
  have ids: "{i. \<exists>n. (i, n) \<in> set (rg_nodes r) \<and> nd_status n = Valid} = valid_ids r"
    using assms by (auto simp: valid_ids_def node_st_def ring_inv_def lm_wf_map_of_iff)
  have ne: "(if b then Owner else Pending) \<noteq> Retiring" for b
    by simp
  note fold = rebalance_small_fold [OF _ ne, of _ this _ "rg_nodes r", unfolded ids]
  have "valid_ids r \<subseteq> dom (node_st (rg_nodes r))"
    by (auto simp: valid_ids_def)
  then show "ring_inv (rebalance_small this r)"
    using assms fold by (auto simp: ring_inv_def rebalance_small_def Let_def list_all_iff
        vnode_inv_active valid_ids_def [symmetric])
  show "active vn = valid_ids r" if "vn \<in> set (rg_vnodes (rebalance_small this r))"
  proof -
    from that obtain b v where vn: "vn = foldl (rebalance_small_step this (if b then Owner else Pending)) v (rg_nodes r)"
      and "v \<in> set (rg_vnodes r)"
      by (auto simp: rebalance_small_def Let_def)
    then have "lm_wf (vn_owners v)" "active v \<subseteq> valid_ids r"
      using assms by (auto simp: ring_inv_def list_all_iff vnode_inv_active valid_ids_def)
    then show ?thesis
      unfolding vn using fold(2) by blast
  qed
qed

text \<open>The invariant of a ring: no vnode has more replicas than the replication factor.\<close>

definition ring_ok :: "('a, 'm) ring \<Rightarrow> bool" where
  "ring_ok r \<longleftrightarrow> ring_inv r \<and> list_all (\<lambda>vn. card (active vn) \<le> rg_replication_factor r) (rg_vnodes r)"

lemma position_count:
  assumes "list_all (\<lambda>vn. lm_wf (vn_owners vn) \<and> card (active vn) = c) vns"
  shows "position (\<lambda>vn. count_status (\<lambda>s. s = Owner) vn + count_status (\<lambda>s. s = Pending) vn \<noteq> c) vns = None"
  using assms count_active(2) by (auto simp: position_None list_all_iff)

lemma rebalance_total:
  fixes me :: node_id
  assumes "ring_ok r"
  shows "(\<exists>r'. rebalance me r = Ok r' \<and> ring_inv r' \<and>
      rg_nodes r' = rg_nodes r \<and> rg_replication_factor r' = rg_replication_factor r \<and>
      length (rg_vnodes r') = length (rg_vnodes r) \<and>
      list_all (\<lambda>vn. card (active vn) = min (valid_nodes_count r) (rg_replication_factor r)) (rg_vnodes r')) \<or>
    (\<exists>n. rebalance me r = Err (TooManyVnodes n))"
proof -
  let ?r = "r\<lparr>rg_version := vv_event (rg_version r) me\<rparr>"
  have inv: "ring_inv ?r" and wf: "lm_wf (rg_nodes r)"
    using assms by (simp_all add: ring_ok_def ring_inv_def)
  have same: "valid_nodes_count ?r = valid_nodes_count r" "valid_ids ?r = valid_ids r"
    by (simp_all add: valid_nodes_count_def valid_ids_def)
  show ?thesis
  proof (cases "valid_nodes_count r \<le> rg_replication_factor r")
    case True
    then show ?thesis
      using rebalance_small_ok [OF inv] nm_init_props(4) [OF wf]
      by (auto simp: rebalance_def same rebalance_small_def list_all_iff)
  next
    case False
    then have le: "rg_replication_factor ?r \<le> valid_nodes_count ?r"
      by (simp add: same)
    from rebalance_large_ok [where this = me, OF inv le] obtain vns where
      1: "rebalance_large me ?r = Some (?r\<lparr>rg_vnodes := vns\<rparr>)"
        "list_all (vnode_inv (rg_nodes r)) vns" "length vns = length (rg_vnodes r)"
        "\<And>i. i < length vns \<Longrightarrow>
           card (active (vns ! i)) = max (rg_replication_factor r) (card (active (rg_vnodes r ! i)))"
      by (simp add: list_all2_conv_all_nth) metis
    then have cards: "list_all (\<lambda>vn. lm_wf (vn_owners vn) \<and> card (active vn) = rg_replication_factor r) vns"
      using assms by (auto simp: ring_ok_def list_all_length vnode_inv_def)
    let ?r' = "?r\<lparr>rg_vnodes := vns\<rparr>"
    have "min (valid_nodes_count r) (rg_replication_factor r) = rg_replication_factor r"
      "valid_nodes_count ?r' = valid_nodes_count r"
      using False by (simp_all add: valid_nodes_count_def)
    then have "is_valid ?r' = Ok () \<or> (\<exists>n. is_valid ?r' = Err (TooManyVnodes n))"
      using position_count [OF cards] False by (auto simp: is_valid_def Let_def split: list.splits)
    then show ?thesis
      using 1 cards False wf
      by (auto simp: rebalance_def Let_def same ring_inv_def list_all_iff)
  qed
qed

section \<open>Reachable rings\<close>

text \<open>The changes a node proposes to its own ring, and the rings they reach.\<close>

inductive ring_step :: "('a, 'm) ring \<Rightarrow> ('a, 'm) ring \<Rightarrow> bool" where
  join: "join_node this i addr meta r = Ok r' \<Longrightarrow> ring_step r r'"
| leave: "leave_node this i r = Ok r' \<Longrightarrow> ring_step r r'"
| remove: "remove_node this i r = Ok r' \<Longrightarrow> ring_step r r'"
| replace: "replace_node this old new addr meta r = Ok r' \<Longrightarrow> ring_step r r'"
| promote: "promote_pending_node this i vn_no r = Ok r' \<Longrightarrow> ring_step r r'"
| rebalance: "rebalance this r = Ok r' \<Longrightarrow> ring_step r r'"

inductive ring_reachable :: "('a, 'm) ring \<Rightarrow> bool" where
  init: "ring_reachable (ring_new cluster partitions rf)"
| step: "ring_reachable r \<Longrightarrow> ring_step r r' \<Longrightarrow> ring_reachable r'"

lemma active_vnode_ops:
  "active (vnode_leave this i vn) = active vn - {i}"
  "active (vnode_remove this i vn) = active vn - {i}"
  "active (vnode_replace this i j vn) \<subseteq> active vn \<or>
     i \<in> active vn \<and> active (vnode_replace this i j vn) \<subseteq> insert j (active vn - {i})"
  by (auto simp: active_def vnode_leave_owners vnode_remove_owners vnode_replace_owners split: if_splits)

lemma card_replace: "card (active (vnode_replace this i j vn)) \<le> card (active vn)"
proof (cases "active (vnode_replace this i j vn) \<subseteq> active vn")
  case True
  then show ?thesis
    by (simp add: card_mono)
next
  case False
  then have i: "i \<in> active vn" and sub: "active (vnode_replace this i j vn) \<subseteq> insert j (active vn - {i})"
    using active_vnode_ops(3) by blast+
  have "card (insert j (active vn - {i})) \<le> Suc (card (active vn - {i}))"
    by (rule card_insert_le_m1) simp_all
  with card_mono [OF _ sub] card_Suc_Diff1 [OF finite_active i] show ?thesis
    by simp
qed

lemma active_promote:
  assumes "lm_wf (vn_owners vn)" "map_of (vn_owners vn) i = Some Pending"
  shows "active (drop_retiring (vn\<lparr>vn_owners := AList.update i Owner (vn_owners vn), vn_version := v\<rparr>)) =
    active vn"
  using assms by (auto simp: active_def drop_retiring_owners lm_wf_update lm_simps split: if_splits)

lemma ring_step_inv: "ring_step r r' \<Longrightarrow> ring_inv r \<Longrightarrow> ring_ok r \<Longrightarrow> ring_inv r'"
proof (induction rule: ring_step.induct)
  case (rebalance this r r')
  then show ?case
    using rebalance_total [of r this] by auto
qed (blast intro: join_node_inv leave_node_inv remove_node_inv replace_node_inv promote_pending_node_inv)+

lemma ring_step_cards:
  assumes "ring_step r r'" "ring_ok r"
  shows "list_all (\<lambda>vn. card (active vn) \<le> rg_replication_factor r') (rg_vnodes r')"
  using assms
proof (induction rule: ring_step.induct)
  case (join this i addr meta r r')
  then show ?case
    by (auto simp: join_node_def Let_def ring_ok_def split: option.splits if_splits)
next
  case (leave this i r r')
  then show ?case
    by (auto simp: leave_node_def ring_ok_def list_all_iff active_vnode_ops intro!: order_trans [OF card_Diff1_le])
next
  case (remove this i r r')
  then show ?case
    by (auto simp: remove_node_def ring_ok_def list_all_iff active_vnode_ops intro!: order_trans [OF card_Diff1_le])
next
  case (replace this old new addr meta r r')
  then show ?case
    by (auto simp: replace_node_def Let_def ring_ok_def list_all_iff intro!: order_trans [OF card_replace]
        split: if_splits)
next
  case (promote this i vn_no r r')
  then show ?case
    by (auto simp: promote_pending_node_def Let_def ring_ok_def ring_inv_def vnode_inv_def list_all_length
        active_promote nth_list_update split: if_splits option.splits vnode_node_status.splits)
next
  case (rebalance this r r')
  then show ?case
    using rebalance_total [OF rebalance.prems, of this] by (auto simp: list_all_iff)
qed

lemma ring_reachable_ok: "ring_reachable r \<Longrightarrow> ring_ok r"
proof (induction rule: ring_reachable.induct)
  case (init cluster partitions rf)
  then show ?case
    by (simp add: ring_ok_def ring_new_inv)
       (simp add: ring_new_def ring_vnode_default_def active_def list_all_iff)
next
  case (step r r')
  then show ?case
    using ring_step_inv [OF step.hyps(2)] ring_step_cards [OF step.hyps(2)] by (simp add: ring_ok_def)
qed

section \<open>Properties\<close>

text \<open>
  C6: In every ring a node reaches from a new one by joins, leaves, removals, replacements,
  promotions and rebalances, node and owner keys are unique, every owner is a known node, every
  owner or pending owner is a valid node, and no vnode has more replicas than the replication
  factor.
\<close>

theorem ring_reachable_invariant:
  assumes "ring_reachable r" "vn \<in> set (rg_vnodes r)"
  shows "lm_wf (rg_nodes r) \<and> lm_wf (vn_owners vn) \<and>
    dom (map_of (vn_owners vn)) \<subseteq> dom (map_of (rg_nodes r)) \<and> active vn \<subseteq> valid_ids r \<and>
    card (active vn) \<le> rg_replication_factor r"
proof -
  have "dom (node_st (rg_nodes r)) = dom (map_of (rg_nodes r))"
    by (auto simp: node_st_def)
  then show ?thesis
    using ring_reachable_ok [OF assms(1)] assms(2)
    by (auto simp: ring_ok_def ring_inv_def list_all_iff vnode_inv_active valid_ids_def)
qed

theorem ring_reachable_invariant_witness:
  "let r = (ring_new ''c'' 1 1 :: (string, string) ring); vn = ring_vnode_default in
   lm_wf (rg_nodes r) \<and> lm_wf (vn_owners vn) \<and>
   dom (map_of (vn_owners vn)) \<subseteq> dom (map_of (rg_nodes r)) \<and> active vn \<subseteq> valid_ids r \<and>
   card (active vn) \<le> rg_replication_factor r"
  unfolding Let_def
  by (rule ring_reachable_invariant [OF ring_reachable.init]) (simp add: ring_new_def)

text \<open>
  C7: Rebalancing a reachable ring never fails an assertion and never leaves a vnode short: every
  vnode gets exactly the replication factor of replicas, or all valid nodes when they are fewer,
  and the ring keeps its invariant. The only error is a node left with too many vnodes.
\<close>

theorem rebalance_replicates:
  assumes "ring_reachable r"
  shows "(\<exists>r'. rebalance this r = Ok r' \<and> ring_inv r' \<and> rg_nodes r' = rg_nodes r \<and>
      length (rg_vnodes r') = length (rg_vnodes r) \<and>
      list_all (\<lambda>vn. card (active vn) = min (valid_nodes_count r) (rg_replication_factor r)) (rg_vnodes r')) \<or>
    (\<exists>n. rebalance this r = Err (TooManyVnodes n))"
  using rebalance_total [OF ring_reachable_ok [OF assms], of this] by blast

theorem rebalance_replicates_witness:
  "let r = (ring_new ''c'' 2 1 :: (string, string) ring) in
   (\<exists>r'. rebalance 1 r = Ok r' \<and> ring_inv r' \<and> rg_nodes r' = rg_nodes r \<and>
      length (rg_vnodes r') = length (rg_vnodes r) \<and>
      list_all (\<lambda>vn. card (active vn) = min (valid_nodes_count r) (rg_replication_factor r)) (rg_vnodes r')) \<or>
   (\<exists>n. rebalance 1 r = Err (TooManyVnodes n))"
  unfolding Let_def by (rule rebalance_replicates [OF ring_reachable.init])

end
