(* ===== verification/Causal.thy ===== *)
theory Causal
  imports Clock_Interface
begin

text \<open>
  \<^verbatim>\<open>DotSet\<close>, \<^verbatim>\<open>DotMap\<close> and \<^verbatim>\<open>CausalMap\<close> of \<^verbatim>\<open>version_vector.rs\<close>, the containers the data types are
  made of, and the contract \<open>causal_value\<close> of the trait \<^verbatim>\<open>CausalValue\<close>. The clocks a merge
  receives are passed as their \<^verbatim>\<open>contains\<close> predicate, the one method of \<^verbatim>\<open>AbsVersionVector\<close>. A merge
  takes \<^verbatim>\<open>other\<close> by mutable reference and consumes it; it returns the new \<^verbatim>\<open>self\<close> and what is left
  of \<^verbatim>\<open>other\<close>.
\<close>

type_synonym clock = "id \<Rightarrow> version \<Rightarrow> bool"

section \<open>The causal join of dot sets\<close>

text \<open>
  What a merge computes on dots: a dot survives when both sides have it, or when one side has
  it and the other side has not seen it.
\<close>

definition clock_dots :: "clock \<Rightarrow> dot set" where
  "clock_dots c = {(i, v). c i v}"

definition causal_join :: "dot set \<Rightarrow> dot set \<Rightarrow> dot set \<Rightarrow> dot set \<Rightarrow> dot set" where
  "causal_join d1 c1 d2 c2 = (d1 \<inter> d2) \<union> (d1 - c2) \<union> (d2 - c1)"

lemma causal_join_commute: "causal_join d1 c1 d2 c2 = causal_join d2 c2 d1 c1"
  by (auto simp: causal_join_def)

lemma causal_join_idem: "causal_join d c d c = d"
  by (auto simp: causal_join_def)

lemma causal_join_assoc:
  assumes "d1 \<subseteq> c1" "d2 \<subseteq> c2" "d3 \<subseteq> c3"
  shows "causal_join (causal_join d1 c1 d2 c2) (c1 \<union> c2) d3 c3 =
    causal_join d1 c1 (causal_join d2 c2 d3 c3) (c2 \<union> c3)"
  using assms by (auto simp: causal_join_def)

lemma causal_join_subset: "d1 \<subseteq> c1 \<Longrightarrow> d2 \<subseteq> c2 \<Longrightarrow> causal_join d1 c1 d2 c2 \<subseteq> c1 \<union> c2"
  by (auto simp: causal_join_def)

lemma causal_join_absorb:
  assumes "d1 \<subseteq> c1" "d2 \<subseteq> c2"
  shows "causal_join (causal_join d1 c1 d2 c2) (c1 \<union> c2) d2 c2 = causal_join d1 c1 d2 c2"
  using assms by (auto simp: causal_join_def)

text \<open>
  Joining states one after the other: a dot survives when some state has it and every state
  whose clock has seen it has it. The order and the repetitions of the states do not matter.
\<close>

definition causal_join_list :: "dot set \<times> dot set \<Rightarrow> (dot set \<times> dot set) list \<Rightarrow> dot set \<times> dot set" where
  "causal_join_list s ss =
     foldl (\<lambda>(d1, c1) (d2, c2). (causal_join d1 c1 d2 c2, c1 \<union> c2)) s ss"

definition causal_survivors :: "(dot set \<times> dot set) set \<Rightarrow> dot set" where
  "causal_survivors S = {d. (\<exists>s\<in>S. d \<in> fst s) \<and> (\<forall>s\<in>S. d \<in> snd s \<longrightarrow> d \<in> fst s)}"

lemma causal_survivors_insert:
  assumes "\<forall>s\<in>S. fst s \<subseteq> snd s" "d \<subseteq> c"
  shows "causal_join (causal_survivors S) (\<Union>(snd ` S)) d c = causal_survivors (insert (d, c) S)"
  using assms by (auto simp: causal_join_def causal_survivors_def)

lemma causal_join_list_survivors:
  assumes "\<forall>s\<in>set (s # ss). fst s \<subseteq> snd s"
  shows "causal_join_list s ss = (causal_survivors (set (s # ss)), \<Union>(snd ` set (s # ss)))"
  using assms
proof (induction ss rule: rev_induct)
  case Nil
  then show ?case
    by (cases s) (auto simp: causal_join_list_def causal_survivors_def)
next
  case (snoc t ss)
  obtain d c where t: "t = (d, c)"
    by force
  have "causal_join_list s (ss @ [t]) =
    (causal_join (causal_survivors (set (s # ss))) (\<Union>(snd ` set (s # ss))) d c,
     \<Union>(snd ` set (s # ss)) \<union> c)"
    using snoc t by (simp add: causal_join_list_def)
  also have "causal_join (causal_survivors (set (s # ss))) (\<Union>(snd ` set (s # ss))) d c =
      causal_survivors (insert (d, c) (set (s # ss)))"
    using snoc.prems t by (intro causal_survivors_insert) auto
  also have "insert (d, c) (set (s # ss)) = set (s # ss @ [t])"
    using t by auto
  finally show ?case
    using t by auto
qed

section \<open>The contract of a causal value\<close>

type_synonym 'v cv_merge = "'v \<Rightarrow> 'v \<Rightarrow> clock \<Rightarrow> clock \<Rightarrow> 'v \<times> 'v"

locale causal_value =
  fixes wf :: "'v \<Rightarrow> bool"
    and dots :: "'v \<Rightarrow> dot set"
    and merge :: "'v cv_merge"
    and is_empty :: "'v \<Rightarrow> bool"
    and def :: 'v
  assumes wf_def: "wf def"
    and dots_def: "dots def = {}"
    and is_empty_iff: "wf a \<Longrightarrow> is_empty a \<longleftrightarrow> dots a = {}"
    and wf_merge: "wf a \<Longrightarrow> wf b \<Longrightarrow> wf (fst (merge a b s o'))"
    and dots_merge: "wf a \<Longrightarrow> wf b \<Longrightarrow>
      dots (fst (merge a b s o')) = causal_join (dots a) (clock_dots s) (dots b) (clock_dots o')"
begin

lemma dots_merge_def: "wf a \<Longrightarrow> dots (fst (merge a def o' s)) = dots a - clock_dots s"
  by (auto simp: dots_merge wf_def dots_def causal_join_def)

lemma dots_merge_commute:
  "wf a \<Longrightarrow> wf b \<Longrightarrow> dots (fst (merge a b s o')) = dots (fst (merge b a o' s))"
  by (simp add: dots_merge causal_join_commute)

lemma dots_merge_idem: "wf a \<Longrightarrow> dots (fst (merge a a s s)) = dots a"
  by (simp add: dots_merge causal_join_idem)

end

section \<open>\<^verbatim>\<open>DotSet\<close>\<close>

type_synonym dot_set = "dot list"

definition ls_insert :: "'a \<Rightarrow> 'a list \<Rightarrow> 'a list" where
  "ls_insert x xs = (if x \<in> set xs then xs else xs @ [x])"

definition dotset_new :: dot_set where
  "dotset_new = []"

definition dotset_from_dot :: "dot \<Rightarrow> dot_set" where
  "dotset_from_dot d = ls_insert d dotset_new"

fun dotset_retain :: "dot_set \<Rightarrow> dot_set \<Rightarrow> clock \<Rightarrow> dot_set \<times> dot_set" where
  "dotset_retain [] other o_vv = ([], other)"
| "dotset_retain ((i, v) # self) other o_vv =
     (let removed = (i, v) \<in> set other;
          (self', other') = dotset_retain self (removeAll (i, v) other) o_vv
      in (if removed \<or> \<not> o_vv i v then (i, v) # self' else self', other'))"

definition dotset_merge :: "dot_set cv_merge" where
  "dotset_merge self other s_vv o_vv =
     (let (self', other') = dotset_retain self other o_vv
      in (foldl (\<lambda>self (i, v). if \<not> s_vv i v then ls_insert (i, v) self else self) self' other',
          other'))"

definition dotset_is_empty :: "dot_set \<Rightarrow> bool" where
  "dotset_is_empty s \<longleftrightarrow> s = []"

lemma set_ls_insert [simp]: "set (ls_insert x xs) = insert x (set xs)"
  by (auto simp: ls_insert_def)

lemma distinct_ls_insert [simp]: "distinct (ls_insert x xs) \<longleftrightarrow> distinct xs"
  by (auto simp: ls_insert_def)

lemma dotset_retain_props:
  "distinct self \<Longrightarrow>
   set (fst (dotset_retain self other o_vv)) = {d \<in> set self. d \<in> set other \<or> d \<notin> clock_dots o_vv} \<and>
   set (snd (dotset_retain self other o_vv)) = set other - set self \<and>
   distinct (fst (dotset_retain self other o_vv))"
  by (induction self other o_vv rule: dotset_retain.induct)
    (auto simp: Let_def clock_dots_def split: prod.splits)

lemma foldl_ls_insert:
  "set (foldl (\<lambda>self (i, v). if \<not> s i v then ls_insert (i, v) self else self) xs ds) =
     set xs \<union> (set ds - clock_dots s) \<and>
   (distinct (foldl (\<lambda>self (i, v). if \<not> s i v then ls_insert (i, v) self else self) xs ds) \<longleftrightarrow>
     distinct xs)"
  by (induction ds arbitrary: xs) (auto simp: clock_dots_def split: if_splits)

lemma dotset_merge_props:
  assumes "distinct a"
  shows "set (fst (dotset_merge a b s o')) =
      causal_join (set a) (clock_dots s) (set b) (clock_dots o')"
    and "distinct (fst (dotset_merge a b s o'))"
proof -
  obtain a' b' where r: "dotset_retain a b o' = (a', b')"
    by force
  have "set a' = {d \<in> set a. d \<in> set b \<or> d \<notin> clock_dots o'}" "set b' = set b - set a" "distinct a'"
    using dotset_retain_props [OF assms, of b o'] r by auto
  then show "set (fst (dotset_merge a b s o')) =
      causal_join (set a) (clock_dots s) (set b) (clock_dots o')"
    and "distinct (fst (dotset_merge a b s o'))"
    using foldl_ls_insert [of s a' b'] by (auto simp: dotset_merge_def r causal_join_def)
qed

interpretation ds: causal_value distinct set dotset_merge dotset_is_empty dotset_new
  by unfold_locales (simp_all add: dotset_new_def dotset_is_empty_def dotset_merge_props)

section \<open>\<^verbatim>\<open>DotMap\<close>\<close>

type_synonym 'a dot_map = "(dot \<times> 'a) list"

definition dotmap_new :: "'a dot_map" where
  "dotmap_new = []"

definition dotmap_discard :: "'a dot_map \<Rightarrow> clock \<Rightarrow> 'a dot_map" where
  "dotmap_discard m vv = filter (\<lambda>((i, v), _). \<not> vv i v) m"

definition dotmap_insert :: "'a dot_map \<Rightarrow> id \<Rightarrow> version \<Rightarrow> 'a \<Rightarrow> 'a dot_map" where
  "dotmap_insert m i v x = AList.update (i, v) x m"

fun dotmap_retain :: "'a dot_map \<Rightarrow> 'a dot_map \<Rightarrow> clock \<Rightarrow> 'a dot_map \<times> 'a dot_map" where
  "dotmap_retain [] other o_vv = ([], other)"
| "dotmap_retain (((i, v), x) # self) other o_vv =
     (let removed = map_of other (i, v) \<noteq> None;
          (self', other') = dotmap_retain self (AList.delete (i, v) other) o_vv
      in (if removed \<or> \<not> o_vv i v then ((i, v), x) # self' else self', other'))"

definition dotmap_merge :: "'a dot_map cv_merge" where
  "dotmap_merge self other s_vv o_vv =
     (let (self', other') = dotmap_retain self other o_vv
      in (foldl (\<lambda>self ((i, v), x). if \<not> s_vv i v then dotmap_insert self i v x else self) self' other',
          []))"

definition dotmap_is_empty :: "'a dot_map \<Rightarrow> bool" where
  "dotmap_is_empty m \<longleftrightarrow> m = []"

definition dotmap_dots :: "'a dot_map \<Rightarrow> dot set" where
  "dotmap_dots m = fst ` set m"

lemma dotmap_dots_dom: "dotmap_dots m = dom (map_of m)"
  by (simp add: dotmap_dots_def dom_map_of_conv_image_fst)

lemma dotmap_retain_props:
  "lm_wf self \<Longrightarrow> lm_wf other \<Longrightarrow>
   map_of (fst (dotmap_retain self other o_vv)) d =
     (if map_of other d \<noteq> None \<or> d \<notin> clock_dots o_vv then map_of self d else None) \<and>
   map_of (snd (dotmap_retain self other o_vv)) d =
     (if map_of self d = None then map_of other d else None) \<and>
   lm_wf (fst (dotmap_retain self other o_vv)) \<and> lm_wf (snd (dotmap_retain self other o_vv)) \<and>
   fst ` set (fst (dotmap_retain self other o_vv)) \<subseteq> fst ` set self"
proof (induction self other o_vv arbitrary: d rule: dotmap_retain.induct)
  case (2 i v x self other o_vv)
  let ?other = "AList.delete (i, v) other"
  obtain s' o' where r: "dotmap_retain self ?other o_vv = (s', o')"
    by force
  have no: "(i, v) \<notin> fst ` set self" "map_of self (i, v) = None"
    using "2.prems"(1) by (auto simp: map_of_eq_None_iff)
  note IH = "2.IH" [OF refl _ lm_wf_delete [OF "2.prems"(2)], unfolded r fst_conv snd_conv]
  have "(i, v) \<notin> fst ` set s'" "lm_wf s'" "lm_wf o'" "fst ` set s' \<subseteq> fst ` set self"
    using IH [of d] "2.prems"(1) no by auto
  moreover have "map_of s' (i, v) = None"
    using calculation(1) by (auto simp: map_of_eq_None_iff)
  moreover have "map_of s' d = (if map_of ?other d \<noteq> None \<or> d \<notin> clock_dots o_vv then map_of self d else None)"
    "map_of o' d = (if map_of self d = None then map_of ?other d else None)"
    using IH [of d] "2.prems"(1) by simp_all
  ultimately show ?case
    using no by (auto simp: r Let_def lm_simps clock_dots_def simp del: map_of_eq_None_iff)
qed auto

lemma dotmap_drain_props:
  "lm_wf other \<Longrightarrow>
   map_of (foldl (\<lambda>self ((i, v), x). if \<not> s i v then dotmap_insert self i v x else self) self other) d =
     (case map_of other d of Some x \<Rightarrow> if d \<notin> clock_dots s then Some x else map_of self d
      | None \<Rightarrow> map_of self d) \<and>
   (lm_wf self \<longrightarrow>
    lm_wf (foldl (\<lambda>self ((i, v), x). if \<not> s i v then dotmap_insert self i v x else self) self other))"
proof (induction other arbitrary: self)
  case (Cons p other)
  obtain i v x where p: "p = ((i, v), x)"
    by (metis surj_pair)
  have "map_of other (i, v) = None"
    using Cons.prems p by (auto simp: map_of_eq_None_iff)
  then show ?case
    using Cons.IH [of "dotmap_insert self i v x"] Cons.IH [of self] Cons.prems p
    by (auto simp: dotmap_insert_def lm_simps lm_wf_update clock_dots_def split: option.splits)
qed simp

lemma dotmap_merge_props:
  assumes "lm_wf a" "lm_wf b"
  shows "map_of (fst (dotmap_merge a b s o')) d =
      (case map_of a d of
         Some x \<Rightarrow> if map_of b d \<noteq> None \<or> d \<notin> clock_dots o' then Some x else None
       | None \<Rightarrow> if d \<notin> clock_dots s then map_of b d else None)"
    and "lm_wf (fst (dotmap_merge a b s o'))"
proof -
  obtain a' b' where r: "dotmap_retain a b o' = (a', b')"
    by force
  note p = dotmap_retain_props [OF assms, of o', unfolded r fst_conv snd_conv]
  have q: "lm_wf b'" "lm_wf a'"
    using p by blast+
  show "lm_wf (fst (dotmap_merge a b s o'))"
    using dotmap_drain_props [OF q(1), of s a'] q(2) by (simp add: dotmap_merge_def r)
  have "map_of (fst (dotmap_merge a b s o')) d =
     (case map_of b' d of Some x \<Rightarrow> if d \<notin> clock_dots s then Some x else map_of a' d
      | None \<Rightarrow> map_of a' d)"
    using dotmap_drain_props [OF q(1), of s a' d] by (simp add: dotmap_merge_def r)
  then show "map_of (fst (dotmap_merge a b s o')) d =
      (case map_of a d of
         Some x \<Rightarrow> if map_of b d \<noteq> None \<or> d \<notin> clock_dots o' then Some x else None
       | None \<Rightarrow> if d \<notin> clock_dots s then map_of b d else None)"
    using p [of d] by (simp split: option.splits)
qed

lemma dotmap_merge_dots:
  "lm_wf a \<Longrightarrow> lm_wf b \<Longrightarrow> dotmap_dots (fst (dotmap_merge a b s o')) =
     causal_join (dotmap_dots a) (clock_dots s) (dotmap_dots b) (clock_dots o')"
  by (auto simp: dotmap_dots_dom dotmap_merge_props causal_join_def dom_def split: option.splits if_splits)

interpretation dm: causal_value lm_wf dotmap_dots dotmap_merge dotmap_is_empty dotmap_new
  by unfold_locales
    (simp_all add: dotmap_merge_dots dotmap_merge_props dotmap_is_empty_def, simp_all add: dotmap_new_def dotmap_dots_def)

lemma dotmap_merge_new: "fst (dotmap_merge m dotmap_new s (\<lambda>_ _. False)) = m"
proof -
  have "dotmap_retain m [] (\<lambda>_ _. False) = (m, [])"
    by (induction m) auto
  then show ?thesis
    by (simp add: dotmap_merge_def dotmap_new_def)
qed

lemma lm_wf_discard: "lm_wf m \<Longrightarrow> lm_wf (dotmap_discard m c)"
  by (simp add: dotmap_discard_def lm_wf_filter)

lemma map_of_discard:
  "lm_wf m \<Longrightarrow> map_of (dotmap_discard m c) d = (if d \<in> clock_dots c then None else map_of m d)"
proof -
  assume "lm_wf m"
  have "dotmap_discard m c = filter (\<lambda>(d, _). d \<notin> clock_dots c) m"
    by (auto simp: dotmap_discard_def clock_dots_def intro!: filter_cong)
  then show ?thesis
    using map_of_filter_lm [OF \<open>lm_wf m\<close>, of "\<lambda>d _. d \<notin> clock_dots c" d]
    by (simp split: option.splits)
qed

section \<open>\<^verbatim>\<open>CausalMap\<close>\<close>

text \<open>
  A map from keys to causal values. The value type's \<^verbatim>\<open>merge\<close>, \<^verbatim>\<open>is_empty\<close> and \<^verbatim>\<open>default\<close> are the
  arguments \<open>vmerge\<close>, \<open>vempty\<close> and \<open>vdef\<close>.
\<close>

type_synonym ('k, 'v) causal_map = "('k \<times> 'v) list"

definition cm_new :: "('k, 'v) causal_map" where
  "cm_new = []"

definition cm_clear :: "('k, 'v) causal_map \<Rightarrow> ('k, 'v) causal_map" where
  "cm_clear m = []"

definition cm_insert :: "('k, 'v) causal_map \<Rightarrow> 'k \<Rightarrow> 'v \<Rightarrow> 'v option \<times> ('k, 'v) causal_map" where
  "cm_insert m k v = (map_of m k, AList.update k v m)"

definition cm_remove :: "('k, 'v) causal_map \<Rightarrow> 'k \<Rightarrow> 'v option \<times> ('k, 'v) causal_map" where
  "cm_remove m k = (map_of m k, AList.delete k m)"

fun cm_retain :: "'v cv_merge \<Rightarrow> ('v \<Rightarrow> bool) \<Rightarrow> ('k, 'v) causal_map \<Rightarrow> ('k, 'v) causal_map \<Rightarrow>
    clock \<Rightarrow> clock \<Rightarrow> ('k, 'v) causal_map \<times> ('k, 'v) causal_map" where
  "cm_retain vmerge vempty [] other s_vv o_vv = ([], other)"
| "cm_retain vmerge vempty ((k, x) # self) other s_vv o_vv =
     (case map_of other k of
        Some y \<Rightarrow>
          (let x' = fst (vmerge x y s_vv o_vv);
               (self', other') = cm_retain vmerge vempty self (AList.delete k other) s_vv o_vv
           in (if \<not> vempty x' then (k, x') # self' else self', other'))
      | None \<Rightarrow>
          (let (self', other') = cm_retain vmerge vempty self other s_vv o_vv
           in ((k, x) # self', other')))"

definition cm_drain_step :: "'v cv_merge \<Rightarrow> ('v \<Rightarrow> bool) \<Rightarrow> 'v \<Rightarrow> clock \<Rightarrow> clock \<Rightarrow>
    ('k, 'v) causal_map \<Rightarrow> 'k \<times> 'v \<Rightarrow> ('k, 'v) causal_map" where
  "cm_drain_step vmerge vempty vdef s_vv o_vv self p =
     (let (k, y) = p; y' = fst (vmerge y vdef o_vv s_vv)
      in if \<not> vempty y' then AList.update k y' self else self)"

definition cm_merge :: "'v cv_merge \<Rightarrow> ('v \<Rightarrow> bool) \<Rightarrow> 'v \<Rightarrow> ('k, 'v) causal_map cv_merge" where
  "cm_merge vmerge vempty vdef self other s_vv o_vv =
     (let (self', other') = cm_retain vmerge vempty self other s_vv o_vv
      in (foldl (cm_drain_step vmerge vempty vdef s_vv o_vv) self' other', []))"

definition cm_is_empty :: "('k, 'v) causal_map \<Rightarrow> bool" where
  "cm_is_empty m \<longleftrightarrow> m = []"

text \<open>
  The result of a merge, key by key, for any value type; a key that only \<^verbatim>\<open>self\<close> has is kept
  whatever \<^verbatim>\<open>other\<close>'s clock says.
\<close>

definition cm_entry :: "'v cv_merge \<Rightarrow> ('v \<Rightarrow> bool) \<Rightarrow> 'v \<Rightarrow> clock \<Rightarrow> clock \<Rightarrow>
    'v option \<Rightarrow> 'v option \<Rightarrow> 'v option" where
  "cm_entry vmerge vempty vdef s_vv o_vv a b =
     (let keep = (\<lambda>x. if vempty x then None else Some x)
      in case (a, b) of
           (Some x, Some y) \<Rightarrow> keep (fst (vmerge x y s_vv o_vv))
         | (Some x, None) \<Rightarrow> Some x
         | (None, Some y) \<Rightarrow> keep (fst (vmerge y vdef o_vv s_vv))
         | (None, None) \<Rightarrow> None)"

lemma cm_retain_props:
  "lm_wf self \<Longrightarrow> lm_wf other \<Longrightarrow>
   map_of (fst (cm_retain vmerge vempty self other s_vv o_vv)) k =
     (if map_of self k = None then None
      else cm_entry vmerge vempty vdef s_vv o_vv (map_of self k) (map_of other k)) \<and>
   map_of (snd (cm_retain vmerge vempty self other s_vv o_vv)) k =
     (if map_of self k = None then map_of other k else None) \<and>
   lm_wf (fst (cm_retain vmerge vempty self other s_vv o_vv)) \<and>
   lm_wf (snd (cm_retain vmerge vempty self other s_vv o_vv)) \<and>
   fst ` set (fst (cm_retain vmerge vempty self other s_vv o_vv)) \<subseteq> fst ` set self"
proof (induction self arbitrary: other)
  case (Cons p self)
  obtain j x where p: "p = (j, x)"
    by force
  have no: "j \<notin> fst ` set self" "map_of self j = None" "lm_wf self"
    using Cons.prems(1) p by (auto simp: map_of_eq_None_iff)
  show ?case
  proof (cases "map_of other j")
    case None
    obtain s' o' where r: "cm_retain vmerge vempty self other s_vv o_vv = (s', o')"
      by force
    note IH = Cons.IH [OF no(3) Cons.prems(2), unfolded r fst_conv snd_conv]
    have "j \<notin> fst ` set s'"
      using IH no by auto
    then show ?thesis
      using IH None no by (auto simp: p r Let_def cm_entry_def)
  next
    case (Some y)
    obtain s' o' where r: "cm_retain vmerge vempty self (AList.delete j other) s_vv o_vv = (s', o')"
      by force
    note IH = Cons.IH [OF no(3) lm_wf_delete [OF Cons.prems(2), of j], unfolded r fst_conv snd_conv]
    have "j \<notin> fst ` set s'"
      using IH no by auto
    moreover from this have "map_of s' j = None"
      by (auto simp: map_of_eq_None_iff)
    ultimately show ?thesis
      using IH Some no by (auto simp: p r Let_def cm_entry_def lm_simps)
  qed
qed auto

lemma cm_drain_props:
  "lm_wf other \<Longrightarrow>
   map_of (foldl (cm_drain_step vmerge vempty vdef s_vv o_vv) self other) k =
     (case map_of other k of
        Some y \<Rightarrow> if vempty (fst (vmerge y vdef o_vv s_vv)) then map_of self k
                  else Some (fst (vmerge y vdef o_vv s_vv))
      | None \<Rightarrow> map_of self k) \<and>
   (lm_wf self \<longrightarrow> lm_wf (foldl (cm_drain_step vmerge vempty vdef s_vv o_vv) self other))"
proof (induction other arbitrary: self)
  case (Cons p other)
  obtain j y where p: "p = (j, y)"
    by force
  have "map_of other j = None"
    using Cons.prems p by (auto simp: map_of_eq_None_iff)
  then show ?case
    using Cons.IH [of "cm_drain_step vmerge vempty vdef s_vv o_vv self p"] Cons.prems p
    by (auto simp: cm_drain_step_def lm_simps lm_wf_update Let_def split: option.splits)
qed simp

lemma cm_merge_lookup:
  assumes "lm_wf a" "lm_wf b"
  shows "map_of (fst (cm_merge vmerge vempty vdef a b s o')) k =
      cm_entry vmerge vempty vdef s o' (map_of a k) (map_of b k)"
    and "lm_wf (fst (cm_merge vmerge vempty vdef a b s o'))"
proof -
  obtain a' b' where r: "cm_retain vmerge vempty a b s o' = (a', b')"
    by force
  note p = cm_retain_props [OF assms, of vmerge vempty s o', unfolded r fst_conv snd_conv]
  have wf: "lm_wf a'" "lm_wf b'"
    using p by blast+
  show "lm_wf (fst (cm_merge vmerge vempty vdef a b s o'))"
    using cm_drain_props [OF wf(2), of vmerge vempty vdef s o' a'] wf(1) by (simp add: cm_merge_def r)
  show "map_of (fst (cm_merge vmerge vempty vdef a b s o')) k =
      cm_entry vmerge vempty vdef s o' (map_of a k) (map_of b k)"
    using cm_drain_props [OF wf(2), of vmerge vempty vdef s o' a' k] p [of k vdef]
    by (simp add: cm_merge_def r)
      (auto simp: cm_entry_def Let_def split: option.splits)
qed

lemma cm_merge_new: "fst (cm_merge vmerge vempty vdef m cm_new s o') = m"
proof -
  have "cm_retain vmerge vempty m [] s o' = (m, [])"
    by (induction m) auto
  then show ?thesis
    by (simp add: cm_merge_def cm_new_def)
qed

text \<open>The dots of a map, with their keys, and its invariant: no key has an empty value.\<close>

definition cm_dots :: "('v \<Rightarrow> dot set) \<Rightarrow> ('k, 'v) causal_map \<Rightarrow> ('k \<times> dot) set" where
  "cm_dots vdots m = {(k, d). \<exists>x. map_of m k = Some x \<and> d \<in> vdots x}"

definition cm_at :: "('v \<Rightarrow> dot set) \<Rightarrow> ('k, 'v) causal_map \<Rightarrow> 'k \<Rightarrow> dot set" where
  "cm_at vdots m k = (case map_of m k of Some x \<Rightarrow> vdots x | None \<Rightarrow> {})"

definition cm_wf :: "('v \<Rightarrow> bool) \<Rightarrow> ('v \<Rightarrow> bool) \<Rightarrow> ('k, 'v) causal_map \<Rightarrow> bool" where
  "cm_wf vwf vempty m \<longleftrightarrow> lm_wf m \<and> list_all (\<lambda>(k, x). vwf x \<and> \<not> vempty x) m"

lemma cm_dots_at: "cm_dots vdots m = {(k, d). d \<in> cm_at vdots m k}"
  by (auto simp: cm_dots_def cm_at_def split: option.splits)

lemma cm_wf_lookup: "cm_wf vwf vempty m \<Longrightarrow> map_of m k = Some x \<Longrightarrow> vwf x \<and> \<not> vempty x"
  by (auto simp: cm_wf_def list_all_iff dest!: map_of_SomeD)

lemma cm_wfI:
  "lm_wf m \<Longrightarrow> (\<And>k x. map_of m k = Some x \<Longrightarrow> vwf x \<and> \<not> vempty x) \<Longrightarrow> cm_wf vwf vempty m"
  by (auto simp: cm_wf_def list_all_iff)

lemma cm_wf_update:
  "cm_wf vwf vempty m \<Longrightarrow> vwf x \<Longrightarrow> \<not> vempty x \<Longrightarrow> cm_wf vwf vempty (AList.update k x m)"
  by (rule cm_wfI) (auto simp: cm_wf_def lm_wf_update lm_simps list_all_iff split: if_splits dest!: map_of_SomeD)

lemma cm_wf_delete: "cm_wf vwf vempty m \<Longrightarrow> cm_wf vwf vempty (AList.delete k m)"
  by (rule cm_wfI) (auto simp: cm_wf_def lm_wf_delete lm_simps list_all_iff split: if_splits dest!: map_of_SomeD)

context causal_value
begin

lemma cm_merge_at:
  assumes "cm_wf wf is_empty a" "cm_wf wf is_empty b"
  shows "cm_at dots (fst (cm_merge merge is_empty def a b s o')) k =
    (if map_of b k = None then cm_at dots a k
     else causal_join (cm_at dots a k) (clock_dots s) (cm_at dots b k) (clock_dots o'))"
proof -
  have "lm_wf a" "lm_wf b"
    using assms by (simp_all add: cm_wf_def)
  note look = cm_merge_lookup(1) [OF this, of merge is_empty def s o' k]
  show ?thesis
  proof (cases "map_of a k")
    case None
    then show ?thesis
      using look cm_wf_lookup [OF assms(2), of k]
      by (auto simp: cm_at_def cm_entry_def dots_merge_def causal_join_def is_empty_iff wf_merge wf_def
          split: option.splits)
  next
    case (Some x)
    then show ?thesis
      using look cm_wf_lookup [OF assms(2), of k] cm_wf_lookup [OF assms(1) Some]
      by (auto simp: cm_at_def cm_entry_def dots_merge is_empty_iff wf_merge split: option.splits)
  qed
qed

lemma cm_merge_wf:
  assumes "cm_wf wf is_empty a" "cm_wf wf is_empty b"
  shows "cm_wf wf is_empty (fst (cm_merge merge is_empty def a b s o'))"
proof (rule cm_wfI)
  have l: "lm_wf a" "lm_wf b"
    using assms by (simp_all add: cm_wf_def)
  show "lm_wf (fst (cm_merge merge is_empty def a b s o'))"
    by (rule cm_merge_lookup(2) [OF l])
  fix k x
  assume "map_of (fst (cm_merge merge is_empty def a b s o')) k = Some x"
  then have "cm_entry merge is_empty def s o' (map_of a k) (map_of b k) = Some x"
    using cm_merge_lookup(1) [OF l, of merge is_empty def s o' k] by simp
  then show "wf x \<and> \<not> is_empty x"
    using cm_wf_lookup [OF assms(1), of k] cm_wf_lookup [OF assms(2), of k] wf_def
    by (auto simp: cm_entry_def wf_merge Let_def split: option.splits if_splits)
qed

text \<open>
  The merge is the causal join, key by key, exactly as far as \<^verbatim>\<open>other\<close> has the key or has seen
  none of its dots.
\<close>

lemma cm_merge_causal_iff:
  assumes "cm_wf wf is_empty a" "cm_wf wf is_empty b"
  shows "cm_at dots (fst (cm_merge merge is_empty def a b s o')) k =
      causal_join (cm_at dots a k) (clock_dots s) (cm_at dots b k) (clock_dots o') \<longleftrightarrow>
    map_of b k \<noteq> None \<or> cm_at dots a k \<inter> clock_dots o' = {}"
  unfolding cm_merge_at [OF assms]
  by (auto simp: causal_join_def cm_at_def [of dots b] split: option.splits)

text \<open>
  An entry that \<^verbatim>\<open>other\<close> has dropped is kept, whatever the clocks; the entries both have are
  unchanged.
\<close>

lemma cm_merge_delete_at:
  assumes "cm_wf wf is_empty a"
  shows "cm_at dots (fst (cm_merge merge is_empty def a (AList.delete x a) s o')) k = cm_at dots a k"
  unfolding cm_merge_at [OF assms cm_wf_delete [OF assms]]
  by (auto simp: lm_simps cm_at_def causal_join_def split: option.splits)

lemma cm_at_nonempty: "cm_wf wf is_empty a \<Longrightarrow> cm_at dots a k \<noteq> {} \<longleftrightarrow> k \<in> dom (map_of a)"
  using cm_wf_lookup [of wf is_empty a k] is_empty_iff
  by (cases "map_of a k") (auto simp: cm_at_def)

lemma cm_at_merge_subset:
  assumes "cm_wf wf is_empty a" "cm_wf wf is_empty b"
    and "cm_at dots a k \<subseteq> clock_dots s" "cm_at dots b k \<subseteq> clock_dots o'"
  shows "cm_at dots (fst (cm_merge merge is_empty def a b s o')) k \<subseteq> clock_dots s \<union> clock_dots o'"
  using assms(3,4) causal_join_subset [OF assms(3,4)] by (auto simp: cm_merge_at [OF assms(1,2)])

end

end
