(* ===== verification/Bitmapped_Version.thy ===== *)
theory Bitmapped_Version
  imports Clock_Interface
begin

text \<open>
  \<^verbatim>\<open>BitmappedVersion\<close> and \<^verbatim>\<open>BitmappedVersionDelta\<close> of \<^verbatim>\<open>version_vector.rs\<close>: the versions received from
  one node, as a base (all versions up to it were received) and a set of later versions (the
  \<^verbatim>\<open>RoaringTreemap\<close>, a set of 64-bit integers). \<open>bv_versions\<close> is the set of versions a value
  stands for, \<open>bv_wf\<close> its normal form. Additions are on 64-bit words and wrap around.
\<close>

unbundle bit_operations_syntax

record bitmapped_version =
  bv_base :: version
  bv_bitmap :: "version set"

definition bv_default :: bitmapped_version where
  "bv_default = \<lparr>bv_base = 0, bv_bitmap = {}\<rparr>"

definition int_to_bitmap :: "version \<Rightarrow> u32 \<Rightarrow> version set" where
  "int_to_bitmap b bits =
     (if bits \<noteq> 0
      then foldl (\<lambda>result i. if bits AND push_bit i 1 \<noteq> 0
                             then insert (b + 1 + of_nat i) result else result) {} [0..<32]
      else {})"

definition bv_new :: "version \<Rightarrow> u32 \<Rightarrow> bitmapped_version" where
  "bv_new b bits = \<lparr>bv_base = b, bv_bitmap = int_to_bitmap b bits\<rparr>"

text \<open>
  The loop of \<^verbatim>\<open>norm\<close>. It removes each version it has passed, which makes it structurally
  terminating; \<open>norm_loop_unfold\<close> below shows that it satisfies the source's loop equation
  on every set but the one of all \<open>2 ^ 64\<close> versions, where the source does not stop.
\<close>

function norm_loop :: "version \<Rightarrow> version set \<Rightarrow> version" where
  "norm_loop b bm = (if b + 1 \<in> bm then norm_loop (b + 1) (bm - {b + 1}) else b)"
  by pat_completeness auto
termination
  by (relation "measure (\<lambda>(b, bm). card bm)") (auto simp: card_gt_0_iff intro!: diff_less)

declare norm_loop.simps [simp del]

definition bv_norm :: "bitmapped_version \<Rightarrow> bitmapped_version" where
  "bv_norm bv =
     (let b = norm_loop (bv_base bv) (bv_bitmap bv)
      in \<lparr>bv_base = b, bv_bitmap = Set.filter (\<lambda>v. \<not> v < b + 1) (bv_bitmap bv)\<rparr>)"

definition bv_merge :: "bitmapped_version \<Rightarrow> bitmapped_version \<Rightarrow> bitmapped_version" where
  "bv_merge a b =
     bv_norm \<lparr>bv_base = (if bv_base a < bv_base b then bv_base b else bv_base a),
              bv_bitmap = bv_bitmap a \<union> bv_bitmap b\<rparr>"

definition bv_add :: "bitmapped_version \<Rightarrow> version \<Rightarrow> bool \<times> bitmapped_version" where
  "bv_add bv v =
     (if v = bv_base bv + 1 then (True, bv_norm (bv\<lparr>bv_base := bv_base bv + 1\<rparr>))
      else if bv_base bv < v then
        (if v \<in> bv_bitmap bv then (False, bv)
         else (True, bv_norm (bv\<lparr>bv_bitmap := insert v (bv_bitmap bv)\<rparr>)))
      else (False, bv))"

definition bv_add_all :: "bitmapped_version \<Rightarrow> version \<Rightarrow> bool \<times> bitmapped_version" where
  "bv_add_all bv v =
     (if bv_base bv < v then (True, bv_norm (bv\<lparr>bv_base := v\<rparr>)) else (False, bv))"

definition bitmap_max :: "version set \<Rightarrow> version option" where
  "bitmap_max bm = (if bm = {} then None else Some (Max bm))"

definition bv_fill_holes :: "bitmapped_version \<Rightarrow> bitmapped_version" where
  "bv_fill_holes bv =
     \<lparr>bv_base = (case bitmap_max (bv_bitmap bv) of Some m \<Rightarrow> m | None \<Rightarrow> 0), bv_bitmap = {}\<rparr>"

definition bv_contains :: "bitmapped_version \<Rightarrow> version \<Rightarrow> bool" where
  "bv_contains bv v \<longleftrightarrow> v \<le> bv_base bv \<or> v \<in> bv_bitmap bv"

definition bv_contains_all :: "bitmapped_version \<Rightarrow> version \<Rightarrow> bool" where
  "bv_contains_all bv v \<longleftrightarrow> v \<le> bv_base bv"

subsection \<open>The delta iterator\<close>

record bv_delta_iter =
  bvd_from :: bitmapped_version
  bvd_to :: bitmapped_version
  bvd_pos :: version
  bvd_len :: version

definition bv_delta :: "bitmapped_version \<Rightarrow> bitmapped_version \<Rightarrow> bv_delta_iter" where
  "bv_delta self other =
     (if bv_base self < bv_base other
      then \<lparr>bvd_from = bv_default, bvd_to = bv_default, bvd_pos = 0, bvd_len = 0\<rparr>
      else
        (let last_version =
           max (case bitmap_max (bv_bitmap self) of Some m \<Rightarrow> m | None \<Rightarrow> 0) (bv_base self)
         in \<lparr>bvd_from = other, bvd_to = self, bvd_pos = 0,
             bvd_len = last_version - bv_base other\<rparr>))"

function bvd_next :: "bv_delta_iter \<Rightarrow> version option \<times> bv_delta_iter" where
  "bvd_next d =
     (if bvd_pos d < bvd_len d then
        (let d' = d\<lparr>bvd_pos := bvd_pos d + 1\<rparr>; v = bv_base (bvd_from d') + bvd_pos d'
         in if v \<notin> bv_bitmap (bvd_from d') \<and> bv_contains (bvd_to d') v then (Some v, d')
            else bvd_next d')
      else (None, d))"
  by pat_completeness auto
termination
  by (relation "measure (\<lambda>d. unat (bvd_len d) - unat (bvd_pos d))")
    (auto simp: word_succ_unat word_less_nat_alt)

declare bvd_next.simps [simp del]

definition bvd_size_hint :: "bv_delta_iter \<Rightarrow> version" where
  "bvd_size_hint d = bvd_len d - bvd_pos d"

lemma bvd_next_frame:
  "bvd_from (snd (bvd_next d)) = bvd_from d \<and> bvd_to (snd (bvd_next d)) = bvd_to d \<and>
   bvd_len (snd (bvd_next d)) = bvd_len d"
proof (induction d rule: bvd_next.induct)
  case (1 d)
  then show ?case
    by (subst (1 2 3) bvd_next.simps) (auto simp: Let_def)
qed

lemma bvd_next_pos:
  "fst (bvd_next d) = Some v \<Longrightarrow>
     bvd_pos d < bvd_pos (snd (bvd_next d)) \<and> bvd_pos (snd (bvd_next d)) \<le> bvd_len d"
proof (induction d rule: bvd_next.induct)
  case (1 d)
  show ?case
  proof (cases "bvd_pos d < bvd_len d")
    case True
    then have "bvd_pos d < bvd_pos d + 1" and "bvd_pos d + 1 \<le> bvd_len d"
      by (simp_all add: word_succ_unat word_less_nat_alt inc_le)
    then show ?thesis
      using 1 True by (subst (1 2) bvd_next.simps) (auto simp: Let_def bvd_next.simps [of d] intro: less_trans)
  next
    case False
    with "1.prems" show ?thesis
      by (simp add: bvd_next.simps [of d])
  qed
qed

text \<open>The versions an iterator yields until it is exhausted (\<^verbatim>\<open>collect\<close>, or a \<^verbatim>\<open>for\<close> loop).\<close>

function bvd_collect :: "bv_delta_iter \<Rightarrow> version list" where
  "bvd_collect d = (case bvd_next d of (None, _) \<Rightarrow> [] | (Some v, d') \<Rightarrow> v # bvd_collect d')"
  by pat_completeness auto
termination
proof (relation "measure (\<lambda>d. unat (bvd_len d) - unat (bvd_pos d))")
  fix d :: bv_delta_iter and o' d' v
  assume "(o', d') = bvd_next d" and "o' = Some v"
  then have "fst (bvd_next d) = Some v" and d': "d' = snd (bvd_next d)"
    by (metis fst_conv, metis snd_conv)
  then have "bvd_pos d < bvd_pos d' \<and> bvd_pos d' \<le> bvd_len d'"
    using bvd_next_pos bvd_next_frame by metis
  then show "(d', d) \<in> measure (\<lambda>d. unat (bvd_len d) - unat (bvd_pos d))"
    using bvd_next_frame [of d] d' by (simp add: word_less_nat_alt word_le_nat_alt diff_less_mono2)
qed simp

declare bvd_collect.simps [simp del]

section \<open>The versions of a bitmapped version\<close>

definition bv_versions :: "bitmapped_version \<Rightarrow> version set" where
  "bv_versions bv = {v. v \<le> bv_base bv} \<union> bv_bitmap bv"

text \<open>
  Normal form: the bitmap holds only versions beyond the first missing one, and the greatest
  64-bit version, after which the base would wrap around, has not been reached.
\<close>

definition bv_wf :: "bitmapped_version \<Rightarrow> bool" where
  "bv_wf bv \<longleftrightarrow>
     bv_base bv \<noteq> - 1 \<and> - 1 \<notin> bv_bitmap bv \<and> bv_base bv + 1 \<notin> bv_bitmap bv \<and>
     (\<forall>v\<in>bv_bitmap bv. bv_base bv < v)"

lemma bv_contains_versions: "bv_contains bv v \<longleftrightarrow> v \<in> bv_versions bv"
  by (simp add: bv_contains_def bv_versions_def)

lemma bv_wf_default [simp]: "bv_wf bv_default"
  by (simp add: bv_wf_def bv_default_def)

lemma bv_versions_default [simp]: "bv_versions bv_default = {0}"
  by (auto simp: bv_versions_def bv_default_def)

lemma not_max_succ_nonzero: "(b :: version) \<noteq> - 1 \<Longrightarrow> b + 1 \<noteq> 0"
  by (metis add.commute add_eq_0_iff)

text \<open>The loop of \<^verbatim>\<open>norm\<close> stops at the first version missing above the base.\<close>

lemma norm_loop_props:
  assumes "0 \<notin> bm"
  shows "b \<le> norm_loop b bm \<and> (\<forall>v. b < v \<and> v \<le> norm_loop b bm \<longrightarrow> v \<in> bm) \<and>
         norm_loop b bm + 1 \<notin> bm"
  using assms
proof (induction b bm rule: norm_loop.induct)
  case (1 b bm)
  show ?case
  proof (cases "b + 1 \<in> bm")
    case True
    let ?r = "norm_loop (b + 1) (bm - {b + 1})"
    from True "1.prems" have nz: "b + 1 \<noteq> 0"
      by metis
    have IH: "b + 1 \<le> ?r" "\<And>v. b + 1 < v \<Longrightarrow> v \<le> ?r \<Longrightarrow> v \<in> bm" "?r + 1 \<notin> bm - {b + 1}"
      using "1.IH" [OF True] "1.prems" by auto
    have "b < ?r"
      using IH(1) word_less_succ [OF nz] by simp
    then have "?r + 1 \<noteq> b + 1"
      by simp
    moreover have "v \<in> bm" if "b < v" "v \<le> ?r" for v
      using that True IH(2) [of v] word_succ_le_less [OF nz, of v]
      by (cases "v = b + 1") (auto simp: order.order_iff_strict)
    ultimately show ?thesis
      using True IH(3) \<open>b < ?r\<close> by (auto simp: norm_loop.simps [of b bm])
  next
    case False
    then show ?thesis
      by (auto simp: norm_loop.simps [of b bm])
  qed
qed

lemma norm_loop_mono_remove: "x \<le> b \<Longrightarrow> 0 \<notin> bm \<Longrightarrow> norm_loop b (bm - {x}) = norm_loop b bm"
proof (induction b bm arbitrary: x rule: norm_loop.induct)
  case (1 b bm)
  show ?case
  proof (cases "b + 1 \<in> bm")
    case True
    with "1.prems" have "b < b + 1"
      by (metis word_less_succ)
    with "1.prems" have x: "x \<noteq> b + 1" "x \<le> b + 1"
      by auto
    have swap: "bm - {x} - {b + 1} = bm - {b + 1} - {x}"
      by auto
    have "norm_loop b (bm - {x}) = norm_loop (b + 1) (bm - {b + 1} - {x})"
      using True x(1) by (simp add: norm_loop.simps [of b "bm - {x}"] swap)
    also have "\<dots> = norm_loop (b + 1) (bm - {b + 1})"
      using "1.IH" [OF True x(2)] "1.prems" by simp
    finally show ?thesis
      using True by (simp add: norm_loop.simps [of b bm])
  next
    case False
    then show ?thesis
      by (simp add: norm_loop.simps [of b bm] norm_loop.simps [of b "bm - {x}"])
  qed
qed

lemma norm_loop_unfold:
  "0 \<notin> bm \<Longrightarrow> norm_loop b bm = (if b + 1 \<in> bm then norm_loop (b + 1) bm else b)"
  by (subst norm_loop.simps) (simp add: norm_loop_mono_remove)

lemma bv_norm_props:
  assumes "0 \<notin> bv_bitmap bv" "- 1 \<notin> bv_bitmap bv" "bv_base bv \<noteq> - 1"
  shows "bv_versions (bv_norm bv) = bv_versions bv" and "bv_wf (bv_norm bv)"
proof -
  let ?r = "norm_loop (bv_base bv) (bv_bitmap bv)"
  have p: "bv_base bv \<le> ?r" "\<And>v. bv_base bv < v \<Longrightarrow> v \<le> ?r \<Longrightarrow> v \<in> bv_bitmap bv"
    "?r + 1 \<notin> bv_bitmap bv"
    using norm_loop_props [OF assms(1), of "bv_base bv"] by auto
  have r: "?r \<noteq> - 1"
    using p(1) p(2) [of ?r] assms(2,3) by (metis order.order_iff_strict order.refl)
  have nz: "?r + 1 \<noteq> 0"
    using not_max_succ_nonzero [OF r] .
  have lt: "v < ?r + 1 \<longleftrightarrow> v \<le> ?r" for v
    using word_succ_le_less [OF nz, of v] by (metis not_le)
  show "bv_versions (bv_norm bv) = bv_versions bv"
    using p(1) p(2) lt by (auto simp: bv_norm_def bv_versions_def Let_def) (meson leI order_trans)+
  show "bv_wf (bv_norm bv)"
    using r p(3) assms(2) by (auto simp: bv_norm_def bv_wf_def Let_def lt)
qed

lemma bv_wf_zero: "bv_wf bv \<Longrightarrow> 0 \<notin> bv_bitmap bv"
  by (auto simp: bv_wf_def)

subsection \<open>Every operation keeps the normal form and refines its set operation\<close>

lemma bv_merge_props:
  assumes "bv_wf a" "bv_wf b"
  shows "bv_versions (bv_merge a b) = bv_versions a \<union> bv_versions b" and "bv_wf (bv_merge a b)"
proof -
  let ?m = "\<lparr>bv_base = (if bv_base a < bv_base b then bv_base b else bv_base a),
              bv_bitmap = bv_bitmap a \<union> bv_bitmap b\<rparr>"
  have "0 \<notin> bv_bitmap ?m" "- 1 \<notin> bv_bitmap ?m" "bv_base ?m \<noteq> - 1"
    using assms bv_wf_zero by (auto simp: bv_wf_def)
  from bv_norm_props [OF this] show "bv_wf (bv_merge a b)"
    and "bv_versions (bv_merge a b) = bv_versions a \<union> bv_versions b"
    by (auto simp: bv_merge_def bv_versions_def)
qed

lemma bv_add_props:
  assumes "bv_wf bv" "v \<noteq> - 1"
  shows "bv_versions (snd (bv_add bv v)) = insert v (bv_versions bv)"
    and "bv_wf (snd (bv_add bv v))"
    and "fst (bv_add bv v) \<longleftrightarrow> v \<notin> bv_versions bv"
proof -
  have nz: "bv_base bv + 1 \<noteq> 0"
    using assms(1) by (simp add: bv_wf_def not_max_succ_nonzero)
  note z = bv_wf_zero [OF assms(1)]
  consider (succ) "v = bv_base bv + 1" | (old) "v \<le> bv_base bv" "v \<noteq> bv_base bv + 1"
    | (dup) "bv_base bv < v" "v \<noteq> bv_base bv + 1" "v \<in> bv_bitmap bv"
    | (gap) "bv_base bv < v" "v \<noteq> bv_base bv + 1" "v \<notin> bv_bitmap bv"
    by (metis not_le)
  then have "bv_versions (snd (bv_add bv v)) = insert v (bv_versions bv) \<and>
    bv_wf (snd (bv_add bv v)) \<and> (fst (bv_add bv v) \<longleftrightarrow> v \<notin> bv_versions bv)"
  proof cases
    case succ
    let ?m = "bv\<lparr>bv_base := bv_base bv + 1\<rparr>"
    have "0 \<notin> bv_bitmap ?m" "- 1 \<notin> bv_bitmap ?m" "bv_base ?m \<noteq> - 1"
      using assms z succ by (auto simp: bv_wf_def)
    note n = bv_norm_props [OF this]
    have "bv_versions ?m = insert v (bv_versions bv)"
      using succ by (auto simp: bv_versions_def word_le_succ_iff [OF nz])
    moreover have "v \<notin> bv_versions bv"
      using succ assms(1) word_less_succ [OF nz] by (auto simp: bv_versions_def bv_wf_def)
    ultimately show ?thesis
      using n succ by (simp add: bv_add_def)
  next
    case old
    then show ?thesis
      using assms(1) by (auto simp: bv_add_def bv_versions_def)
  next
    case dup
    then show ?thesis
      using assms(1) by (auto simp: bv_add_def bv_versions_def)
  next
    case gap
    let ?m = "bv\<lparr>bv_bitmap := insert v (bv_bitmap bv)\<rparr>"
    have "0 \<notin> bv_bitmap ?m" "- 1 \<notin> bv_bitmap ?m" "bv_base ?m \<noteq> - 1"
      using assms z gap by (auto simp: bv_wf_def)
    note n = bv_norm_props [OF this]
    show ?thesis
      using n gap by (auto simp: bv_add_def bv_versions_def)
  qed
  then show "bv_versions (snd (bv_add bv v)) = insert v (bv_versions bv)"
    and "bv_wf (snd (bv_add bv v))"
    and "fst (bv_add bv v) \<longleftrightarrow> v \<notin> bv_versions bv"
    by blast+
qed

lemma bv_add_all_props:
  assumes "bv_wf bv" "v \<noteq> - 1"
  shows "bv_versions (snd (bv_add_all bv v)) = bv_versions bv \<union> {w. w \<le> v}"
    and "bv_wf (snd (bv_add_all bv v))"
proof -
  let ?m = "bv\<lparr>bv_base := v\<rparr>"
  have "0 \<notin> bv_bitmap ?m" "- 1 \<notin> bv_bitmap ?m" "bv_base ?m \<noteq> - 1"
    using assms bv_wf_zero by (auto simp: bv_wf_def)
  note n = bv_norm_props [OF this]
  show "bv_wf (snd (bv_add_all bv v))"
    using n assms(1) by (simp add: bv_add_all_def)
  show "bv_versions (snd (bv_add_all bv v)) = bv_versions bv \<union> {w. w \<le> v}"
  proof (cases "bv_base bv < v")
    case True
    then have "bv_versions ?m = bv_versions bv \<union> {w. w \<le> v}"
      by (auto simp: bv_versions_def)
    with True n(1) show ?thesis
      by (simp add: bv_add_all_def)
  next
    case False
    then show ?thesis
      by (auto simp: bv_add_all_def bv_versions_def)
  qed
qed

text \<open>The normal form is canonical: one representation for each set of versions.\<close>

lemma bv_versions_inj:
  assumes "bv_wf a" "bv_wf b" "bv_versions a = bv_versions b"
  shows "a = b"
proof -
  have no: "\<not> bv_base x < bv_base y"
    if "bv_wf x" "bv_versions x = bv_versions y" for x y :: bitmapped_version
  proof
    assume lt: "bv_base x < bv_base y"
    have nz: "bv_base x + 1 \<noteq> 0"
      using that(1) by (simp add: bv_wf_def not_max_succ_nonzero)
    have "bv_base x + 1 \<in> bv_versions y"
      using inc_le [OF lt] by (simp add: bv_versions_def)
    then have "bv_base x + 1 \<in> bv_versions x"
      using that(2) by simp
    then show False
      using that(1) word_less_succ [OF nz] by (auto simp: bv_versions_def bv_wf_def)
  qed
  have base: "bv_base a = bv_base b"
    using no [OF assms(1) assms(3)] no [OF assms(2) assms(3) [symmetric]] by simp
  have bm: "bv_bitmap x = {v \<in> bv_versions x. bv_base x < v}" if "bv_wf x"
    for x :: bitmapped_version
    using that by (auto simp: bv_versions_def bv_wf_def)
  have "bv_bitmap a = bv_bitmap b"
    using bm [OF assms(1)] bm [OF assms(2)] by (simp add: base assms(3))
  with base show ?thesis
    by simp
qed

subsection \<open>The delta iterator yields the set difference, in ascending order\<close>

lemma bvd_collect_unfold:
  "bvd_collect d =
     (if bvd_pos d < bvd_len d then
        (let d' = d\<lparr>bvd_pos := bvd_pos d + 1\<rparr>; v = bv_base (bvd_from d) + (bvd_pos d + 1)
         in if v \<notin> bv_bitmap (bvd_from d) \<and> bv_contains (bvd_to d) v then v # bvd_collect d'
            else bvd_collect d')
      else [])"
  by (subst bvd_collect.simps, subst bvd_next.simps)
    (simp add: Let_def bvd_collect.simps [of "d\<lparr>bvd_pos := bvd_pos d + 1\<rparr>"])

lemma bvd_collect_filter:
  "bvd_collect d =
     filter (\<lambda>v. v \<notin> bv_bitmap (bvd_from d) \<and> bv_contains (bvd_to d) v)
       (map (\<lambda>k. bv_base (bvd_from d) + of_nat k) [Suc (unat (bvd_pos d))..<Suc (unat (bvd_len d))])"
proof (induction "unat (bvd_len d) - unat (bvd_pos d)" arbitrary: d)
  case 0
  then show ?case
    by (subst bvd_collect_unfold) (simp add: word_less_nat_alt)
next
  case (Suc n)
  let ?d = "d\<lparr>bvd_pos := bvd_pos d + 1\<rparr>"
  have lt: "bvd_pos d < bvd_len d"
    using Suc.hyps(2) by (simp add: word_less_nat_alt)
  then have u: "unat (bvd_pos d + 1) = Suc (unat (bvd_pos d))"
    by (rule word_succ_unat)
  have "of_nat (Suc (unat (bvd_pos d))) = bvd_pos d + 1"
    by (simp add: add.commute)
  moreover have "[Suc (unat (bvd_pos d))..<Suc (unat (bvd_len d))] =
    Suc (unat (bvd_pos d)) # [Suc (Suc (unat (bvd_pos d)))..<Suc (unat (bvd_len d))]"
    using lt by (simp add: upt_conv_Cons word_less_nat_alt del: upt_Suc)
  moreover have "bvd_collect ?d =
    filter (\<lambda>v. v \<notin> bv_bitmap (bvd_from d) \<and> bv_contains (bvd_to d) v)
      (map (\<lambda>k. bv_base (bvd_from d) + of_nat k)
        [Suc (Suc (unat (bvd_pos d)))..<Suc (unat (bvd_len d))])"
    using Suc.hyps(1) [of ?d] Suc.hyps(2) u by simp
  ultimately show ?case
    using lt by (subst bvd_collect_unfold) (simp add: Let_def add.commute [of 1] del: upt_Suc)
qed

text \<open>
  The iterator runs over the versions from the peer's base to the last version of \<^verbatim>\<open>self\<close>; no
  sum wraps around there, so the list is strictly ascending.
\<close>

lemma bv_delta_collect:
  assumes "\<not> bv_base a < bv_base b"
  shows "bvd_collect (bv_delta a b) =
    filter (\<lambda>v. v \<notin> bv_bitmap b \<and> bv_contains a v)
      (map of_nat [Suc (unat (bv_base b))..<
        Suc (unat (max (case bitmap_max (bv_bitmap a) of Some m \<Rightarrow> m | None \<Rightarrow> 0) (bv_base a)))])"
proof -
  let ?last = "max (case bitmap_max (bv_bitmap a) of Some m \<Rightarrow> m | None \<Rightarrow> 0) (bv_base a)"
  have le: "bv_base b \<le> ?last"
    using assms by (meson max.coboundedI2 not_le)
  have sub: "unat (?last - bv_base b) = unat ?last - unat (bv_base b)"
    using le by (simp add: unat_sub)
  have ge: "unat (bv_base b) \<le> unat ?last"
    using le by (simp add: word_le_nat_alt)
  have "map (\<lambda>k. bv_base b + of_nat k) [Suc 0..<Suc (unat ?last - unat (bv_base b))]
      = map of_nat (map (\<lambda>k. k + unat (bv_base b)) [Suc 0..<Suc (unat ?last - unat (bv_base b))])"
    by (simp add: add.commute)
  also have "\<dots> = map of_nat [Suc (unat (bv_base b))..<Suc (unat ?last)]"
    using ge by (simp add: map_add_upt_from del: upt_Suc)
  finally show ?thesis
    using assms sub by (simp add: bvd_collect_filter bv_delta_def Let_def del: upt_Suc)
qed

lemma bitmap_max_ge: "v \<in> bm \<Longrightarrow> v \<le> (case bitmap_max bm of Some m \<Rightarrow> m | None \<Rightarrow> 0)"
  by (auto simp: bitmap_max_def)

lemma bv_delta_props:
  shows "set (bvd_collect (bv_delta a b)) =
      (if bv_base a < bv_base b then {} else bv_versions a - bv_versions b)"
    and "sorted_wrt (<) (bvd_collect (bv_delta a b))"
proof -
  let ?last = "max (case bitmap_max (bv_bitmap a) of Some m \<Rightarrow> m | None \<Rightarrow> 0) (bv_base a)"
  have empty: "bvd_collect (bv_delta a b) = []" if "bv_base a < bv_base b"
    using that by (subst bvd_collect_unfold) (simp add: bv_delta_def)
  have last: "v \<le> ?last" if "bv_contains a v" for v
    using that bitmap_max_ge [of v "bv_bitmap a"] by (auto simp: bv_contains_def le_max_iff_disj)
  have range: "v \<in> of_nat ` {Suc (unat (bv_base b))..<Suc (unat ?last)} \<longleftrightarrow> bv_base b < v \<and> v \<le> ?last"
    for v :: version
  proof
    assume "v \<in> of_nat ` {Suc (unat (bv_base b))..<Suc (unat ?last)}"
    then obtain k where "v = of_nat k" "unat (bv_base b) < k" "k \<le> unat ?last"
      by auto
    moreover from this have "unat v = k"
      using unat_bound64 [of ?last] by (simp add: unat_of_nat)
    ultimately show "bv_base b < v \<and> v \<le> ?last"
      by (simp add: word_less_nat_alt word_le_nat_alt)
  next
    assume "bv_base b < v \<and> v \<le> ?last"
    then show "v \<in> of_nat ` {Suc (unat (bv_base b))..<Suc (unat ?last)}"
      by (intro image_eqI [of _ _ "unat v"]) (auto simp: word_less_nat_alt word_le_nat_alt)
  qed
  show "set (bvd_collect (bv_delta a b)) =
      (if bv_base a < bv_base b then {} else bv_versions a - bv_versions b)"
  proof (cases "bv_base a < bv_base b")
    case False
    have "set (bvd_collect (bv_delta a b)) =
      {v. bv_base b < v \<and> v \<le> ?last \<and> v \<notin> bv_bitmap b \<and> bv_contains a v}"
      using range by (auto simp: bv_delta_collect [OF False] simp del: upt_Suc)
    with False last show ?thesis
      by (auto simp: bv_contains_versions bv_versions_def)
  qed (simp add: empty)
  have "sorted_wrt (<) (map of_nat [Suc (unat (bv_base b))..<Suc (unat ?last)] :: version list)"
    unfolding sorted_wrt_map
  proof (rule sorted_wrt_mono_rel [OF _ sorted_wrt_upt])
    fix x y
    assume "x \<in> set [Suc (unat (bv_base b))..<Suc (unat ?last)]"
      "y \<in> set [Suc (unat (bv_base b))..<Suc (unat ?last)]" "x < y"
    then show "(of_nat x :: version) < of_nat y"
      using unat_bound64 [of ?last] by (auto simp: word_less_nat_alt unat_of_nat)
  qed
  then show "sorted_wrt (<) (bvd_collect (bv_delta a b))"
    using empty by (cases "bv_base a < bv_base b") (simp_all add: bv_delta_collect sorted_wrt_filter)
qed

section \<open>Properties\<close>

text \<open>
  C21: Merging two bitmapped versions keeps the representation invariant and contains exactly the
  versions of either.
\<close>

theorem bv_merge_union:
  assumes "bv_wf a" "bv_wf b"
  shows "bv_wf (bv_merge a b) \<and> bv_versions (bv_merge a b) = bv_versions a \<union> bv_versions b"
  using bv_merge_props [OF assms] by blast

theorem bv_merge_union_witness:
  "bv_wf (bv_merge \<lparr>bv_base = 1, bv_bitmap = {4}\<rparr> \<lparr>bv_base = 2, bv_bitmap = {}\<rparr>) \<and>
   bv_versions (bv_merge \<lparr>bv_base = 1, bv_bitmap = {4}\<rparr> \<lparr>bv_base = 2, bv_bitmap = {}\<rparr>) =
     bv_versions \<lparr>bv_base = 1, bv_bitmap = {4}\<rparr> \<union> bv_versions \<lparr>bv_base = 2, bv_bitmap = {}\<rparr>"
  by (rule bv_merge_union) (simp_all add: bv_wf_def)

text \<open>
  The delta iterator of two bitmapped versions yields, in increasing order, the versions of the
  first that the second lacks, unless the base of the first is behind the base of the second:
  then it yields nothing, even when the bitmap of the first holds versions the second lacks.
\<close>

theorem bv_delta_missing:
  "set (bvd_collect (bv_delta a b)) =
     (if bv_base a < bv_base b then {} else bv_versions a - bv_versions b) \<and>
   sorted_wrt (<) (bvd_collect (bv_delta a b))"
  using bv_delta_props by blast

end
