(* ===== verification/Bitmapped_Version_Vector.thy ===== *)
theory Bitmapped_Version_Vector
  imports Bitmapped_Version Version_Vector
begin

text \<open>
  \<^verbatim>\<open>BitmappedVersionVector\<close> and \<^verbatim>\<open>BitmappedVersionVectorDelta\<close> of \<^verbatim>\<open>version_vector.rs\<close>: one bitmapped
  version for each node id. \<open>bvv_dots\<close> is the set of dots a vector stands for, \<open>bvv_wf\<close> its
  invariant. A delta is modelled by the list of dots its iterator yields and by the list of
  the first version it yields for each id.
\<close>

type_synonym bvv = "(id \<times> bitmapped_version) list"

definition bvv_new :: bvv where
  "bvv_new = []"

definition bvv_clear :: "bvv \<Rightarrow> bvv" where
  "bvv_clear b = []"

definition bvv_from_version :: "id \<Rightarrow> bitmapped_version \<Rightarrow> bvv" where
  "bvv_from_version i bv = AList.update i bv bvv_new"

text \<open>
  \<^verbatim>\<open>entry_or_default\<close> hands out a mutable reference to the entry of an id, created if missing;
  its value here, written back by the operations that change it.
\<close>

definition bvv_entry_or_default :: "bvv \<Rightarrow> id \<Rightarrow> bitmapped_version" where
  "bvv_entry_or_default b i = (case map_of b i of Some bv \<Rightarrow> bv | None \<Rightarrow> bv_default)"

definition bvv_add :: "bvv \<Rightarrow> id \<Rightarrow> version \<Rightarrow> bool \<times> bvv" where
  "bvv_add b i v =
     (let (added, bv) = bv_add (bvv_entry_or_default b i) v in (added, AList.update i bv b))"

definition bvv_add_all :: "bvv \<Rightarrow> id \<Rightarrow> version \<Rightarrow> bool \<times> bvv" where
  "bvv_add_all b i v =
     (let (added, bv) = bv_add_all (bvv_entry_or_default b i) v in (added, AList.update i bv b))"

definition bvv_add_bv :: "bvv \<Rightarrow> id \<Rightarrow> bitmapped_version \<Rightarrow> bvv" where
  "bvv_add_bv b i bv = AList.update i (bv_merge (bvv_entry_or_default b i) bv) b"

definition bvv_get :: "bvv \<Rightarrow> id \<Rightarrow> bitmapped_version option" where
  "bvv_get b i = map_of b i"

definition bvv_merge :: "bvv \<Rightarrow> bvv \<Rightarrow> bvv" where
  "bvv_merge a b =
     foldl (\<lambda>a (i, other_bv). case map_of a i of
         None \<Rightarrow> AList.update i other_bv a
       | Some bv \<Rightarrow> AList.update i (bv_merge bv other_bv) a) a b"

definition bvv_event :: "bvv \<Rightarrow> id \<Rightarrow> version \<times> bvv" where
  "bvv_event b i =
     (case map_of b i of
        None \<Rightarrow> (1, AList.update i (bv_new 1 0) b)
      | Some bv \<Rightarrow> (bv_base bv + 1, AList.update i (bv\<lparr>bv_base := bv_base bv + 1\<rparr>) b))"

definition bvv_contains :: "bvv \<Rightarrow> id \<Rightarrow> version \<Rightarrow> bool" where
  "bvv_contains b i v = (case bvv_get b i of None \<Rightarrow> False | Some bv \<Rightarrow> bv_contains bv v)"

definition bvv_contains_all :: "bvv \<Rightarrow> id \<Rightarrow> version \<Rightarrow> bool" where
  "bvv_contains_all b i v = (case bvv_get b i of None \<Rightarrow> False | Some bv \<Rightarrow> bv_contains_all bv v)"

definition bvv_clone_if :: "(id \<Rightarrow> bool) \<Rightarrow> bvv \<Rightarrow> bvv" where
  "bvv_clone_if cond b =
     foldl (\<lambda>result (i, bv). if cond i then bvv_add_bv result i bv else result) bvv_new b"

definition bvv_delta :: "bvv \<Rightarrow> bvv \<Rightarrow> dot list" where
  "bvv_delta self other =
     concat (map (\<lambda>(i, bv).
       let other_bv = (case bvv_get other i of Some x \<Rightarrow> x | None \<Rightarrow> bv_new 0 0)
       in map (\<lambda>v. (i, v)) (bvd_collect (bv_delta bv other_bv))) self)"

definition bvv_delta_min_versions :: "bvv \<Rightarrow> bvv \<Rightarrow> dot list" where
  "bvv_delta_min_versions self other =
     List.map_filter (\<lambda>(i, bv).
       case bvv_get other i of
         Some other_bv \<Rightarrow> map_option (\<lambda>v. (i, v)) (fst (bvd_next (bv_delta bv other_bv)))
       | None \<Rightarrow> Some (i, 1)) self"

text \<open>\<^verbatim>\<open>VersionVector::contained\<close>.\<close>

definition vv_contained :: "version_vector \<Rightarrow> bvv \<Rightarrow> bool" where
  "vv_contained vv b = list_all (\<lambda>(i, v). bvv_contains_all b i v) vv"

section \<open>The dots of a bitmapped version vector\<close>

definition bvv_wf :: "bvv \<Rightarrow> bool" where
  "bvv_wf b \<longleftrightarrow> lm_wf b \<and> list_all (\<lambda>(i, bv). bv_wf bv) b"

definition bvv_dots :: "bvv \<Rightarrow> dot set" where
  "bvv_dots b = {(i, v). bvv_contains b i v}"

lemma bvv_dots_iff:
  "(i, v) \<in> bvv_dots b \<longleftrightarrow> (\<exists>bv. map_of b i = Some bv \<and> v \<in> bv_versions bv)"
  by (auto simp: bvv_dots_def bvv_contains_def bvv_get_def bv_contains_versions split: option.splits)

lemma bvv_contains_dots: "bvv_contains b i v \<longleftrightarrow> (i, v) \<in> bvv_dots b"
  by (simp add: bvv_dots_def)

lemma bvv_wf_new [simp]: "bvv_wf bvv_new"
  by (simp add: bvv_wf_def bvv_new_def)

lemma bvv_dots_new [simp]: "bvv_dots bvv_new = {}"
  by (auto simp: bvv_dots_iff bvv_new_def)

lemma bvv_wf_lookup: "bvv_wf b \<Longrightarrow> map_of b i = Some bv \<Longrightarrow> bv_wf bv"
  by (auto simp: bvv_wf_def list_all_iff dest: map_of_SomeD)

lemma bvv_wf_entry: "bvv_wf b \<Longrightarrow> bv_wf (bvv_entry_or_default b i)"
  by (auto simp: bvv_entry_or_default_def bvv_wf_lookup split: option.splits)

lemma bvv_wf_update: "bvv_wf b \<Longrightarrow> bv_wf bv \<Longrightarrow> bvv_wf (AList.update i bv b)"
  by (auto simp: bvv_wf_def list_all_iff lm_wf_update set_update_wf simp del: update_Some_unfold)

lemma bvv_dots_update:
  "bvv_dots (AList.update i bv b) =
     {p \<in> bvv_dots b. fst p \<noteq> i} \<union> {(j, v). j = i \<and> v \<in> bv_versions bv}"
  by (auto simp: bvv_dots_iff lm_simps split: if_splits)

lemma bvv_dots_entry:
  "bv_versions (bvv_entry_or_default b i) = insert 0 {v. (i, v) \<in> bvv_dots b}"
  by (auto simp: bvv_dots_iff bvv_entry_or_default_def bv_versions_def split: option.splits)
    (auto simp: bv_default_def)

lemma bvv_dots_update_insert:
  assumes "bv_versions bv = insert v (bv_versions (bvv_entry_or_default b i))"
  shows "bvv_dots (AList.update i bv b) = bvv_dots b \<union> {(i, 0), (i, v)}"
  unfolding bvv_dots_update assms bvv_dots_entry by auto

lemma bvv_dots_update_union:
  assumes "map_of b i = Some bv'" "bv_versions bv = bv_versions bv' \<union> V"
  shows "bvv_dots (AList.update i bv b) = bvv_dots b \<union> {(j, w). j = i \<and> w \<in> V}"
  unfolding bvv_dots_update assms(2) using assms(1) by (auto simp: bvv_dots_iff)

subsection \<open>Additions, merge and the clock contract\<close>

lemma bvv_add_props:
  assumes "bvv_wf b" "v \<noteq> - 1"
  shows "bvv_wf (snd (bvv_add b i v))"
    and "bvv_dots (snd (bvv_add b i v)) = bvv_dots b \<union> {(i, 0), (i, v)}"
    and "fst (bvv_add b i v) \<longleftrightarrow> v \<noteq> 0 \<and> (i, v) \<notin> bvv_dots b"
proof -
  note p = bv_add_props [OF bvv_wf_entry [OF assms(1)] assms(2), of i]
  show "bvv_wf (snd (bvv_add b i v))"
    using p(2) assms(1) by (auto simp: bvv_add_def bvv_wf_update split: prod.splits)
  have "snd (bvv_add b i v) = AList.update i (snd (bv_add (bvv_entry_or_default b i) v)) b"
    by (simp add: bvv_add_def split: prod.splits)
  then show "bvv_dots (snd (bvv_add b i v)) = bvv_dots b \<union> {(i, 0), (i, v)}"
    by (auto simp: bvv_dots_update p(1) bvv_dots_entry)
  show "fst (bvv_add b i v) \<longleftrightarrow> v \<noteq> 0 \<and> (i, v) \<notin> bvv_dots b"
    using p(3) by (auto simp: bvv_add_def bvv_dots_entry split: prod.splits)
qed

lemma bvv_add_all_props:
  assumes "bvv_wf b" "v \<noteq> - 1"
  shows "bvv_wf (snd (bvv_add_all b i v))"
    and "bvv_dots (snd (bvv_add_all b i v)) = bvv_dots b \<union> {(j, w). j = i \<and> w \<le> v}"
proof -
  note p = bv_add_all_props [OF bvv_wf_entry [OF assms(1)] assms(2), of i]
  show "bvv_wf (snd (bvv_add_all b i v))"
    using p(2) assms(1) by (auto simp: bvv_add_all_def bvv_wf_update split: prod.splits)
  have "snd (bvv_add_all b i v) = AList.update i (snd (bv_add_all (bvv_entry_or_default b i) v)) b"
    by (simp add: bvv_add_all_def split: prod.splits)
  then show "bvv_dots (snd (bvv_add_all b i v)) = bvv_dots b \<union> {(j, w). j = i \<and> w \<le> v}"
    by (auto simp: bvv_dots_update p(1) bvv_dots_entry)
qed

lemma bvv_add_bv_props:
  assumes "bvv_wf b" "bv_wf bv"
  shows "bvv_wf (bvv_add_bv b i bv)"
    and "bvv_dots (bvv_add_bv b i bv) = bvv_dots b \<union> {(j, w). j = i \<and> w \<in> bv_versions bv}"
proof -
  note p = bv_merge_props [OF bvv_wf_entry [OF assms(1)] assms(2), of i]
  show "bvv_wf (bvv_add_bv b i bv)"
    using p(2) assms(1) by (simp add: bvv_add_bv_def bvv_wf_update)
  have "0 \<in> bv_versions bv"
    by (simp add: bv_versions_def)
  then show "bvv_dots (bvv_add_bv b i bv) = bvv_dots b \<union> {(j, w). j = i \<and> w \<in> bv_versions bv}"
    by (auto simp: bvv_add_bv_def bvv_dots_update p(1) bvv_dots_entry)
qed

text \<open>A merge into an absent entry copies the other bitmap; on normal forms that is \<^verbatim>\<open>add_bv\<close>.\<close>

definition bvv_merge_entry :: "bvv \<Rightarrow> id \<times> bitmapped_version \<Rightarrow> bvv" where
  "bvv_merge_entry a p = (case p of (i, other_bv) \<Rightarrow> case map_of a i of
         None \<Rightarrow> AList.update i other_bv a
       | Some bv \<Rightarrow> AList.update i (bv_merge bv other_bv) a)"

lemma bvv_merge_foldl: "bvv_merge a b = foldl bvv_merge_entry a b"
  by (simp add: bvv_merge_def bvv_merge_entry_def [abs_def])

lemma bvv_merge_entry_props:
  assumes "bvv_wf a" "bv_wf bv"
  shows "bvv_wf (bvv_merge_entry a (i, bv))"
    and "bvv_dots (bvv_merge_entry a (i, bv)) =
      bvv_dots a \<union> {(j, w). j = i \<and> w \<in> bv_versions bv}"
proof -
  show "bvv_wf (bvv_merge_entry a (i, bv))"
    using assms bvv_wf_lookup [OF assms(1), of i] bv_merge_props(2)
    by (auto simp: bvv_merge_entry_def bvv_wf_update split: option.splits)
  show "bvv_dots (bvv_merge_entry a (i, bv)) =
      bvv_dots a \<union> {(j, w). j = i \<and> w \<in> bv_versions bv}"
  proof (cases "map_of a i")
    case None
    then show ?thesis
      by (auto simp: bvv_merge_entry_def bvv_dots_update bvv_dots_iff)
  next
    case (Some bv')
    then have "bv_versions (bv_merge bv' bv) = bv_versions bv' \<union> bv_versions bv"
      using assms bvv_wf_lookup bv_merge_props(1) by blast
    from bvv_dots_update_union [OF Some this] Some show ?thesis
      by (simp add: bvv_merge_entry_def)
  qed
qed

lemma bvv_foldl_merge_entry:
  assumes "bvv_wf a" "list_all (\<lambda>(i, bv). bv_wf bv) b"
  shows "bvv_wf (foldl bvv_merge_entry a b) \<and>
    bvv_dots (foldl bvv_merge_entry a b) =
      bvv_dots a \<union> {(i, v). \<exists>bv. (i, bv) \<in> set b \<and> v \<in> bv_versions bv}"
  using assms
proof (induction b arbitrary: a)
  case (Cons p b)
  obtain i bv where p: "p = (i, bv)"
    by force
  with Cons.prems have "bvv_wf (bvv_merge_entry a p)"
    by (simp add: bvv_merge_entry_props)
  from Cons.IH [OF this] Cons.prems p show ?case
    by (auto simp: bvv_merge_entry_props(2))
qed simp

lemma bvv_dots_wf:
  "bvv_wf b \<Longrightarrow> bvv_dots b = {(i, v). \<exists>bv. (i, bv) \<in> set b \<and> v \<in> bv_versions bv}"
  unfolding bvv_wf_def by (auto simp: bvv_dots_iff)

lemma bvv_merge_props:
  assumes "bvv_wf a" "bvv_wf b"
  shows "bvv_wf (bvv_merge a b)" and "bvv_dots (bvv_merge a b) = bvv_dots a \<union> bvv_dots b"
  using assms bvv_foldl_merge_entry [of a b]
  by (simp_all add: bvv_merge_foldl bvv_dots_wf [OF assms(2)] bvv_wf_def [of b])

interpretation bvv: version_clock bvv_wf bvv_dots bvv_contains bvv_merge
  by unfold_locales (simp_all add: bvv_contains_dots bvv_merge_props)

text \<open>A vector is determined by its dots.\<close>

lemma bvv_dots_inj:
  assumes "bvv_wf a" "bvv_wf b" "bvv_dots a = bvv_dots b"
  shows "map_of a = map_of b"
proof
  fix i
  have *: "(\<exists>bv. map_of a i = Some bv \<and> v \<in> bv_versions bv) \<longleftrightarrow>
      (\<exists>bv. map_of b i = Some bv \<and> v \<in> bv_versions bv)" for v
    using assms(3) by (simp flip: bvv_dots_iff)
  have z: "0 \<in> bv_versions x" for x
    by (simp add: bv_versions_def)
  show "map_of a i = map_of b i"
  proof (cases "map_of a i")
    case None
    with * [of 0] z show ?thesis
      by (cases "map_of b i") auto
  next
    case (Some x)
    with * [of 0] z obtain y where y: "map_of b i = Some y"
      by auto
    have "bv_versions x = bv_versions y"
      using * Some y by auto
    then have "x = y"
      using bvv_wf_lookup assms(1,2) Some y bv_versions_inj by blast
    with Some y show ?thesis
      by simp
  qed
qed

lemma bvv_clone_if_props:
  assumes "bvv_wf b"
  shows "bvv_wf (bvv_clone_if cond b)"
    and "bvv_dots (bvv_clone_if cond b) = {(i, v) \<in> bvv_dots b. cond i}"
proof -
  have "bvv_wf (foldl (\<lambda>result (i, bv). if cond i then bvv_add_bv result i bv else result) r b) \<and>
    bvv_dots (foldl (\<lambda>result (i, bv). if cond i then bvv_add_bv result i bv else result) r b) =
      bvv_dots r \<union> {(i, v). cond i \<and> (\<exists>bv. (i, bv) \<in> set b \<and> v \<in> bv_versions bv)}"
    if "bvv_wf r" "list_all (\<lambda>(i, bv). bv_wf bv) b" for r b
    using that
  proof (induction b arbitrary: r)
    case (Cons p b)
    obtain i bv where p: "p = (i, bv)"
      by force
    with Cons.prems have "bvv_wf (bvv_add_bv r i bv)"
      by (simp add: bvv_add_bv_props)
    from Cons.IH [OF this] Cons.IH [OF Cons.prems(1)] Cons.prems p show ?case
      by (auto simp: bvv_add_bv_props(2))
  qed simp
  from this [of bvv_new b] assms
  show "bvv_wf (bvv_clone_if cond b)"
    and "bvv_dots (bvv_clone_if cond b) = {(i, v) \<in> bvv_dots b. cond i}"
    by (auto simp: bvv_clone_if_def bvv_dots_wf bvv_wf_def [of b])
qed

subsection \<open>A local event is a fresh dot\<close>

lemma bvv_event_entry:
  "bvv_event b i =
     (let e = bvv_entry_or_default b i; v = bv_base e + 1
      in (v, AList.update i (e\<lparr>bv_base := v\<rparr>) b))"
  by (simp add: bvv_event_def bvv_entry_or_default_def bv_default_def bv_new_def int_to_bitmap_def
      Let_def split: option.splits)

lemma bv_succ_props:
  assumes "bv_wf e" "bv_bitmap e = {}" "bv_base e + 1 \<noteq> - 1"
  shows "bv_versions (e\<lparr>bv_base := bv_base e + 1\<rparr>) = insert (bv_base e + 1) (bv_versions e)"
    and "bv_base e + 1 \<notin> bv_versions e"
    and "bv_wf (e\<lparr>bv_base := bv_base e + 1\<rparr>)"
proof -
  have nz: "bv_base e + 1 \<noteq> 0"
    using assms(1) by (simp add: bv_wf_def not_max_succ_nonzero)
  show "bv_versions (e\<lparr>bv_base := bv_base e + 1\<rparr>) = insert (bv_base e + 1) (bv_versions e)"
    using word_le_succ_iff [OF nz] assms(2) by (auto simp: bv_versions_def)
  show "bv_base e + 1 \<notin> bv_versions e"
    using word_less_succ [OF nz] assms(2) by (auto simp: bv_versions_def)
  show "bv_wf (e\<lparr>bv_base := bv_base e + 1\<rparr>)"
    using assms by (simp add: bv_wf_def)
qed

lemma bvv_event_props:
  assumes wf: "bvv_wf b" and e: "bv_bitmap (bvv_entry_or_default b i) = {}"
    "bv_base (bvv_entry_or_default b i) + 1 \<noteq> - 1"
  shows "bvv_wf (snd (bvv_event b i))"
    and "bvv_dots (snd (bvv_event b i)) = bvv_dots b \<union> {(i, 0), (i, fst (bvv_event b i))}"
    and "(i, fst (bvv_event b i)) \<notin> bvv_dots b"
    and "bv_bitmap (bvv_entry_or_default (snd (bvv_event b i)) i) = {}"
    and "bv_base (bvv_entry_or_default (snd (bvv_event b i)) i) = fst (bvv_event b i)"
    and "fst (bvv_event b i) = bv_base (bvv_entry_or_default b i) + 1"
proof -
  note p = bv_succ_props [OF bvv_wf_entry [OF wf] e]
  show "bvv_wf (snd (bvv_event b i))"
    using wf p(3) by (simp add: bvv_event_entry Let_def bvv_wf_update)
  show "bvv_dots (snd (bvv_event b i)) = bvv_dots b \<union> {(i, 0), (i, fst (bvv_event b i))}"
    using bvv_dots_update_insert [OF p(1)] by (simp add: bvv_event_entry Let_def)
  show "(i, fst (bvv_event b i)) \<notin> bvv_dots b"
    using p(2) by (simp add: bvv_event_entry Let_def bvv_dots_entry)
  show "bv_bitmap (bvv_entry_or_default (snd (bvv_event b i)) i) = {}"
    and "bv_base (bvv_entry_or_default (snd (bvv_event b i)) i) = fst (bvv_event b i)"
    and "fst (bvv_event b i) = bv_base (bvv_entry_or_default b i) + 1"
    using e(1) by (simp_all add: bvv_event_entry Let_def bvv_entry_or_default_def [of "AList.update _ _ _"] lm_simps)
qed

subsection \<open>The delta of two vectors\<close>

text \<open>The ids for which \<^verbatim>\<open>delta\<close> yields anything: the base must not be behind the other's.\<close>

definition bvv_not_behind :: "bvv \<Rightarrow> bvv \<Rightarrow> id \<Rightarrow> bool" where
  "bvv_not_behind a b i \<longleftrightarrow> bv_base (bvv_entry_or_default b i) \<le> bv_base (bvv_entry_or_default a i)"

lemma bv_new_0: "bv_new 0 0 = bv_default"
  by (simp add: bv_new_def bv_default_def int_to_bitmap_def)

lemma bvv_delta_set:
  assumes "lm_wf a"
  shows "set (bvv_delta a b) =
     {(i, v). (i, v) \<in> bvv_dots a \<and> v \<noteq> 0 \<and> (i, v) \<notin> bvv_dots b \<and> bvv_not_behind a b i}"
proof -
  have e: "(case bvv_get b i of Some x \<Rightarrow> x | None \<Rightarrow> bv_new 0 0) = bvv_entry_or_default b i" for i
    by (simp add: bvv_get_def bvv_entry_or_default_def bv_new_0 split: option.splits)
  have "(i, v) \<in> set (bvv_delta a b) \<longleftrightarrow> (\<exists>bv. map_of a i = Some bv \<and> v \<in> bv_versions bv \<and>
      v \<notin> bv_versions (bvv_entry_or_default b i) \<and>
      bv_base (bvv_entry_or_default b i) \<le> bv_base bv)" for i v
    using assms
    by (auto simp: bvv_delta_def e bv_delta_props(1) not_less split: if_splits)
  then show ?thesis
    by (auto simp: bvv_dots_entry bvv_dots_iff bvv_not_behind_def bvv_entry_or_default_def [of a])
qed

text \<open>Adding the dots of a delta to the other vector brings it up to date.\<close>

lemma bvv_add_list:
  assumes "bvv_wf b" "\<forall>d\<in>set ds. snd d \<noteq> - 1"
  shows "bvv_wf (foldl (\<lambda>b (i, v). snd (bvv_add b i v)) b ds) \<and>
    bvv_dots (foldl (\<lambda>b (i, v). snd (bvv_add b i v)) b ds) =
      bvv_dots b \<union> set ds \<union> (\<lambda>(i, v). (i, 0)) ` set ds"
  using assms
proof (induction ds arbitrary: b)
  case (Cons d ds)
  obtain i v where d: "d = (i, v)"
    by force
  with Cons.prems have "v \<noteq> - 1"
    by auto
  note p = bvv_add_props [OF Cons.prems(1) this, of i]
  have "\<forall>d\<in>set ds. snd d \<noteq> - 1"
    using Cons.prems(2) by simp
  from Cons.IH [OF p(1) this] d p(2) show ?case
    by auto
qed simp

lemma bv_wf_max: "bv_wf bv \<Longrightarrow> - 1 \<notin> bv_versions bv"
  by (auto simp: bv_wf_def bv_versions_def word_order.extremum_unique)

lemma bvv_wf_max: "bvv_wf b \<Longrightarrow> (i, - 1) \<notin> bvv_dots b"
  by (auto simp: bvv_dots_iff dest: bvv_wf_lookup bv_wf_max)

text \<open>
  The minimal versions: an id of the delta has an entry, and no dot of the delta lies below it.
\<close>

lemma bvd_next_collect: "fst (bvd_next d) = Some m \<longleftrightarrow> (\<exists>vs. bvd_collect d = m # vs)"
  by (cases "bvd_next d"; cases "fst (bvd_next d)") (simp_all add: bvd_collect.simps [of d])

lemma bvv_delta_min_versions_mem:
  assumes "lm_wf a"
  shows "(i, m) \<in> set (bvv_delta_min_versions a b) \<longleftrightarrow> (\<exists>bv. map_of a i = Some bv \<and>
     (case map_of b i of None \<Rightarrow> m = 1
      | Some other_bv \<Rightarrow> \<exists>vs. bvd_collect (bv_delta bv other_bv) = m # vs))"
proof -
  have "(i, m) \<in> set (bvv_delta_min_versions a b) \<longleftrightarrow> (\<exists>bv. (i, bv) \<in> set a \<and>
     (case map_of b i of None \<Rightarrow> m = 1
      | Some other_bv \<Rightarrow> fst (bvd_next (bv_delta bv other_bv)) = Some m))"
    by (induction a) (auto simp: bvv_delta_min_versions_def List.map_filter_simps bvv_get_def
        split: option.splits)
  then show ?thesis
    using assms by (cases "map_of b i") (simp_all add: bvd_next_collect)
qed

lemma bvv_delta_min_versions_bound:
  assumes "lm_wf a" "(i, v) \<in> set (bvv_delta a b)"
  shows "\<exists>m. (i, m) \<in> set (bvv_delta_min_versions a b) \<and> m \<le> v"
proof -
  from assms obtain bv where a: "map_of a i = Some bv" and v: "v \<noteq> 0"
    "v \<in> set (bvd_collect (bv_delta bv (bvv_entry_or_default b i)))"
    by (auto simp: bvv_delta_set bvv_dots_iff bvv_dots_entry bv_delta_props bvv_not_behind_def
        bvv_entry_or_default_def [of a])
  show ?thesis
  proof (cases "map_of b i")
    case None
    have "1 \<le> v"
      using v(1) word_succ_le_less [of 0 v] by (simp add: word_neq_0_conv)
    with None a show ?thesis
      by (auto simp: bvv_delta_min_versions_mem [OF assms(1)])
  next
    case (Some bv')
    with v obtain m vs where m: "bvd_collect (bv_delta bv bv') = m # vs"
      by (cases "bvd_collect (bv_delta bv bv')") (auto simp: bvv_entry_or_default_def)
    then have "m \<le> v"
      using v(2) Some bv_delta_props(2) [of bv bv'] by (auto simp: bvv_entry_or_default_def)
    with m Some a show ?thesis
      by (auto simp: bvv_delta_min_versions_mem [OF assms(1)])
  qed
qed

subsection \<open>Containment of a version vector\<close>

lemma vv_contained_dots:
  assumes "lm_wf vv" "bvv_wf b"
  shows "vv_contained vv b \<Longrightarrow> vv_dots vv \<subseteq> bvv_dots b"
    and "vv_dots vv \<subseteq> bvv_dots b \<Longrightarrow> vv_contained vv b"
proof -
  show "vv_dots vv \<subseteq> bvv_dots b" if "vv_contained vv b"
    using that assms(1)
    by (fastforce simp: vv_contained_def list_all_iff bvv_contains_all_def bvv_get_def
        bv_contains_all_def vv_dots_iff vv_contains_wf bvv_dots_iff bv_versions_def
        split: option.splits)
  assume sub: "vv_dots vv \<subseteq> bvv_dots b"
  have "bvv_contains_all b i v" if "(i, v) \<in> set vv" for i v
  proof -
    have all: "(i, w) \<in> bvv_dots b" if "w \<le> v" for w
      using sub that \<open>(i, v) \<in> set vv\<close> assms(1) by (auto simp: vv_dots_def vv_contains_wf)
    then obtain bv where bv: "map_of b i = Some bv"
      by (auto simp: bvv_dots_iff)
    have "v \<le> bv_base bv"
    proof (rule ccontr)
      assume "\<not> v \<le> bv_base bv"
      then have "bv_base bv + 1 \<le> v"
        by (simp add: inc_le)
      from all [OF this] bv have "bv_base bv + 1 \<in> bv_versions bv"
        by (simp add: bvv_dots_iff)
      moreover have wf: "bv_wf bv"
        using assms(2) bv by (rule bvv_wf_lookup)
      then have "bv_base bv < bv_base bv + 1"
        by (simp add: bv_wf_def not_max_succ_nonzero word_less_succ)
      ultimately show False
        using wf by (auto simp: bv_versions_def bv_wf_def)
    qed
    with bv show ?thesis
      by (simp add: bvv_contains_all_def bvv_get_def bv_contains_all_def)
  qed
  then show "vv_contained vv b"
    by (auto simp: vv_contained_def list_all_iff)
qed

section \<open>Properties\<close>

text \<open>
  The event of a node whose own entry has no holes yields the next version, which the clock did
  not contain; afterwards the clock contains it, is well formed and still has no holes there.
\<close>

theorem bvv_event_fresh:
  assumes "bvv_wf b" "bv_bitmap (bvv_entry_or_default b i) = {}"
    "bv_base (bvv_entry_or_default b i) + 1 \<noteq> - 1"
  shows "fst (bvv_event b i) = bv_base (bvv_entry_or_default b i) + 1 \<and>
    \<not> bvv_contains b i (fst (bvv_event b i)) \<and>
    bvv_contains (snd (bvv_event b i)) i (fst (bvv_event b i)) \<and>
    bvv_wf (snd (bvv_event b i)) \<and> bv_bitmap (bvv_entry_or_default (snd (bvv_event b i)) i) = {}"
  using bvv_event_props [OF assms] by (simp add: bvv_contains_dots)

theorem bvv_event_fresh_witness:
  "let b = [(7, \<lparr>bv_base = 2, bv_bitmap = {}\<rparr>)] in
   fst (bvv_event b 7) = bv_base (bvv_entry_or_default b 7) + 1 \<and>
   \<not> bvv_contains b 7 (fst (bvv_event b 7)) \<and>
   bvv_contains (snd (bvv_event b 7)) 7 (fst (bvv_event b 7)) \<and>
   bvv_wf (snd (bvv_event b 7)) \<and> bv_bitmap (bvv_entry_or_default (snd (bvv_event b 7)) 7) = {}"
  unfolding Let_def
  by (rule bvv_event_fresh) (simp_all add: bvv_wf_def bv_wf_def bvv_entry_or_default_def)

text \<open>
  C20: Merging any sequence of well-formed clocks gives the same map of clocks in whatever order, and
  however often, they arrive.
\<close>

theorem bvv_merge_converges:
  assumes "bvv_wf c" "list_all bvv_wf cs" "set cs = set ds"
  shows "map_of (foldl bvv_merge c cs) = map_of (foldl bvv_merge c ds)"
proof (rule bvv_dots_inj)
  have "\<And>d. d \<in> set cs \<Longrightarrow> bvv_wf d" "\<And>d. d \<in> set ds \<Longrightarrow> bvv_wf d"
    using assms by (auto simp: list_all_iff)
  then show "bvv_wf (foldl bvv_merge c cs)" "bvv_wf (foldl bvv_merge c ds)"
    "bvv_dots (foldl bvv_merge c cs) = bvv_dots (foldl bvv_merge c ds)"
    using assms bvv.wf_foldl_merge bvv.foldl_merge_converges by blast+
qed

theorem bvv_merge_converges_witness:
  "let a = [(1, \<lparr>bv_base = 2, bv_bitmap = {5}\<rparr>)]; b = [(2, \<lparr>bv_base = 1, bv_bitmap = {}\<rparr>)] in
   map_of (foldl bvv_merge bvv_new [a, b]) = map_of (foldl bvv_merge bvv_new [b, a, b])"
  unfolding Let_def
  by (rule bvv_merge_converges) (auto simp: bvv_wf_def bv_wf_def bvv_new_def)



end
