(* ===== verification/Command_Error.thy ===== *)
theory Command_Error
  imports Resp
begin

text \<open>The errors a command can return (\<^verbatim>\<open>CommandError\<close> of \<^verbatim>\<open>command.rs\<close>) and their reply.\<close>

datatype command_error =
    Timeout
  | ProtocolError
  | StorageError
  | UnknownCommand
  | TooManyVersions
  | TypeError
  | InvalidContext
  | InvalidArgCount
  | InvalidKey
  | InvalidValue
  | InvalidConsistencyValue
  | InvalidIntValue
  | InvalidExec
  | InvalidCommand
  | InvalidMultiCommand
  | MultiplePartitions
  | MultipleKeyMutations
  | Unavailable

text \<open>The derived \<^verbatim>\<open>Debug\<close> format prints the name of the variant.\<close>

fun command_error_debug :: "command_error \<Rightarrow> bytes" where
  "command_error_debug Timeout = ''Timeout''"
| "command_error_debug ProtocolError = ''ProtocolError''"
| "command_error_debug StorageError = ''StorageError''"
| "command_error_debug UnknownCommand = ''UnknownCommand''"
| "command_error_debug TooManyVersions = ''TooManyVersions''"
| "command_error_debug TypeError = ''TypeError''"
| "command_error_debug InvalidContext = ''InvalidContext''"
| "command_error_debug InvalidArgCount = ''InvalidArgCount''"
| "command_error_debug InvalidKey = ''InvalidKey''"
| "command_error_debug InvalidValue = ''InvalidValue''"
| "command_error_debug InvalidConsistencyValue = ''InvalidConsistencyValue''"
| "command_error_debug InvalidIntValue = ''InvalidIntValue''"
| "command_error_debug InvalidExec = ''InvalidExec''"
| "command_error_debug InvalidCommand = ''InvalidCommand''"
| "command_error_debug InvalidMultiCommand = ''InvalidMultiCommand''"
| "command_error_debug MultiplePartitions = ''MultiplePartitions''"
| "command_error_debug MultipleKeyMutations = ''MultipleKeyMutations''"
| "command_error_debug Unavailable = ''Unavailable''"

definition command_error_into :: "command_error \<Rightarrow> resp_value" where
  "command_error_into e = RError (command_error_debug e)"

lemma command_error_into_inj: "command_error_into a = command_error_into b \<longleftrightarrow> a = b"
  by (cases a; cases b) (simp_all add: command_error_into_def)

end
