(* ===== verification/Cubes.thy ===== *)
theory Cubes
  imports Causal Bitmapped_Version_Vector Command_Error
begin

text \<open>
  \<^verbatim>\<open>cubes.rs\<close>: the replicated data types and their union \<^verbatim>\<open>Cube\<close>. Counters are 64-bit words and wrap
  around. The clock a \<^verbatim>\<open>MapValue\<close> reads is an argument, in milliseconds since the epoch. The
  serialisation of a version vector by the \<^verbatim>\<open>bincode\<close> crate is the parameter \<open>ser_vv\<close>.
\<close>

section \<open>Counter\<close>

record counter =
  ctr_values :: "(id \<times> version \<times> i64) list"
  ctr_vv :: version_vector

definition counter_with :: "version_vector \<Rightarrow> counter" where
  "counter_with vv = \<lparr>ctr_values = [], ctr_vv = vv\<rparr>"

definition counter_get :: "counter \<Rightarrow> i64" where
  "counter_get c = sum_list (map (\<lambda>(_, _, x). x) (ctr_values c))"

definition counter_inc :: "counter \<Rightarrow> id \<Rightarrow> version \<Rightarrow> i64 \<Rightarrow> i64 \<times> counter" where
  "counter_inc c node version by =
     (let (_, x) = (case map_of (ctr_values c) node of Some vc \<Rightarrow> vc | None \<Rightarrow> (0, 0))
      in (x + by,
          c\<lparr>ctr_vv := vv_add (ctr_vv c) node version,
            ctr_values := AList.update node (version, x + by) (ctr_values c)\<rparr>))"

definition counter_clear :: "counter \<Rightarrow> id \<Rightarrow> version \<Rightarrow> counter" where
  "counter_clear c node version =
     c\<lparr>ctr_values := [], ctr_vv := vv_add (ctr_vv c) node version\<rparr>"

definition counter_merge :: "counter \<Rightarrow> counter \<Rightarrow> counter" where
  "counter_merge self other =
     self\<lparr>ctr_values := foldl (\<lambda>values (i, ov, ox).
         case map_of values i of
           Some (v, x) \<Rightarrow> if v < ov then AList.update i (ov, ox) values else values
         | None \<Rightarrow> AList.update i (ov, ox) values) (ctr_values self) (ctr_values other)\<rparr>"

section \<open>Value, a multi-value register\<close>

record cube_value =
  val_values :: "bytes option dot_map"
  val_vv :: version_vector

definition value_with :: "version_vector \<Rightarrow> cube_value" where
  "value_with vv = \<lparr>val_values = dotmap_new, val_vv = vv\<rparr>"

definition value_len :: "cube_value \<Rightarrow> nat" where
  "value_len a = length (val_values a)"

definition value_set :: "cube_value \<Rightarrow> id \<Rightarrow> version \<Rightarrow> bytes option \<Rightarrow> version_vector \<Rightarrow> cube_value" where
  "value_set a node version x vv =
     a\<lparr>val_values := dotmap_insert (dotmap_discard (val_values a) (vv_contains vv)) node version x,
       val_vv := vv_add (val_vv a) node version\<rparr>"

definition value_merge :: "cube_value \<Rightarrow> cube_value \<Rightarrow> cube_value" where
  "value_merge self other =
     self\<lparr>val_values := fst (dotmap_merge (val_values self) (val_values other)
            (vv_contains (val_vv self)) (vv_contains (val_vv other))),
          val_vv := vv_merge (val_vv self) (val_vv other)\<rparr>"

section \<open>Set\<close>

record cube_set =
  set_values :: "(bytes, dot_set) causal_map"
  set_dots :: version_vector
  set_vv :: version_vector

definition set_with :: "version_vector \<Rightarrow> cube_set" where
  "set_with vv = \<lparr>set_values = cm_new, set_dots = vv_new, set_vv = vv\<rparr>"

definition set_insert :: "cube_set \<Rightarrow> id \<Rightarrow> version \<Rightarrow> bytes \<Rightarrow> bool \<times> cube_set" where
  "set_insert a node version item =
     (let (old, values) = cm_insert (set_values a) item (dotset_from_dot (node, version))
      in (old = None,
          a\<lparr>set_values := values, set_vv := vv_add (set_vv a) node version,
            set_dots := vv_add (set_dots a) node version\<rparr>))"

definition set_remove :: "cube_set \<Rightarrow> id \<Rightarrow> version \<Rightarrow> bytes \<Rightarrow> bool \<times> cube_set" where
  "set_remove a node version item =
     (let (old, values) = cm_remove (set_values a) item
      in (old \<noteq> None,
          a\<lparr>set_values := values, set_vv := vv_add (set_vv a) node version,
            set_dots := vv_add (set_dots a) node version\<rparr>))"

definition set_clear :: "cube_set \<Rightarrow> id \<Rightarrow> version \<Rightarrow> cube_set" where
  "set_clear a node version =
     a\<lparr>set_values := cm_clear (set_values a), set_vv := vv_add (set_vv a) node version,
       set_dots := vv_add (set_dots a) node version\<rparr>"

definition set_merge :: "cube_set \<Rightarrow> cube_set \<Rightarrow> cube_set" where
  "set_merge self other =
     self\<lparr>set_values := fst (cm_merge dotset_merge dotset_is_empty dotset_new
            (set_values self) (set_values other)
            (vv_contains (set_vv self)) (vv_contains (set_vv other))),
          set_vv := vv_merge (set_vv self) (set_vv other),
          set_dots := vv_merge (set_dots self) (set_dots other)\<rparr>"

section \<open>Map\<close>

record map_value =
  mv_dots :: dot_set
  mv_value :: bytes
  mv_timestamp :: u64

definition map_value_default :: map_value where
  "map_value_default = \<lparr>mv_dots = dotset_new, mv_value = [], mv_timestamp = 0\<rparr>"

definition map_value_new :: "u64 \<Rightarrow> dot \<Rightarrow> bytes \<Rightarrow> map_value" where
  "map_value_new now d x = \<lparr>mv_dots = dotset_from_dot d, mv_value = x, mv_timestamp = now\<rparr>"

definition map_value_merge :: "map_value cv_merge" where
  "map_value_merge self other s_vv o_vv =
     (let (dots, other_dots) = dotset_merge (mv_dots self) (mv_dots other) s_vv o_vv;
          self = self\<lparr>mv_dots := dots\<rparr>; other = other\<lparr>mv_dots := other_dots\<rparr>
      in if mv_timestamp other < mv_timestamp self then (self, other)
         else if mv_timestamp self < mv_timestamp other \<or> mv_value self < mv_value other
         then (self\<lparr>mv_timestamp := mv_timestamp other, mv_value := mv_value other\<rparr>,
               other\<lparr>mv_value := mv_value self\<rparr>)
         else (self, other))"

definition map_value_is_empty :: "map_value \<Rightarrow> bool" where
  "map_value_is_empty m = dotset_is_empty (mv_dots m)"

record cube_map =
  map_values :: "(bytes, map_value) causal_map"
  map_dots :: version_vector
  map_vv :: version_vector

definition map_with :: "version_vector \<Rightarrow> cube_map" where
  "map_with vv = \<lparr>map_values = cm_new, map_dots = vv_new, map_vv = vv\<rparr>"

definition map_insert :: "u64 \<Rightarrow> cube_map \<Rightarrow> id \<Rightarrow> version \<Rightarrow> bytes \<Rightarrow> bytes \<Rightarrow> bool \<times> cube_map" where
  "map_insert now a node version key x =
     (let (old, values) = cm_insert (map_values a) key (map_value_new now (node, version) x)
      in (old = None,
          a\<lparr>map_values := values, map_vv := vv_add (map_vv a) node version,
            map_dots := vv_add (map_dots a) node version\<rparr>))"

definition map_remove :: "cube_map \<Rightarrow> id \<Rightarrow> version \<Rightarrow> bytes \<Rightarrow> bool \<times> cube_map" where
  "map_remove a node version key =
     (let (old, values) = cm_remove (map_values a) key
      in (old \<noteq> None,
          a\<lparr>map_values := values, map_vv := vv_add (map_vv a) node version,
            map_dots := vv_add (map_dots a) node version\<rparr>))"

definition map_clear :: "cube_map \<Rightarrow> id \<Rightarrow> version \<Rightarrow> cube_map" where
  "map_clear a node version =
     a\<lparr>map_values := cm_clear (map_values a), map_vv := vv_add (map_vv a) node version,
       map_dots := vv_add (map_dots a) node version\<rparr>"

definition map_merge :: "cube_map \<Rightarrow> cube_map \<Rightarrow> cube_map" where
  "map_merge self other =
     self\<lparr>map_values := fst (cm_merge map_value_merge map_value_is_empty map_value_default
            (map_values self) (map_values other)
            (vv_contains (map_vv self)) (vv_contains (map_vv other))),
          map_vv := vv_merge (map_vv self) (map_vv other),
          map_dots := vv_merge (map_dots self) (map_dots other)\<rparr>"

section \<open>Cube\<close>

datatype cube = Counter counter | Value cube_value | Map cube_map | Set cube_set | Void version_vector

definition cube_default :: cube where
  "cube_default = Void vv_new"

text \<open>\<^verbatim>\<open>is_subsumed\<close> and \<^verbatim>\<open>for_each_dot\<close> reach \<^verbatim>\<open>unreachable!\<close> on \<open>Void\<close>: no result, a panic.\<close>

fun is_subsumed :: "cube \<Rightarrow> bvv \<Rightarrow> bool option" where
  "is_subsumed (Counter a) bvv = Some (ctr_values a = [] \<and> vv_contained (ctr_vv a) bvv)"
| "is_subsumed (Value a) bvv = Some (dotmap_is_empty (val_values a) \<and> vv_contained (val_vv a) bvv)"
| "is_subsumed (Map a) bvv = Some (cm_is_empty (map_values a) \<and> vv_contained (map_vv a) bvv)"
| "is_subsumed (Set a) bvv = Some (cm_is_empty (set_values a) \<and> vv_contained (set_vv a) bvv)"
| "is_subsumed (Void _) bvv = None"

fun into_value :: "cube \<Rightarrow> cube_value option" where
  "into_value (Value a) = Some a"
| "into_value (Void a) = Some (value_with a)"
| "into_value _ = None"

fun into_counter :: "cube \<Rightarrow> counter option" where
  "into_counter (Counter a) = Some a"
| "into_counter (Void a) = Some (counter_with a)"
| "into_counter _ = None"

fun into_map :: "cube \<Rightarrow> cube_map option" where
  "into_map (Map a) = Some a"
| "into_map (Void a) = Some (map_with a)"
| "into_map _ = None"

fun into_set :: "cube \<Rightarrow> cube_set option" where
  "into_set (Set a) = Some a"
| "into_set (Void a) = Some (set_with a)"
| "into_set _ = None"

text \<open>The dots \<^verbatim>\<open>for_each_dot\<close> passes to its callback, in order.\<close>

fun for_each_dot :: "cube \<Rightarrow> dot list option" where
  "for_each_dot (Counter a) = Some (map (\<lambda>(i, v, _). (i, v)) (ctr_values a))"
| "for_each_dot (Value a) = Some (map fst (val_values a))"
| "for_each_dot (Map a) = Some (vv_iter (map_dots a))"
| "for_each_dot (Set a) = Some (vv_iter (set_dots a))"
| "for_each_dot (Void _) = None"

definition cube_new :: "bvv \<Rightarrow> cube" where
  "cube_new b = Void (foldl (\<lambda>vv (n, bv). vv_add vv n (bv_base bv)) vv_new b)"

fun cube_del :: "cube \<Rightarrow> id \<Rightarrow> version \<Rightarrow> version_vector \<Rightarrow> bool \<times> cube" where
  "cube_del (Counter a) i v vv = (True, Counter (counter_clear a i v))"
| "cube_del (Value a) i v vv = (True, Value (value_set a i v None vv))"
| "cube_del (Map a) i v vv = (True, Map (map_clear a i v))"
| "cube_del (Set a) i v vv = (True, Set (set_clear a i v))"
| "cube_del (Void a) i v vv = (False, Void a)"

fun cube_merge :: "cube \<Rightarrow> cube \<Rightarrow> cube" where
  "cube_merge (Counter a) (Counter b) = Counter (counter_merge a b)"
| "cube_merge (Value a) (Value b) = Value (value_merge a b)"
| "cube_merge (Map a) (Map b) = Map (map_merge a b)"
| "cube_merge (Set a) (Set b) = Set (set_merge a b)"
| "cube_merge (Void vv) (Void o_vv) = Void (vv_merge o_vv vv)"
| "cube_merge (Void vv) (Counter a) = Counter (counter_merge a (counter_with vv))"
| "cube_merge (Counter a) (Void vv) = Counter (counter_merge a (counter_with vv))"
| "cube_merge (Void vv) (Value a) = Value (value_merge a (value_with vv))"
| "cube_merge (Value a) (Void vv) = Value (value_merge a (value_with vv))"
| "cube_merge (Void vv) (Map a) = Map (map_merge a (map_with vv))"
| "cube_merge (Map a) (Void vv) = Map (map_merge a (map_with vv))"
| "cube_merge (Void vv) (Set a) = Set (set_merge a (set_with vv))"
| "cube_merge (Set a) (Void vv) = Set (set_merge a (set_with vv))"
| "cube_merge (Counter a) _ = Counter a"
| "cube_merge _ (Counter a) = Counter a"
| "cube_merge (Value a) _ = Value a"
| "cube_merge _ (Value a) = Value a"
| "cube_merge (Map a) _ = Map a"
| "cube_merge _ (Map a) = Map a"

section \<open>Rendering\<close>

fun render_value :: "(version_vector \<Rightarrow> bytes) \<Rightarrow> cube \<Rightarrow> resp_value" where
  "render_value ser_vv (Value v) =
     RArray (List.map_filter (\<lambda>(_, ov). map_option RData ov) (val_values v) @
             [RData (ser_vv (val_vv v))])"
| "render_value ser_vv (Void vv) = RArray [RData (ser_vv vv)]"
| "render_value ser_vv _ = command_error_into TypeError"

fun render_counter :: "cube \<Rightarrow> resp_value" where
  "render_counter (Counter c) = RInt (counter_get c)"
| "render_counter (Void _) = RNil"
| "render_counter _ = command_error_into TypeError"

fun render_type :: "cube \<Rightarrow> resp_value" where
  "render_type (Counter _) = RData ''counter''"
| "render_type (Value _) = RData ''string''"
| "render_type (Map _) = RData ''hash''"
| "render_type (Set _) = RData ''set''"
| "render_type (Void _) = RData ''none''"

fun render_map :: "cube \<Rightarrow> resp_value" where
  "render_map (Map m) = RArray (concat (map (\<lambda>(k, v). [RData k, RData (mv_value v)]) (map_values m)))"
| "render_map (Void _) = RArray []"
| "render_map _ = command_error_into TypeError"

fun render_set :: "cube \<Rightarrow> resp_value" where
  "render_set (Set s) = RArray (map (\<lambda>(v, _). RData v) (set_values s))"
| "render_set (Void _) = RArray []"
| "render_set _ = command_error_into TypeError"

section \<open>The register refines a multi-value register\<close>

lemma clock_dots_vv: "clock_dots (vv_contains vv) = vv_dots vv"
  by (simp add: clock_dots_def vv_dots_def)

definition value_wf :: "cube_value \<Rightarrow> bool" where
  "value_wf a \<longleftrightarrow> lm_wf (val_values a) \<and> lm_wf (val_vv a) \<and>
     dotmap_dots (val_values a) \<subseteq> vv_dots (val_vv a)"

text \<open>The abstract register: the values by dot, and the dots seen.\<close>

type_synonym mvr = "(dot \<rightharpoonup> bytes option) \<times> dot set"

definition value_abs :: "cube_value \<Rightarrow> mvr" where
  "value_abs a = (map_of (val_values a), vv_dots (val_vv a))"

fun mvr_join :: "mvr \<Rightarrow> mvr \<Rightarrow> mvr" where
  "mvr_join (m1, c1) (m2, c2) =
     (\<lambda>d. case m1 d of
            Some x \<Rightarrow> if m2 d \<noteq> None \<or> d \<notin> c2 then Some x else None
          | None \<Rightarrow> if d \<notin> c1 then m2 d else None,
      c1 \<union> c2)"

fun mvr_write :: "mvr \<Rightarrow> dot \<Rightarrow> bytes option \<Rightarrow> dot set \<Rightarrow> dot set \<Rightarrow> mvr" where
  "mvr_write (m, c) d x seen new = ((m |` (- seen))(d \<mapsto> x), c \<union> new)"

lemma value_merge_abs:
  assumes "value_wf a" "value_wf b"
  shows "value_abs (value_merge a b) = mvr_join (value_abs a) (value_abs b)"
  using assms
  by (simp add: value_abs_def value_merge_def value_wf_def dotmap_merge_props vv_dots_merge
      clock_dots_vv fun_eq_iff split: option.splits)

lemma value_merge_dots:
  assumes "value_wf a" "value_wf b"
  shows "dotmap_dots (val_values (value_merge a b)) =
    causal_join (dotmap_dots (val_values a)) (vv_dots (val_vv a))
      (dotmap_dots (val_values b)) (vv_dots (val_vv b))"
  using assms by (simp add: value_merge_def value_wf_def dotmap_merge_dots clock_dots_vv)

lemma value_wf_merge: "value_wf a \<Longrightarrow> value_wf b \<Longrightarrow> value_wf (value_merge a b)"
  using causal_join_subset [of "dotmap_dots (val_values a)" "vv_dots (val_vv a)"
      "dotmap_dots (val_values b)" "vv_dots (val_vv b)"]
  by (simp add: value_wf_def [of "value_merge a b"] value_merge_dots)
    (simp add: value_wf_def value_merge_def dotmap_merge_props lm_wf_vv_merge vv_dots_merge)

lemma vv_dots_add: "vv_dots (vv_add vv i v) = vv_dots vv \<union> {(j, w). j = i \<and> w \<le> v}"
  by (auto simp: vv_dots_def vv_contains_add)

lemma value_set_abs:
  assumes "value_wf a"
  shows "value_abs (value_set a i v x vv) =
    mvr_write (value_abs a) (i, v) x (vv_dots vv) {(j, w). j = i \<and> w \<le> v}"
  using assms
  by (auto simp: value_abs_def value_set_def value_wf_def dotmap_insert_def lm_simps map_of_discard
      clock_dots_vv vv_dots_add restrict_map_def fun_eq_iff)

lemma value_wf_set: "value_wf a \<Longrightarrow> value_wf (value_set a i v x vv)"
  by (auto simp: value_wf_def value_set_def dotmap_insert_def lm_wf_update lm_wf_discard lm_wf_vv_add
      vv_dots_add dotmap_dots_dom lm_simps map_of_discard dest!: subsetD [OF _ domI]
      split: if_splits)

lemma value_wf_with: "lm_wf vv \<Longrightarrow> value_wf (value_with vv)"
  by (simp add: value_wf_def value_with_def dotmap_new_def dotmap_dots_def)

text \<open>
  Replicas of one register agree on the value of a dot, since a dot names one write.
\<close>

definition mvr_agree :: "mvr \<Rightarrow> mvr \<Rightarrow> bool" where
  "mvr_agree a b \<longleftrightarrow> (\<forall>d x y. fst a d = Some x \<longrightarrow> fst b d = Some y \<longrightarrow> x = y)"

lemma mvr_join_commute: "mvr_agree a b \<Longrightarrow> mvr_join a b = mvr_join b a"
  by (cases a; cases b) (auto simp: mvr_agree_def fun_eq_iff split: option.splits)

lemma mvr_join_idem: "mvr_join a a = a"
  by (cases a) (auto simp: fun_eq_iff split: option.splits)

lemma mvr_join_assoc:
  assumes "dom (fst a) \<subseteq> snd a" "dom (fst b) \<subseteq> snd b" "dom (fst c) \<subseteq> snd c"
  shows "mvr_join (mvr_join a b) c = mvr_join a (mvr_join b c)"
proof -
  obtain ma ca mb cb mc cc where abc: "a = (ma, ca)" "b = (mb, cb)" "c = (mc, cc)"
    by (metis surj_pair)
  have "ma d \<noteq> None \<Longrightarrow> d \<in> ca" "mb d \<noteq> None \<Longrightarrow> d \<in> cb" "mc d \<noteq> None \<Longrightarrow> d \<in> cc" for d
    using assms abc by (auto simp: dom_def)
  then show ?thesis
    unfolding abc by (fastforce simp: fun_eq_iff split: option.splits if_splits)
qed

section \<open>Sets and maps\<close>

interpretation mv: causal_value "\<lambda>m. distinct (mv_dots m)" "\<lambda>m. set (mv_dots m)"
  map_value_merge map_value_is_empty map_value_default
  by unfold_locales
    (auto simp: map_value_default_def dotset_new_def map_value_is_empty_def dotset_is_empty_def
      map_value_merge_def Let_def dotset_merge_props dest: dotset_merge_props
      split: prod.splits, (metis dotset_merge_props fst_conv)+)

definition set_wf :: "cube_set \<Rightarrow> bool" where
  "set_wf a \<longleftrightarrow> cm_wf distinct dotset_is_empty (set_values a) \<and> lm_wf (set_vv a) \<and> lm_wf (set_dots a) \<and>
     (\<forall>k. cm_at set (set_values a) k \<subseteq> vv_dots (set_vv a))"

definition set_members :: "cube_set \<Rightarrow> bytes set" where
  "set_members a = dom (map_of (set_values a))"

definition map_keys :: "cube_map \<Rightarrow> bytes set" where
  "map_keys a = dom (map_of (map_values a))"

definition map_wf :: "cube_map \<Rightarrow> bool" where
  "map_wf a \<longleftrightarrow> cm_wf (\<lambda>m. distinct (mv_dots m)) map_value_is_empty (map_values a) \<and>
     lm_wf (map_vv a) \<and> lm_wf (map_dots a) \<and>
     (\<forall>k. cm_at (\<lambda>m. set (mv_dots m)) (map_values a) k \<subseteq> vv_dots (map_vv a))"

text \<open>The join of one key, with the clocks of the two sides.\<close>

lemma set_merge_at:
  assumes "set_wf a" "set_wf b"
  shows "cm_at set (set_values (set_merge a b)) k =
    (if k \<notin> set_members b then cm_at set (set_values a) k
     else causal_join (cm_at set (set_values a) k) (vv_dots (set_vv a))
            (cm_at set (set_values b) k) (vv_dots (set_vv b)))"
  using assms
  by (auto simp: set_merge_def set_wf_def ds.cm_merge_at clock_dots_vv set_members_def domIff)

lemma set_members_at:
  "set_wf a \<Longrightarrow> k \<in> set_members a \<longleftrightarrow> cm_at set (set_values a) k \<noteq> {}"
  by (simp add: set_wf_def set_members_def ds.cm_at_nonempty)

lemma set_wf_merge: "set_wf a \<Longrightarrow> set_wf b \<Longrightarrow> set_wf (set_merge a b)"
  using ds.cm_at_merge_subset [of "set_values a" "set_values b" _ "vv_contains (set_vv a)"
      "vv_contains (set_vv b)"]
  by (simp add: set_wf_def set_merge_def ds.cm_merge_wf lm_wf_vv_merge vv_dots_merge clock_dots_vv)

lemma map_merge_at:
  assumes "map_wf a" "map_wf b"
  shows "cm_at (\<lambda>m. set (mv_dots m)) (map_values (map_merge a b)) k =
    (if k \<notin> map_keys b then cm_at (\<lambda>m. set (mv_dots m)) (map_values a) k
     else causal_join (cm_at (\<lambda>m. set (mv_dots m)) (map_values a) k) (vv_dots (map_vv a))
            (cm_at (\<lambda>m. set (mv_dots m)) (map_values b) k) (vv_dots (map_vv b)))"
  using assms
  by (auto simp: map_merge_def map_wf_def mv.cm_merge_at clock_dots_vv map_keys_def domIff)

lemma map_keys_at:
  "map_wf a \<Longrightarrow> k \<in> map_keys a \<longleftrightarrow> cm_at (\<lambda>m. set (mv_dots m)) (map_values a) k \<noteq> {}"
  by (simp add: map_wf_def map_keys_def mv.cm_at_nonempty)

lemma map_wf_merge: "map_wf a \<Longrightarrow> map_wf b \<Longrightarrow> map_wf (map_merge a b)"
  using mv.cm_at_merge_subset [of "map_values a" "map_values b" _ "vv_contains (map_vv a)"
      "vv_contains (map_vv b)"]
  by (simp add: map_wf_def map_merge_def mv.cm_merge_wf lm_wf_vv_merge vv_dots_merge clock_dots_vv)

lemma set_insert_props:
  assumes "set_wf a"
  shows "set_wf (snd (set_insert a i v x))"
    and "set_members (snd (set_insert a i v x)) = insert x (set_members a)"
    and "fst (set_insert a i v x) \<longleftrightarrow> x \<notin> set_members a"
proof -
  have "cm_at set (AList.update x (dotset_from_dot (i, v)) (set_values a)) k \<subseteq>
      vv_dots (vv_add (set_vv a) i v)" for k
    using assms by (auto simp: set_wf_def cm_at_def lm_simps vv_dots_add dotset_from_dot_def
        dotset_new_def split: option.splits)
  moreover have "cm_wf distinct dotset_is_empty
      (AList.update x (dotset_from_dot (i, v)) (set_values a))"
    using assms by (intro cm_wf_update)
      (simp_all add: set_wf_def dotset_from_dot_def dotset_is_empty_def ls_insert_def dotset_new_def)
  ultimately show "set_wf (snd (set_insert a i v x))"
    using assms by (simp add: set_insert_def cm_insert_def set_wf_def lm_wf_vv_add)
  show "set_members (snd (set_insert a i v x)) = insert x (set_members a)"
    by (auto simp: set_insert_def cm_insert_def set_members_def update_conv')
  show "fst (set_insert a i v x) \<longleftrightarrow> x \<notin> set_members a"
    by (auto simp: set_insert_def cm_insert_def set_members_def)
qed

lemma set_remove_props:
  assumes "set_wf a"
  shows "set_wf (snd (set_remove a i v x))"
    and "set_members (snd (set_remove a i v x)) = set_members a - {x}"
    and "fst (set_remove a i v x) \<longleftrightarrow> x \<in> set_members a"
proof -
  have "cm_at set (AList.delete x (set_values a)) k \<subseteq> vv_dots (vv_add (set_vv a) i v)" for k
    using assms by (cases "k = x") (auto simp: set_wf_def cm_at_def lm_simps vv_dots_add)
  then show "set_wf (snd (set_remove a i v x))"
    using assms by (simp add: set_remove_def cm_remove_def set_wf_def lm_wf_vv_add cm_wf_delete)
  show "set_members (snd (set_remove a i v x)) = set_members a - {x}"
    by (auto simp: set_remove_def cm_remove_def set_members_def delete_conv' split: if_splits)
  show "fst (set_remove a i v x) \<longleftrightarrow> x \<in> set_members a"
    by (auto simp: set_remove_def cm_remove_def set_members_def)
qed

lemma map_insert_props:
  assumes "map_wf a"
  shows "map_wf (snd (map_insert now a i v k x))"
    and "map_keys (snd (map_insert now a i v k x)) = insert k (map_keys a)"
    and "fst (map_insert now a i v k x) \<longleftrightarrow> k \<notin> map_keys a"
proof -
  have "cm_at (\<lambda>m. set (mv_dots m)) (AList.update k (map_value_new now (i, v) x) (map_values a)) j \<subseteq>
      vv_dots (vv_add (map_vv a) i v)" for j
    using assms by (auto simp: map_wf_def cm_at_def lm_simps vv_dots_add dotset_from_dot_def
        dotset_new_def map_value_new_def split: option.splits)
  moreover have "cm_wf (\<lambda>m. distinct (mv_dots m)) map_value_is_empty
      (AList.update k (map_value_new now (i, v) x) (map_values a))"
    using assms by (intro cm_wf_update)
      (simp_all add: map_wf_def dotset_from_dot_def dotset_is_empty_def ls_insert_def dotset_new_def
        map_value_new_def map_value_is_empty_def)
  ultimately show "map_wf (snd (map_insert now a i v k x))"
    using assms by (simp add: map_insert_def cm_insert_def map_wf_def lm_wf_vv_add)
  show "map_keys (snd (map_insert now a i v k x)) = insert k (map_keys a)"
    by (auto simp: map_insert_def cm_insert_def map_keys_def update_conv')
  show "fst (map_insert now a i v k x) \<longleftrightarrow> k \<notin> map_keys a"
    by (auto simp: map_insert_def cm_insert_def map_keys_def)
qed

lemma map_remove_props:
  assumes "map_wf a"
  shows "map_wf (snd (map_remove a i v k))"
    and "map_keys (snd (map_remove a i v k)) = map_keys a - {k}"
    and "fst (map_remove a i v k) \<longleftrightarrow> k \<in> map_keys a"
proof -
  have "cm_at (\<lambda>m. set (mv_dots m)) (AList.delete k (map_values a)) j \<subseteq> vv_dots (vv_add (map_vv a) i v)" for j
    using assms by (cases "j = k") (auto simp: map_wf_def cm_at_def lm_simps vv_dots_add)
  then show "map_wf (snd (map_remove a i v k))"
    using assms by (simp add: map_remove_def cm_remove_def map_wf_def lm_wf_vv_add cm_wf_delete)
  show "map_keys (snd (map_remove a i v k)) = map_keys a - {k}"
    by (auto simp: map_remove_def cm_remove_def map_keys_def delete_conv' split: if_splits)
  show "fst (map_remove a i v k) \<longleftrightarrow> k \<in> map_keys a"
    by (auto simp: map_remove_def cm_remove_def map_keys_def)
qed

text \<open>A value drained from \<^verbatim>\<open>other\<close>, merged with the default value, keeps its bytes.\<close>

lemma map_value_merge_default:
  "mv_value (fst (map_value_merge m map_value_default s o')) = mv_value m \<and>
   mv_timestamp (fst (map_value_merge m map_value_default s o')) = mv_timestamp m"
proof -
  have "\<not> mv_timestamp m < 0" "\<not> mv_value m < []"
    by simp_all
  then show ?thesis
    by (simp add: map_value_merge_def map_value_default_def Let_def split: prod.splits)
qed

text \<open>
  Merging a replica that removed an element into a replica that still has it: the element
  stays. In the other order it goes.
\<close>

lemma set_merge_remove_kept:
  assumes "set_wf a"
  shows "set_members (set_merge a (snd (set_remove a i v x))) = set_members a"
proof -
  have wf: "cm_wf distinct dotset_is_empty (set_values a)"
    using assms by (simp add: set_wf_def)
  have "cm_at set (set_values (set_merge a (snd (set_remove a i v x)))) k = cm_at set (set_values a) k" for k
    using ds.cm_merge_delete_at [OF wf] by (simp add: set_merge_def set_remove_def cm_remove_def)
  then show ?thesis
    using set_members_at set_wf_merge set_remove_props(1) assms by auto
qed

lemma map_merge_remove_kept:
  assumes "map_wf a"
  shows "map_keys (map_merge a (snd (map_remove a i v k))) = map_keys a"
proof -
  have wf: "cm_wf (\<lambda>m. distinct (mv_dots m)) map_value_is_empty (map_values a)"
    using assms by (simp add: map_wf_def)
  have "cm_at (\<lambda>m. set (mv_dots m)) (map_values (map_merge a (snd (map_remove a i v k)))) j =
      cm_at (\<lambda>m. set (mv_dots m)) (map_values a) j" for j
    using mv.cm_merge_delete_at [OF wf] by (simp add: map_merge_def map_remove_def cm_remove_def)
  then show ?thesis
    using map_keys_at map_wf_merge map_remove_props(1) assms by auto
qed

lemma set_merge_remove_gone:
  assumes "set_wf a"
  shows "set_members (set_merge (snd (set_remove a i v x)) a) = set_members a - {x}"
proof -
  let ?b = "snd (set_remove a i v x)"
  have wf: "set_wf ?b"
    using set_remove_props [OF assms] by simp
  have vv: "vv_dots (set_vv a) \<subseteq> vv_dots (set_vv ?b)"
    by (auto simp: set_remove_def vv_dots_add split: prod.splits)
  have at: "cm_at set (set_values ?b) k = (if k = x then {} else cm_at set (set_values a) k)" for k
    by (simp add: set_remove_def cm_remove_def cm_at_def lm_simps)
  have "cm_at set (set_values (set_merge ?b a)) k = cm_at set (set_values ?b) k" for k
  proof -
    have "cm_at set (set_values a) k \<subseteq> vv_dots (set_vv ?b)"
      using assms vv by (auto simp: set_wf_def)
    then show ?thesis
      by (auto simp: set_merge_at [OF wf assms] at causal_join_def)
  qed
  then have "set_members (set_merge ?b a) = set_members ?b"
    by (auto simp: set_members_at [OF wf] set_members_at [OF set_wf_merge [OF wf assms]])
  then show ?thesis
    by (simp add: set_remove_props(2) [OF assms])
qed

section \<open>Counters\<close>

lemma counter_merge_lookup:
  assumes "lm_wf (ctr_values b)"
  shows "map_of (ctr_values (counter_merge a b)) i =
    (case (map_of (ctr_values a) i, map_of (ctr_values b) i) of
       (Some (v, x), Some (w, y)) \<Rightarrow> Some (if v < w then (w, y) else (v, x))
     | (Some p, None) \<Rightarrow> Some p
     | (None, q) \<Rightarrow> q)"
proof -
  have "map_of (foldl (\<lambda>values (i, ov, ox).
         case map_of values i of
           Some (v, x) \<Rightarrow> if v < ov then AList.update i (ov, ox) values else values
         | None \<Rightarrow> AList.update i (ov, ox) values) m ws) i =
    (case (map_of m i, map_of ws i) of
       (Some (v, x), Some (w, y)) \<Rightarrow> Some (if v < w then (w, y) else (v, x))
     | (Some p, None) \<Rightarrow> Some p
     | (None, q) \<Rightarrow> q)"
    if "lm_wf ws" for m and ws :: "(id \<times> version \<times> i64) list"
    using that
  proof (induction ws arbitrary: m)
    case (Cons p ws)
    obtain j w y where p: "p = (j, w, y)"
      by (metis surj_pair)
    have "map_of ws j = None"
      using Cons.prems p by (auto simp: map_of_eq_None_iff)
    then show ?case
      using Cons p by (auto simp: lm_simps split: option.splits)
  qed (auto split: option.splits)
  from this [OF assms] show ?thesis
    by (simp add: counter_merge_def)
qed

lemma counter_wf_merge: "lm_wf (ctr_values a) \<Longrightarrow> lm_wf (ctr_values (counter_merge a b))"
proof -
  have "lm_wf (foldl (\<lambda>values (i, ov, ox).
         case map_of values i of
           Some (v, x) \<Rightarrow> if v < ov then AList.update i (ov, ox) values else values
         | None \<Rightarrow> AList.update i (ov, ox) values) m ws)"
    if "lm_wf m" for m and ws :: "(id \<times> version \<times> i64) list"
    using that by (induction ws arbitrary: m) (auto simp: lm_wf_update split: option.splits)
  then show "lm_wf (ctr_values a) \<Longrightarrow> lm_wf (ctr_values (counter_merge a b))"
    by (simp add: counter_merge_def)
qed

text \<open>Two counters agree when the same version of the same node carries the same amount.\<close>

definition counter_agree :: "counter \<Rightarrow> counter \<Rightarrow> bool" where
  "counter_agree a b \<longleftrightarrow> (\<forall>i v x y.
     map_of (ctr_values a) i = Some (v, x) \<longrightarrow> map_of (ctr_values b) i = Some (v, y) \<longrightarrow> x = y)"

lemma counter_merge_commute:
  assumes "lm_wf (ctr_values a)" "lm_wf (ctr_values b)" "counter_agree a b"
  shows "map_of (ctr_values (counter_merge a b)) = map_of (ctr_values (counter_merge b a))"
proof
  fix i
  show "map_of (ctr_values (counter_merge a b)) i = map_of (ctr_values (counter_merge b a)) i"
    using assms(3) unfolding counter_merge_lookup [OF assms(1)] counter_merge_lookup [OF assms(2)]
    by (cases "map_of (ctr_values a) i"; cases "map_of (ctr_values b) i")
      (auto simp: counter_agree_def)
qed

lemma sum_list_update:
  fixes f :: "'v \<Rightarrow> 'b::ab_group_add"
  assumes "lm_wf m"
  shows "sum_list (map (\<lambda>(_, x). f x) (AList.update k y m)) =
    sum_list (map (\<lambda>(_, x). f x) m) + f y -
    (case map_of m k of Some x \<Rightarrow> f x | None \<Rightarrow> 0)"
  using assms by (induction m) (auto simp: map_of_eq_None_iff split: option.splits)

lemma counter_inc_get:
  assumes "lm_wf (ctr_values c)"
  shows "counter_get (snd (counter_inc c i v n)) = counter_get c + n"
proof -
  have "counter_get c = sum_list (map (\<lambda>(_, p). snd p) (ctr_values c))" for c
    by (auto simp: counter_get_def intro!: arg_cong [where f = sum_list])
  then show ?thesis
    using sum_list_update [OF assms, of snd i]
    by (simp add: counter_inc_def Let_def split: prod.splits option.splits)
qed

section \<open>Cubes\<close>

text \<open>The empty \<open>Void\<close> is a unit of the merge: \<^verbatim>\<open>replace_default\<close> followed by \<^verbatim>\<open>merge\<close> loses nothing.\<close>

lemma vv_contains_empty: "vv_contains [] = (\<lambda>_ _. False)"
  by (auto simp: vv_contains_def fun_eq_iff)

lemma vv_merge_new: "lm_wf vv \<Longrightarrow> vv_merge vv_new vv = vv"
proof -
  have "lm_wf (a @ b) \<Longrightarrow> foldl (\<lambda>vv (i, v). vv_add vv i v) a b = a @ b" for a b
  proof (induction b arbitrary: a)
    case (Cons p b)
    obtain i v where p: "p = (i, v)"
      by force
    have "i \<notin> fst ` set a"
      using Cons.prems p by auto
    then have "map_of a i = None" "AList.update i v a = a @ [p]"
      by (simp add: map_of_eq_None_iff, induction a) (auto simp: p)
    then have "vv_add a i v = a @ [p]"
      by (simp add: vv_add_def)
    with Cons p show ?case
      by simp
  qed simp
  from this [of "[]" vv] show "lm_wf vv \<Longrightarrow> vv_merge vv_new vv = vv"
    by (simp add: vv_merge_def vv_new_def)
qed

lemma cube_merge_default:
  shows "cube_merge cube_default c = c"
    and "(\<And>vv. c = Void vv \<Longrightarrow> lm_wf vv) \<Longrightarrow> cube_merge c cube_default = c"
proof -
  have ctr: "counter_merge a (counter_with vv_new) = a" for a
    by (simp add: counter_merge_def counter_with_def)
  have val: "value_merge a (value_with vv_new) = a" for a
    by (simp add: value_merge_def value_with_def dotmap_merge_new vv_new_def vv_contains_empty vv_merge_def)
  have set: "set_merge a (set_with vv_new) = a" for a
    by (simp add: set_merge_def set_with_def cm_merge_new vv_new_def vv_merge_def)
  have map: "map_merge a (map_with vv_new) = a" for a
    by (simp add: map_merge_def map_with_def cm_merge_new vv_new_def vv_merge_def)
  have void: "vv_merge vv vv_new = vv" "foldl (\<lambda>vv (i, v). vv_add vv i v) vv [] = vv" for vv
    by (simp_all add: vv_merge_def vv_new_def)
  show "cube_merge cube_default c = c"
    by (cases c) (simp_all add: cube_default_def ctr val set map void)
  show "cube_merge c cube_default = c" if "\<And>vv. c = Void vv \<Longrightarrow> lm_wf vv"
    using that by (cases c) (simp_all add: cube_default_def ctr val set map vv_merge_new)
qed

text \<open>The variant of a merge does not depend on the order of its arguments.\<close>

fun cube_rank :: "cube \<Rightarrow> nat" where
  "cube_rank (Counter _) = 0"
| "cube_rank (Value _) = 1"
| "cube_rank (Map _) = 2"
| "cube_rank (Set _) = 3"
| "cube_rank (Void _) = 4"

lemma cube_rank_merge: "cube_rank (cube_merge a b) = min (cube_rank a) (cube_rank b)"
  by (cases a; cases b) simp_all

section \<open>Properties\<close>

text \<open>
  C8: A value register refines the multi-value register: merging two well-formed registers, seen as
  their values by dot and the dots they have seen, is the join of the specification, which keeps
  a value unless the other side has seen and dropped it.
\<close>

theorem value_merge_refines:
  assumes "value_wf a" "value_wf b"
  shows "value_wf (value_merge a b) \<and>
    value_abs (value_merge a b) = mvr_join (value_abs a) (value_abs b)"
  using value_merge_abs [OF assms] value_wf_merge [OF assms] by blast

theorem value_merge_refines_witness:
  "let a = value_set (value_with []) 1 1 (Some ''x'') []; b = value_set (value_with []) 2 1 (Some ''y'') [] in
   value_wf (value_merge a b) \<and> value_abs (value_merge a b) = mvr_join (value_abs a) (value_abs b)"
  unfolding Let_def
  by (rule value_merge_refines) (auto intro!: value_wf_set value_wf_with)

text \<open>
  C13: Replicas of a value register converge: merge is commutative, associative and idempotent on
  well-formed registers that agree on the value of a dot, up to the order of their entries.
\<close>

theorem value_merge_converges:
  assumes "value_wf a" "value_wf b" "value_wf c" "mvr_agree (value_abs a) (value_abs b)"
  shows "value_abs (value_merge a b) = value_abs (value_merge b a) \<and>
    value_abs (value_merge (value_merge a b) c) = value_abs (value_merge a (value_merge b c)) \<and>
    value_abs (value_merge a a) = value_abs a"
proof -
  have dom: "dom (fst (value_abs x)) \<subseteq> snd (value_abs x)" if "value_wf x" for x
    using that by (auto simp: value_wf_def value_abs_def dotmap_dots_dom)
  show ?thesis
    unfolding value_merge_abs [OF assms(1,2)] value_merge_abs [OF assms(2,1)]
      value_merge_abs [OF value_wf_merge [OF assms(1,2)] assms(3)]
      value_merge_abs [OF assms(1) value_wf_merge [OF assms(2,3)]] value_merge_abs [OF assms(2,3)]
      value_merge_abs [OF assms(1,1)]
    using mvr_join_commute [OF assms(4)] mvr_join_idem mvr_join_assoc [OF dom dom dom, OF assms(1-3)]
    by blast
qed

theorem value_merge_converges_witness:
  "let a = value_set (value_with []) 1 1 (Some ''x'') []; b = value_set (value_with []) 2 1 (Some ''y'') [];
       c = value_set a 1 2 None [(1, 1)] in
   value_abs (value_merge a b) = value_abs (value_merge b a) \<and>
   value_abs (value_merge (value_merge a b) c) = value_abs (value_merge a (value_merge b c)) \<and>
   value_abs (value_merge a a) = value_abs a"
  unfolding Let_def
proof (rule value_merge_converges)
  let ?a = "value_set (value_with []) 1 1 (Some ''x'') []"
  show "value_wf ?a" "value_wf (value_set (value_with []) 2 1 (Some ''y'') [])"
    "value_wf (value_set ?a 1 2 None [(1, 1)])"
    by (intro value_wf_set value_wf_with; simp)+
  show "mvr_agree (value_abs ?a) (value_abs (value_set (value_with []) 2 1 (Some ''y'') []))"
    by (auto simp: mvr_agree_def value_abs_def value_set_def value_with_def dotmap_insert_def
        dotmap_discard_def dotmap_new_def split: if_splits)
qed

text \<open>
  C9: A write to a value register drops exactly the values the client has seen, those of the version
  vector it sends, and adds the new value under its dot (none, a tombstone, for a deletion);
  concurrent values stay.
\<close>

theorem value_set_refines:
  assumes "value_wf a"
  shows "value_wf (value_set a i v x vv) \<and>
    value_abs (value_set a i v x vv) =
      mvr_write (value_abs a) (i, v) x (vv_dots vv) {(j, w). j = i \<and> w \<le> v}"
  using value_set_abs [OF assms] value_wf_set [OF assms] by blast

theorem value_set_refines_witness:
  "let a = value_set (value_with []) 1 1 (Some ''x'') [] in
   value_wf (value_set a 1 2 (Some ''y'') [(1, 1)]) \<and>
   value_abs (value_set a 1 2 (Some ''y'') [(1, 1)]) =
     mvr_write (value_abs a) (1, 2) (Some ''y'') (vv_dots [(1, 1)]) {(j, w). j = 1 \<and> w \<le> 2}"
  unfolding Let_def
  by (rule value_set_refines) (auto intro!: value_wf_set value_wf_with)

text \<open>
  On one replica a set is a set: insert and remove add and take away one member, and report
  whether they changed it.
\<close>

theorem set_insert_remove:
  assumes "set_wf a"
  shows "set_wf (snd (set_insert a i v x)) \<and>
    set_members (snd (set_insert a i v x)) = insert x (set_members a) \<and>
    (fst (set_insert a i v x) \<longleftrightarrow> x \<notin> set_members a) \<and>
    set_wf (snd (set_remove a i v x)) \<and>
    set_members (snd (set_remove a i v x)) = set_members a - {x} \<and>
    (fst (set_remove a i v x) \<longleftrightarrow> x \<in> set_members a)"
  by (simp add: set_insert_props [OF assms] set_remove_props [OF assms])

theorem set_insert_remove_witness:
  "let a = snd (set_insert (set_with []) 1 1 ''m'') in
   set_wf (snd (set_insert a 1 2 ''n'')) \<and>
   set_members (snd (set_insert a 1 2 ''n'')) = insert ''n'' (set_members a) \<and>
   (fst (set_insert a 1 2 ''n'') \<longleftrightarrow> ''n'' \<notin> set_members a) \<and>
   set_wf (snd (set_remove a 1 2 ''n'')) \<and>
   set_members (snd (set_remove a 1 2 ''n'')) = set_members a - {''n''} \<and>
   (fst (set_remove a 1 2 ''n'') \<longleftrightarrow> ''n'' \<in> set_members a)"
  unfolding Let_def
  by (rule set_insert_remove [OF set_insert_props(1)])
     (simp add: set_wf_def set_with_def cm_wf_def cm_new_def cm_at_def vv_new_def)

text \<open>
  C38: Removals do not survive a merge into a replica that still has the member: it keeps every
  member, although the removing replica, merging the same states the other way, does not. The
  two replicas of a set (and, for field keys, of a map) stay different.
\<close>

theorem set_remove_not_propagated:
  assumes "set_wf a" "map_wf m"
  shows "set_members (set_merge a (snd (set_remove a i v x))) = set_members a \<and>
    set_members (set_merge (snd (set_remove a i v x)) a) = set_members a - {x} \<and>
    map_keys (map_merge m (snd (map_remove m i v k))) = map_keys m"
  by (simp add: set_merge_remove_kept [OF assms(1)] set_merge_remove_gone [OF assms(1)]
      map_merge_remove_kept [OF assms(2)])

theorem set_remove_not_propagated_witness:
  "let a = snd (set_insert (set_with []) 1 1 ''m''); m = snd (map_insert 5 (map_with []) 1 1 ''k'' ''v'') in
   set_members (set_merge a (snd (set_remove a 1 2 ''m''))) = set_members a \<and>
   set_members (set_merge (snd (set_remove a 1 2 ''m'')) a) = set_members a - {''m''} \<and>
   map_keys (map_merge m (snd (map_remove m 1 2 ''k''))) = map_keys m"
  unfolding Let_def
  by (rule set_remove_not_propagated [OF set_insert_props(1) map_insert_props(1)])
     (simp_all add: set_wf_def set_with_def map_wf_def map_with_def cm_wf_def cm_new_def cm_at_def
       vv_new_def)

text \<open>
  A counter adds what it is incremented by, modulo \<open>2 ^ 64\<close>, and the merge of two counters that
  agree on the increments of a version does not depend on the side it is done on.
\<close>

theorem counter_inc_merge:
  assumes "lm_wf (ctr_values a)" "lm_wf (ctr_values b)" "counter_agree a b"
  shows "counter_get (snd (counter_inc a i v n)) = counter_get a + n \<and>
    map_of (ctr_values (counter_merge a b)) = map_of (ctr_values (counter_merge b a))"
  by (simp add: counter_inc_get [OF assms(1)] counter_merge_commute [OF assms])

theorem counter_inc_merge_witness:
  "let a = snd (counter_inc (counter_with []) 1 1 5); b = snd (counter_inc (counter_with []) 2 1 3) in
   counter_get (snd (counter_inc a 1 2 (- 1))) = counter_get a + (- 1) \<and>
   map_of (ctr_values (counter_merge a b)) = map_of (ctr_values (counter_merge b a))"
  unfolding Let_def
  by (rule counter_inc_merge)
     (simp_all add: counter_inc_def counter_with_def counter_agree_def)

end
