(* ===== verification/Fabric_Msg.thy ===== *)
theory Fabric_Msg
  imports Cubes Types
begin

text \<open>
  The messages nodes exchange (\<^verbatim>\<open>fabric_msg.rs\<close>). \<^verbatim>\<open>FabricMsgRef\<close> is the same type by reference. A ring
  travels as the bytes it was serialized to.
\<close>

datatype fabric_msg_type = Crud | Synch | DHT_type | Unknown_type

datatype fabric_error =
  NoRoute | CookieNotFound | BadVNodeStatus | NotReady | SyncInterrupted | Fabric_StorageError

record msg_remote_get =
  mrg_vnode :: vnode_id
  mrg_cookie :: cookie
  mrg_keys :: "bytes list"

record msg_remote_get_ack =
  mrga_vnode :: vnode_id
  mrga_cookie :: cookie
  mrga_result :: "(cube list, fabric_error) res"

record msg_remote_set =
  mrs_vnode :: vnode_id
  mrs_cookie :: cookie
  mrs_writes :: "(bytes \<times> cube \<times> bool) list"
  mrs_reply :: bool

record msg_remote_set_ack =
  mrsa_vnode :: vnode_id
  mrsa_cookie :: cookie
  mrsa_result :: "(cube option list, fabric_error) res"

record msg_sync_start =
  mss_vnode :: vnode_id
  mss_cookie :: cookie
  mss_clocks_in_peer :: bvv
  mss_target :: "node_id option"

record msg_sync_fin =
  msf_vnode :: vnode_id
  msf_cookie :: cookie
  msf_result :: "(bvv, fabric_error) res"

record msg_sync_send =
  msd_vnode :: vnode_id
  msd_cookie :: cookie
  msd_seq :: u64
  msd_key :: bytes
  msd_value :: cube

record msg_sync_ack =
  msa_vnode :: vnode_id
  msa_cookie :: cookie
  msa_seq :: u64

datatype fabric_msg =
    RemoteGet msg_remote_get
  | RemoteGetAck msg_remote_get_ack
  | RemoteSet msg_remote_set
  | RemoteSetAck msg_remote_set_ack
  | SyncStart msg_sync_start
  | SyncSend msg_sync_send
  | SyncAck msg_sync_ack
  | SyncFin msg_sync_fin
  | DHTAE version_vector
  | DHTSync bytes
  | Unknown

text \<open>\<^verbatim>\<open>unreachable!\<close> is the result \<open>None\<close>.\<close>

fun get_type :: "fabric_msg \<Rightarrow> fabric_msg_type option" where
  "get_type (RemoteGet _) = Some Crud"
| "get_type (RemoteGetAck _) = Some Crud"
| "get_type (RemoteSet _) = Some Crud"
| "get_type (RemoteSetAck _) = Some Crud"
| "get_type (SyncStart _) = Some Synch"
| "get_type (SyncSend _) = Some Synch"
| "get_type (SyncAck _) = Some Synch"
| "get_type (SyncFin _) = Some Synch"
| "get_type (DHTSync _) = Some DHT_type"
| "get_type (DHTAE _) = Some DHT_type"
| "get_type Unknown = None"

end
