(* ===== verification/Codec.thy ===== *)
theory Codec
  imports Cubes Ring
begin

text \<open>
  What the program relies on of its serializer \<^verbatim>\<open>bincode\<close>: a value read back is the value written
  (\<open>codec\<close>). The serializer is a parameter of the components that store or send values. A
  reference serializer for clocks, cubes, saved states and rings, built from the protocol's own
  serializer, shows that the law can be met by functions that compute.
\<close>

section \<open>The law of a serializer\<close>

locale codec =
  fixes ser :: "'a \<Rightarrow> bytes" and de :: "bytes \<Rightarrow> 'a option"
  assumes de_ser: "de (ser x) = Some x"
begin

lemma ser_inj: "ser x = ser y \<longleftrightarrow> x = y"
  using de_ser by (metis option.inject)

end

section \<open>Values as protocol values\<close>

text \<open>
  An encoder to protocol values, with arrays of at most two elements, so that every value
  qualifies for the round trip of the protocol's serializer.
\<close>

locale value_codec =
  fixes enc :: "'a \<Rightarrow> resp_value" and dec :: "resp_value \<Rightarrow> 'a option"
  assumes dec_enc: "dec (enc x) = Some x"
    and enc_wf: "resp_wf 2 (enc x)"

definition to_bytes :: "('a \<Rightarrow> resp_value) \<Rightarrow> 'a \<Rightarrow> bytes" where
  "to_bytes enc x = serialize_into (enc x)"

definition of_bytes :: "(resp_value \<Rightarrow> 'a option) \<Rightarrow> bytes \<Rightarrow> 'a option" where
  "of_bytes dec bs =
     (case parse_value 2 (length bs) bs of (Ok v, []) \<Rightarrow> dec v | _ \<Rightarrow> None)"

sublocale value_codec \<subseteq> bytes: codec "to_bytes enc" "of_bytes dec"
proof
  show "of_bytes dec (to_bytes enc x) = Some x" for x
    using parse_value_serialized [OF enc_wf, of x "length (serialize_into (enc x))" "[]"]
    by (simp add: of_bytes_def to_bytes_def dec_enc)
qed

definition enc_word :: "'a::len word \<Rightarrow> resp_value" where
  "enc_word w = RInt (ucast w)"

fun dec_word :: "resp_value \<Rightarrow> 'a::len word option" where
  "dec_word (RInt i) = Some (ucast i)"
| "dec_word _ = None"

definition enc_pair :: "('a \<Rightarrow> resp_value) \<Rightarrow> ('b \<Rightarrow> resp_value) \<Rightarrow> 'a \<times> 'b \<Rightarrow> resp_value" where
  "enc_pair f g p = RArray [f (fst p), g (snd p)]"

fun dec_pair :: "(resp_value \<Rightarrow> 'a option) \<Rightarrow> (resp_value \<Rightarrow> 'b option) \<Rightarrow> resp_value \<Rightarrow> ('a \<times> 'b) option" where
  "dec_pair f g (RArray [a, b]) =
     (case (f a, g b) of (Some x, Some y) \<Rightarrow> Some (x, y) | _ \<Rightarrow> None)"
| "dec_pair f g _ = None"

fun enc_list :: "('a \<Rightarrow> resp_value) \<Rightarrow> 'a list \<Rightarrow> resp_value" where
  "enc_list f [] = RNil"
| "enc_list f (x # xs) = RArray [f x, enc_list f xs]"

fun dec_list :: "(resp_value \<Rightarrow> 'a option) \<Rightarrow> resp_value \<Rightarrow> 'a list option" where
  "dec_list f RNil = Some []"
| "dec_list f (RArray [a, b]) =
     (case (f a, dec_list f b) of (Some x, Some xs) \<Rightarrow> Some (x # xs) | _ \<Rightarrow> None)"
| "dec_list f _ = None"

definition enc_option :: "('a \<Rightarrow> resp_value) \<Rightarrow> 'a option \<Rightarrow> resp_value" where
  "enc_option f x = (case x of None \<Rightarrow> RNil | Some y \<Rightarrow> RArray [f y])"

fun dec_option :: "(resp_value \<Rightarrow> 'a option) \<Rightarrow> resp_value \<Rightarrow> 'a option option" where
  "dec_option f RNil = Some None"
| "dec_option f (RArray [a]) = map_option Some (f a)"
| "dec_option f _ = None"

definition enc_char :: "char \<Rightarrow> resp_value" where
  "enc_char c = RInt (of_nat (of_char c))"

fun dec_char :: "resp_value \<Rightarrow> char option" where
  "dec_char (RInt i) = Some (char_of (unat i))"
| "dec_char _ = None"

definition enc_nat :: "nat \<Rightarrow> resp_value" where
  "enc_nat n = enc_list enc_char (show_nat n)"

definition dec_nat :: "resp_value \<Rightarrow> nat option" where
  "dec_nat v = Option.bind (dec_list dec_char v) parse_digits"

lemma value_codec_word: "LENGTH('a::len) \<le> 64 \<Longrightarrow> value_codec (enc_word :: 'a word \<Rightarrow> _) dec_word"
proof
  fix w :: "'a word"
  assume "LENGTH('a) \<le> 64"
  then have "ucast (ucast w :: i64) = w"
    by (intro bit_word_eqI) (auto simp: bit_simps)
  then show "dec_word (enc_word w) = Some w" "resp_wf 2 (enc_word w)"
    by (simp_all add: enc_word_def)
qed

lemma value_codec_pair:
  assumes "value_codec f g" "value_codec h k"
  shows "value_codec (enc_pair f h) (dec_pair g k)"
  using assms by (simp add: value_codec_def enc_pair_def)

lemma value_codec_list:
  assumes "value_codec f g"
  shows "value_codec (enc_list f) (dec_list g)"
proof
  fix xs
  show "dec_list g (enc_list f xs) = Some xs"
    using assms by (induction xs) (simp_all add: value_codec_def)
  show "resp_wf 2 (enc_list f xs)"
    using assms by (induction xs) (simp_all add: value_codec_def)
qed

lemma value_codec_option: "value_codec f g \<Longrightarrow> value_codec (enc_option f) (dec_option g)"
  by (simp add: value_codec_def enc_option_def split: option.splits)

lemma value_codec_char: "value_codec enc_char dec_char"
proof
  fix c
  have "(of_char c :: nat) < 2 ^ 64"
    by (rule order_less_trans [OF nat_of_char_less_256]) simp
  then show "dec_char (enc_char c) = Some c" "resp_wf 2 (enc_char c)"
    by (simp_all add: enc_char_def unat_of_nat)
qed

lemma value_codec_nat: "value_codec enc_nat dec_nat"
proof -
  have "value_codec (enc_list enc_char) (dec_list dec_char)"
    by (rule value_codec_list [OF value_codec_char])
  then show ?thesis
    by (simp add: value_codec_def enc_nat_def dec_nat_def parse_digits_show)
qed

lemma value_codec_iso:
  assumes "value_codec f g" "\<And>x. from (to x) = x"
  shows "value_codec (\<lambda>x. f (to x)) (\<lambda>v. map_option from (g v))"
  using assms by (simp add: value_codec_def)

lemmas value_codec_intros =
  value_codec_word value_codec_pair value_codec_list value_codec_option value_codec_char value_codec_nat

section \<open>A reference serializer\<close>

text \<open>Version vectors and dots, clocks with their bitmaps as sorted lists, and byte strings.\<close>

definition enc_dot :: "dot \<Rightarrow> resp_value" where
  "enc_dot = enc_pair enc_word enc_word"

definition dec_dot :: "resp_value \<Rightarrow> dot option" where
  "dec_dot = dec_pair dec_word dec_word"

definition enc_bytes :: "bytes \<Rightarrow> resp_value" where
  "enc_bytes = enc_list enc_char"

definition dec_bytes :: "resp_value \<Rightarrow> bytes option" where
  "dec_bytes = dec_list dec_char"

definition enc_vv :: "version_vector \<Rightarrow> resp_value" where
  "enc_vv = enc_list enc_dot"

definition dec_vv :: "resp_value \<Rightarrow> version_vector option" where
  "dec_vv = dec_list dec_dot"

definition enc_bvv :: "bvv \<Rightarrow> resp_value" where
  "enc_bvv b =
     enc_list (enc_pair enc_word (enc_pair enc_word (enc_list enc_word)))
       (map (\<lambda>(i, bv). (i, bv_base bv, sorted_list_of_set (bv_bitmap bv))) b)"

definition dec_bvv :: "resp_value \<Rightarrow> bvv option" where
  "dec_bvv v =
     map_option (map (\<lambda>(i, b, vs). (i, \<lparr>bv_base = b, bv_bitmap = set vs\<rparr>)))
       (dec_list (dec_pair dec_word (dec_pair dec_word (dec_list dec_word))) v)"

lemma value_codec_dot: "value_codec enc_dot dec_dot"
  unfolding enc_dot_def dec_dot_def by (intro value_codec_intros) simp_all

lemma value_codec_bytes: "value_codec enc_bytes dec_bytes"
  unfolding enc_bytes_def dec_bytes_def by (intro value_codec_intros)

lemma value_codec_vv: "value_codec enc_vv dec_vv"
  unfolding enc_vv_def dec_vv_def by (intro value_codec_list value_codec_dot)

lemma value_codec_bvv: "value_codec enc_bvv dec_bvv"
  unfolding enc_bvv_def dec_bvv_def
proof (rule value_codec_iso)
  show "value_codec (enc_list (enc_pair enc_word (enc_pair enc_word (enc_list enc_word))))
      (dec_list (dec_pair (dec_word :: _ \<Rightarrow> id option) (dec_pair (dec_word :: _ \<Rightarrow> version option)
        (dec_list (dec_word :: _ \<Rightarrow> version option)))))"
    by (intro value_codec_intros) simp_all
  show "map (\<lambda>(i, b, vs). (i, \<lparr>bv_base = b, bv_bitmap = set vs\<rparr>))
      (map (\<lambda>(i, bv). (i, bv_base bv, sorted_list_of_set (bv_bitmap bv))) b) = b" for b :: bvv
    by (auto simp: comp_def case_prod_beta finite_word_set intro!: map_idI)
qed

text \<open>The cubes: a tag and the fields.\<close>

definition enc_tagged :: "u8 \<Rightarrow> resp_value \<Rightarrow> resp_value" where
  "enc_tagged t v = RArray [enc_word t, v]"

fun dec_tagged :: "resp_value \<Rightarrow> (u8 \<times> resp_value) option" where
  "dec_tagged (RArray [t, v]) = map_option (\<lambda>t. (t, v)) (dec_word t)"
| "dec_tagged _ = None"

definition enc_counter :: "(id \<times> version \<times> i64) list \<times> version_vector \<Rightarrow> resp_value" where
  "enc_counter = enc_pair (enc_list (enc_pair enc_word (enc_pair enc_word enc_word))) enc_vv"

definition dec_counter :: "resp_value \<Rightarrow> ((id \<times> version \<times> i64) list \<times> version_vector) option" where
  "dec_counter = dec_pair (dec_list (dec_pair dec_word (dec_pair dec_word dec_word))) dec_vv"

definition enc_value :: "bytes option dot_map \<times> version_vector \<Rightarrow> resp_value" where
  "enc_value = enc_pair (enc_list (enc_pair enc_dot (enc_option enc_bytes))) enc_vv"

definition dec_value :: "resp_value \<Rightarrow> (bytes option dot_map \<times> version_vector) option" where
  "dec_value = dec_pair (dec_list (dec_pair dec_dot (dec_option dec_bytes))) dec_vv"

definition enc_map :: "(bytes \<times> dot_set \<times> bytes \<times> u64) list \<times> version_vector \<times> version_vector \<Rightarrow> resp_value" where
  "enc_map = enc_pair (enc_list (enc_pair enc_bytes (enc_pair (enc_list enc_dot) (enc_pair enc_bytes enc_word))))
     (enc_pair enc_vv enc_vv)"

definition dec_map :: "resp_value \<Rightarrow> ((bytes \<times> dot_set \<times> bytes \<times> u64) list \<times> version_vector \<times> version_vector) option" where
  "dec_map = dec_pair (dec_list (dec_pair dec_bytes (dec_pair (dec_list dec_dot) (dec_pair dec_bytes dec_word))))
     (dec_pair dec_vv dec_vv)"

definition enc_set :: "(bytes \<times> dot_set) list \<times> version_vector \<times> version_vector \<Rightarrow> resp_value" where
  "enc_set = enc_pair (enc_list (enc_pair enc_bytes (enc_list enc_dot))) (enc_pair enc_vv enc_vv)"

definition dec_set :: "resp_value \<Rightarrow> ((bytes \<times> dot_set) list \<times> version_vector \<times> version_vector) option" where
  "dec_set = dec_pair (dec_list (dec_pair dec_bytes (dec_list dec_dot))) (dec_pair dec_vv dec_vv)"

fun enc_cube :: "cube \<Rightarrow> resp_value" where
  "enc_cube (Counter c) = enc_tagged 0 (enc_counter (ctr_values c, ctr_vv c))"
| "enc_cube (Value a) = enc_tagged 1 (enc_value (val_values a, val_vv a))"
| "enc_cube (Map a) = enc_tagged 2 (enc_map
     (map (\<lambda>(k, m). (k, mv_dots m, mv_value m, mv_timestamp m)) (map_values a), map_dots a, map_vv a))"
| "enc_cube (Set a) = enc_tagged 3 (enc_set (set_values a, set_dots a, set_vv a))"
| "enc_cube (Void vv) = enc_tagged 4 (enc_vv vv)"

definition dec_cube :: "resp_value \<Rightarrow> cube option" where
  "dec_cube v =
     (case dec_tagged v of
        None \<Rightarrow> None
      | Some (t, x) \<Rightarrow>
          if t = 0 then map_option (\<lambda>(vs, vv). Counter \<lparr>ctr_values = vs, ctr_vv = vv\<rparr>) (dec_counter x)
          else if t = 1 then map_option (\<lambda>(vs, vv). Value \<lparr>val_values = vs, val_vv = vv\<rparr>) (dec_value x)
          else if t = 2 then
            map_option (\<lambda>(vs, dots, vv). Map
              \<lparr>map_values = map (\<lambda>(k, ds, v, ts). (k, \<lparr>mv_dots = ds, mv_value = v, mv_timestamp = ts\<rparr>)) vs,
               map_dots = dots, map_vv = vv\<rparr>) (dec_map x)
          else if t = 3 then
            map_option (\<lambda>(vs, dots, vv). Set \<lparr>set_values = vs, set_dots = dots, set_vv = vv\<rparr>) (dec_set x)
          else map_option Void (dec_vv x))"

lemma value_codec_fields:
  "value_codec enc_counter dec_counter" "value_codec enc_value dec_value"
  "value_codec enc_map dec_map" "value_codec enc_set dec_set"
  unfolding enc_counter_def dec_counter_def enc_value_def dec_value_def enc_map_def dec_map_def
    enc_set_def dec_set_def
  by (intro value_codec_intros value_codec_vv value_codec_dot value_codec_bytes; simp)+

lemma value_codec_cube: "value_codec enc_cube dec_cube"
proof
  fix c
  have tagged: "dec_tagged (enc_tagged t v) = Some (t, v)"
    "resp_wf 2 v \<Longrightarrow> resp_wf 2 (enc_tagged t v)" for t v
    using value_codec.dec_enc [OF value_codec_word, of t] value_codec.enc_wf [OF value_codec_word, of t]
    by (simp_all add: enc_tagged_def)
  have eta: "\<lparr>mv_dots = mv_dots m, mv_value = mv_value m, mv_timestamp = mv_timestamp m\<rparr> = m" for m
    by simp
  show "dec_cube (enc_cube c) = Some c"
    by (cases c) (simp_all add: eta dec_cube_def tagged value_codec_fields [THEN value_codec.dec_enc]
        value_codec.dec_enc [OF value_codec_vv] comp_def case_prod_beta)
  show "resp_wf 2 (enc_cube c)"
    by (cases c) (simp_all add: tagged value_codec_fields [THEN value_codec.enc_wf]
        value_codec.enc_wf [OF value_codec_vv])
qed

interpretation cube: value_codec enc_cube dec_cube
  by (rule value_codec_cube)

interpretation clocks: value_codec enc_bvv dec_bvv
  by (rule value_codec_bvv)

interpretation contexts: value_codec enc_vv dec_vv
  by (rule value_codec_vv)

text \<open>The saved state of a vnode and a ring, over encoders of addresses and of metadata.\<close>

definition enc_bool :: "bool \<Rightarrow> resp_value" where
  "enc_bool b = (if b then RInt 1 else RInt 0)"

fun dec_bool :: "resp_value \<Rightarrow> bool option" where
  "dec_bool (RInt i) = Some (i \<noteq> 0)"
| "dec_bool _ = None"

definition enc_saved :: "bvv \<times> bool \<Rightarrow> resp_value" where
  "enc_saved = enc_pair enc_bvv enc_bool"

definition dec_saved :: "resp_value \<Rightarrow> (bvv \<times> bool) option" where
  "dec_saved = dec_pair dec_bvv dec_bool"

lemma value_codec_saved: "value_codec enc_saved dec_saved"
  unfolding enc_saved_def dec_saved_def
  by (intro value_codec_pair value_codec_bvv) (unfold_locales; simp add: enc_bool_def)

interpretation saved: value_codec enc_saved dec_saved
  by (rule value_codec_saved)

definition enc_node_status :: "node_status \<Rightarrow> resp_value" where
  "enc_node_status s = (case s of Valid \<Rightarrow> RInt 0 | Leaving \<Rightarrow> RInt 1 | node_status.Invalid \<Rightarrow> RInt 2)"

fun dec_node_status :: "resp_value \<Rightarrow> node_status option" where
  "dec_node_status (RInt i) = Some (if i = 0 then Valid else if i = 1 then Leaving else node_status.Invalid)"
| "dec_node_status _ = None"

definition enc_owner :: "vnode_node_status \<Rightarrow> resp_value" where
  "enc_owner s = (case s of Owner \<Rightarrow> RInt 0 | Pending \<Rightarrow> RInt 1 | Retiring \<Rightarrow> RInt 2)"

fun dec_owner :: "resp_value \<Rightarrow> vnode_node_status option" where
  "dec_owner (RInt i) = Some (if i = 0 then Owner else if i = 1 then Pending else Retiring)"
| "dec_owner _ = None"

definition enc_ring :: "('a \<Rightarrow> resp_value) \<Rightarrow> ('m \<Rightarrow> resp_value) \<Rightarrow> ('a, 'm) ring \<Rightarrow> resp_value" where
  "enc_ring ea em r =
     enc_pair (enc_list (enc_pair (enc_list (enc_pair enc_word enc_owner)) enc_vv))
       (enc_pair (enc_list (enc_pair enc_word (enc_pair ea (enc_pair enc_node_status (enc_pair em enc_vv)))))
         (enc_pair enc_nat (enc_pair enc_vv enc_bytes)))
       (map (\<lambda>vn. (vn_owners vn, vn_version vn)) (rg_vnodes r),
        map (\<lambda>(i, n). (i, nd_addr n, nd_status n, nd_meta n, nd_version n)) (rg_nodes r),
        rg_replication_factor r, rg_version r, rg_cluster r)"

definition dec_ring :: "(resp_value \<Rightarrow> 'a option) \<Rightarrow> (resp_value \<Rightarrow> 'm option) \<Rightarrow> resp_value \<Rightarrow> ('a, 'm) ring option" where
  "dec_ring da dm v =
     map_option (\<lambda>(vns, ns, rf, vv, c).
         \<lparr>rg_vnodes = map (\<lambda>(os, v). \<lparr>vn_owners = os, vn_version = v\<rparr>) vns,
          rg_nodes = map (\<lambda>(i, a, s, m, v). (i, \<lparr>nd_addr = a, nd_status = s, nd_meta = m, nd_version = v\<rparr>)) ns,
          rg_replication_factor = rf, rg_version = vv, rg_cluster = c\<rparr>)
       (dec_pair (dec_list (dec_pair (dec_list (dec_pair dec_word dec_owner)) dec_vv))
         (dec_pair (dec_list (dec_pair dec_word (dec_pair da (dec_pair dec_node_status (dec_pair dm dec_vv)))))
           (dec_pair dec_nat (dec_pair dec_vv dec_bytes))) v)"

lemma value_codec_ring:
  fixes ea :: "'a \<Rightarrow> resp_value" and em :: "'m \<Rightarrow> resp_value"
  assumes "value_codec ea da" "value_codec em dm"
  shows "value_codec (enc_ring ea em) (dec_ring da dm)"
  unfolding enc_ring_def dec_ring_def
proof (rule value_codec_iso)
  have "value_codec enc_owner dec_owner"
    by unfold_locales (simp_all add: enc_owner_def split: vnode_node_status.splits)
  moreover have "value_codec enc_node_status dec_node_status"
    by unfold_locales (simp_all add: enc_node_status_def split: node_status.splits)
  ultimately show "value_codec
      (enc_pair (enc_list (enc_pair (enc_list (enc_pair enc_word enc_owner)) enc_vv))
        (enc_pair (enc_list (enc_pair enc_word (enc_pair ea (enc_pair enc_node_status (enc_pair em enc_vv)))))
          (enc_pair enc_nat (enc_pair enc_vv enc_bytes))))
      (dec_pair (dec_list (dec_pair (dec_list (dec_pair (dec_word :: _ \<Rightarrow> node_id option) dec_owner)) dec_vv))
        (dec_pair (dec_list (dec_pair (dec_word :: _ \<Rightarrow> node_id option)
            (dec_pair da (dec_pair dec_node_status (dec_pair dm dec_vv)))))
          (dec_pair dec_nat (dec_pair dec_vv dec_bytes))))"
    using assms by (intro value_codec_intros value_codec_vv value_codec_bytes) simp_all
next
  have eta1: "\<lparr>vn_owners = vn_owners x, vn_version = vn_version x\<rparr> = x" for x
    by simp
  have eta2: "\<lparr>nd_addr = nd_addr n, nd_status = nd_status n, nd_meta = nd_meta n, nd_version = nd_version n\<rparr> = n"
    for n :: "('a, 'm) node"
    by simp
  show "(case (map (\<lambda>vn. (vn_owners vn, vn_version vn)) (rg_vnodes r),
        map (\<lambda>(i, n). (i, nd_addr n, nd_status n, nd_meta n, nd_version n)) (rg_nodes r),
        rg_replication_factor r, rg_version r, rg_cluster r) of (vns, ns, rf, vv, c) \<Rightarrow>
      \<lparr>rg_vnodes = map (\<lambda>(os, v). \<lparr>vn_owners = os, vn_version = v\<rparr>) vns,
       rg_nodes = map (\<lambda>(i, a, s, m, v). (i, \<lparr>nd_addr = a, nd_status = s, nd_meta = m, nd_version = v\<rparr>)) ns,
       rg_replication_factor = rf, rg_version = vv, rg_cluster = c\<rparr>) = r" for r :: "('a, 'm) ring"
    by (simp add: comp_def case_prod_beta eta1 eta2)
qed

definition enc_addr :: "string \<times> u16 \<Rightarrow> resp_value" where
  "enc_addr = enc_pair enc_bytes enc_word"

definition dec_addr :: "resp_value \<Rightarrow> (string \<times> u16) option" where
  "dec_addr = dec_pair dec_bytes dec_word"

lemma value_codec_addr: "value_codec enc_addr dec_addr"
  unfolding enc_addr_def dec_addr_def
  by (intro value_codec_pair value_codec_bytes value_codec_word) simp

interpretation ring: value_codec "enc_ring enc_bytes enc_bytes" "dec_ring dec_bytes dec_bytes"
  by (intro value_codec_ring value_codec_bytes)

interpretation addr_ring: value_codec "enc_ring enc_addr enc_addr" "dec_ring dec_addr dec_addr"
  by (intro value_codec_ring value_codec_addr)

end
