(* ===== verification/Dht.thy ===== *)
theory Dht
  imports Ring_Rebalance Fabric_Msg Codec
begin

text \<open>
  The shared state of the cluster ring (\<^verbatim>\<open>DHT\<close> of \<^verbatim>\<open>dht.rs\<close>): proposals, anti-entropy with the peers and
  the lookups of the other components. The lock around \<^verbatim>\<open>Inner\<close> makes each operation one step. An
  operation returns, beside its result, the messages it sends and the calls of the change
  callback, in order; whether a message arrives is up to the fabric. \<^verbatim>\<open>bincode\<close> for rings is a
  parameter (\<open>ring_codec\<close>), \<^verbatim>\<open>crc16\<close> another, and so is the coin that \<^verbatim>\<open>broadcast_req\<close> tosses per peer.
\<close>

record ('a, 'm) ring_codec =
  rc_serialize :: "('a, 'm) ring \<Rightarrow> bytes"
  rc_deserialize :: "bytes \<Rightarrow> ('a, 'm) ring option"

definition ring_codec_ok :: "('a, 'm) ring_codec \<Rightarrow> bool" where
  "ring_codec_ok rc \<longleftrightarrow> codec (rc_serialize rc) (rc_deserialize rc)"

definition ref_ring_codec :: "(string, string) ring_codec" where
  "ref_ring_codec = \<lparr>rc_serialize = to_bytes (enc_ring enc_bytes enc_bytes),
     rc_deserialize = of_bytes (dec_ring dec_bytes dec_bytes)\<rparr>"

lemma ref_ring_codec_ok: "ring_codec_ok ref_ring_codec"
  by (simp add: ring_codec_ok_def ref_ring_codec_def ring.bytes.codec_axioms)

lemma ring_codec_okD: "ring_codec_ok rc \<Longrightarrow> rc_deserialize rc (rc_serialize rc r) = Some r"
  by (simp add: ring_codec_ok_def codec.de_ser)

datatype dht_effect = Dht_Send node_id fabric_msg | Dht_Callback

record ('a, 'm) dht =
  dht_node :: node_id
  dht_ring :: "('a, 'm) ring"
  dht_callback :: bool
  dht_next_req_broadcast :: instant
  dht_sync_aae :: bool
  dht_sync_on_connect :: bool

definition DHT_AAE_TRIGGER_INTERVAL_MS :: nat where
  "DHT_AAE_TRIGGER_INTERVAL_MS = 1000"

section \<open>Messages to the peers\<close>

definition call_callback :: "('a, 'm) dht \<Rightarrow> dht_effect list" where
  "call_callback d = (if dht_callback d then [Dht_Callback] else [])"

definition valid_peers :: "('a, 'm) dht \<Rightarrow> node_id list" where
  "valid_peers d =
     map fst (filter (\<lambda>(i, n). \<not> (i = dht_node d \<or> nd_status n \<noteq> Valid)) (rg_nodes (dht_ring d)))"

definition broadcast :: "('a, 'm) ring_codec \<Rightarrow> ('a, 'm) dht \<Rightarrow> dht_effect list" where
  "broadcast rc d =
     map (\<lambda>i. Dht_Send i (DHTSync (rc_serialize rc (dht_ring d)))) (valid_peers d)"

definition broadcast_req :: "(node_id \<Rightarrow> bool) \<Rightarrow> ('a, 'm) dht \<Rightarrow> dht_effect list" where
  "broadcast_req coin d =
     (if valid_nodes_count (dht_ring d) \<le> 1 then []
      else map (\<lambda>i. Dht_Send i (DHTAE (rg_version (dht_ring d)))) (filter coin (valid_peers d)))"

definition dht_handler_tick :: "(node_id \<Rightarrow> bool) \<Rightarrow> instant \<Rightarrow> ('a, 'm) dht \<Rightarrow> ('a, 'm) dht \<times> dht_effect list" where
  "dht_handler_tick coin time d =
     (if dht_sync_aae d \<and> dht_next_req_broadcast d \<le> time
      then (d\<lparr>dht_next_req_broadcast := dht_next_req_broadcast d + DHT_AAE_TRIGGER_INTERVAL_MS\<rparr>,
            broadcast_req coin d)
      else (d, []))"

definition on_connection :: "('a, 'm) ring_codec \<Rightarrow> ('a, 'm) dht \<Rightarrow> node_id \<Rightarrow> dht_effect list" where
  "on_connection rc d from =
     (if dht_sync_on_connect d \<and> rg_vnodes (dht_ring d) \<noteq> []
      then [Dht_Send from (DHTSync (rc_serialize rc (dht_ring d)))]
      else [])"

text \<open>A message of another type is \<^verbatim>\<open>unreachable!\<close>: the result is \<open>None\<close>.\<close>

definition on_message ::
  "('a, 'm) ring_codec \<Rightarrow> ('a, 'm) dht \<Rightarrow> node_id \<Rightarrow> fabric_msg \<Rightarrow> (('a, 'm) dht \<times> dht_effect list) option" where
  "on_message rc d from msg =
     (case msg of
        DHTAE version \<Rightarrow>
          Some (d,
            if rg_vnodes (dht_ring d) = [] then []
            else if \<not> vv_descends version (rg_version (dht_ring d))
            then [Dht_Send from (DHTSync (rc_serialize rc (dht_ring d)))]
            else [])
      | DHTSync bytes \<Rightarrow>
          (case rc_deserialize rc bytes of
             None \<Rightarrow> Some (d, [])
           | Some other \<Rightarrow>
               (case ring_merge (dht_ring d) other of
                  Ok (True, ring) \<Rightarrow>
                    (let d = d\<lparr>dht_ring := ring\<rparr> in Some (d, call_callback d))
                | Ok (False, _) \<Rightarrow> Some (d, [])
                | Err _ \<Rightarrow> Some (d, [])
                | Panic \<Rightarrow> None))
      | _ \<Rightarrow> None)"

section \<open>Proposals\<close>

type_synonym ('a, 'm) dht_op = "('a, 'm) dht \<Rightarrow> (unit, ring_error) res \<times> ('a, 'm) dht \<times> dht_effect list"

definition propose ::
  "('a, 'm) ring_codec \<Rightarrow> (('a, 'm) ring \<Rightarrow> (('a, 'm) ring, ring_error) res) \<Rightarrow> ('a, 'm) dht_op" where
  "propose rc proposal d =
     (case proposal (dht_ring d) of
        Ok ring \<Rightarrow> (let d = d\<lparr>dht_ring := ring\<rparr> in (Ok (), d, broadcast rc d @ call_callback d))
      | Err e \<Rightarrow> (Err e, d, [])
      | Panic \<Rightarrow> (Panic, d, []))"

definition dht_rebalance :: "('a, 'm) ring_codec \<Rightarrow> ('a, 'm) dht_op" where
  "dht_rebalance rc d = propose rc (rebalance (dht_node d)) d"

definition dht_remove_node :: "('a, 'm) ring_codec \<Rightarrow> node_id \<Rightarrow> ('a, 'm) dht_op" where
  "dht_remove_node rc node d = propose rc (remove_node (dht_node d) node) d"

definition dht_join_node :: "('a, 'm) ring_codec \<Rightarrow> node_id \<Rightarrow> 'a \<Rightarrow> 'm \<Rightarrow> ('a, 'm) dht_op" where
  "dht_join_node rc node addr meta d = propose rc (join_node (dht_node d) node addr meta) d"

definition dht_replace_node :: "('a, 'm) ring_codec \<Rightarrow> node_id \<Rightarrow> node_id \<Rightarrow> 'a \<Rightarrow> 'm \<Rightarrow> ('a, 'm) dht_op" where
  "dht_replace_node rc old_node node addr meta d =
     propose rc (replace_node (dht_node d) old_node node addr meta) d"

definition dht_leave_node :: "('a, 'm) ring_codec \<Rightarrow> node_id \<Rightarrow> ('a, 'm) dht_op" where
  "dht_leave_node rc node d = propose rc (leave_node (dht_node d) node) d"

definition dht_promote_pending_node :: "('a, 'm) ring_codec \<Rightarrow> node_id \<Rightarrow> vnode_id \<Rightarrow> ('a, 'm) dht_op" where
  "dht_promote_pending_node rc node vnode d = propose rc (promote_pending_node (dht_node d) node vnode) d"

section \<open>Lookups\<close>

text \<open>A division by zero is the result \<open>None\<close>.\<close>

definition partitions :: "('a, 'm) dht \<Rightarrow> nat" where
  "partitions d = length (rg_vnodes (dht_ring d))"

definition key_vnode :: "(bytes \<Rightarrow> u16) \<Rightarrow> ('a, 'm) dht \<Rightarrow> bytes \<Rightarrow> vnode_id option" where
  "key_vnode crc16 d key =
     (let parts = of_nat (partitions d) :: vnode_id
      in if parts = 0 then None
         else if HASH_SLOTS div parts = 0 then None
         else Some (hash_slot crc16 key div (HASH_SLOTS div parts)))"

text \<open>
  The second list of \<^verbatim>\<open>vnodes_for_node\<close> is meant for the pending vnodes, but nothing is pushed to it.
\<close>

definition vnodes_for_node :: "('a, 'm) dht \<Rightarrow> node_id \<Rightarrow> vnode_id list \<times> vnode_id list" where
  "vnodes_for_node d node =
     foldl (\<lambda>(r0, r1) (vn_no, vn).
         case map_of (vn_owners vn) node of
           None \<Rightarrow> (r0, r1)
         | Some Owner \<Rightarrow> (r0 @ [of_nat vn_no], r1)
         | Some Pending \<Rightarrow> (r0 @ [of_nat vn_no], r1)
         | Some Retiring \<Rightarrow> (r0, r1))
       ([], []) (enumerate 0 (rg_vnodes (dht_ring d)))"

definition takes_part :: "bool \<Rightarrow> bool \<Rightarrow> vnode_node_status \<Rightarrow> bool" where
  "takes_part include_pending include_retiring status =
     (case status of
        Owner \<Rightarrow> True
      | Pending \<Rightarrow> include_pending
      | Retiring \<Rightarrow> include_retiring)"

definition nodes_for_vnode :: "('a, 'm) dht \<Rightarrow> vnode_id \<Rightarrow> bool \<Rightarrow> bool \<Rightarrow> node_id list option" where
  "nodes_for_vnode d vn_no include_pending include_retiring =
     (if unat vn_no < partitions d
      then Some (map fst (filter (\<lambda>(_, s). takes_part include_pending include_retiring s)
             (vn_owners (rg_vnodes (dht_ring d) ! unat vn_no))))
      else None)"

fun node_infos :: "(node_id \<times> ('a, 'm) node) list \<Rightarrow> node_id list \<Rightarrow> (node_id \<times> 'a \<times> 'm) list option" where
  "node_infos nodes [] = Some []"
| "node_infos nodes (i # is) =
     (case map_of nodes i of
        None \<Rightarrow> None
      | Some n \<Rightarrow> map_option (\<lambda>r. (i, nd_addr n, nd_meta n) # r) (node_infos nodes is))"

definition nodes_for_vnode_ex ::
  "('a, 'm) dht \<Rightarrow> vnode_id \<Rightarrow> bool \<Rightarrow> bool \<Rightarrow> (node_id \<times> 'a \<times> 'm) list option" where
  "nodes_for_vnode_ex d vn_no include_pending include_retiring =
     (case nodes_for_vnode d vn_no include_pending include_retiring of
        None \<Rightarrow> None
      | Some is \<Rightarrow> node_infos (rg_nodes (dht_ring d)) is)"

definition save_ring :: "('a, 'm) ring_codec \<Rightarrow> ('a, 'm) dht \<Rightarrow> bytes" where
  "save_ring rc d = rc_serialize rc (dht_ring d)"

definition members :: "('a, 'm) dht \<Rightarrow> (node_id \<times> 'a) list" where
  "members d =
     map (\<lambda>(i, n). (i, nd_addr n)) (filter (\<lambda>(_, n). nd_status n \<noteq> node_status.Invalid) (rg_nodes (dht_ring d)))"

definition slot_range :: "u16 \<Rightarrow> u16 \<Rightarrow> u16 \<times> u16" where
  "slot_range slots_per_partition vn_no =
     (vn_no * slots_per_partition, (vn_no + 1) * slots_per_partition - 1)"

fun slots_of :: "('a, 'm) ring \<Rightarrow> u16 \<Rightarrow> nat \<Rightarrow> ring_vnode list \<Rightarrow>
    ((u16 \<times> u16) \<times> (node_id \<times> 'a \<times> 'm) list) list option" where
  "slots_of ring slots_per_partition k [] = Some []"
| "slots_of ring slots_per_partition k (vn # vns) =
     (case node_infos (rg_nodes ring) (map fst (filter (\<lambda>(_, s). s \<noteq> Retiring) (vn_owners vn))) of
        None \<Rightarrow> None
      | Some ms \<Rightarrow>
          map_option (\<lambda>r. (slot_range slots_per_partition (of_nat k), ms) # r)
            (slots_of ring slots_per_partition (k + 1) vns))"

text \<open>The \<^verbatim>\<open>BTreeMap\<close> of the ranges, in the order of its keys.\<close>

definition slots :: "('a, 'm) dht \<Rightarrow> ((u16 \<times> u16) \<times> (node_id \<times> 'a \<times> 'm) list) list option" where
  "slots d =
     (let parts = of_nat (partitions d) :: u16
      in if parts = 0 then None
         else map_option (\<lambda>es. sort_key fst (foldl (\<lambda>m (k, v). AList.update k v m) [] es))
                (slots_of (dht_ring d) (HASH_SLOTS div parts) 0 (rg_vnodes (dht_ring d))))"

section \<open>Starting a node\<close>

definition dht_new :: "node_id \<Rightarrow> string \<Rightarrow> bool \<Rightarrow> bool \<Rightarrow> instant \<Rightarrow> ('a, 'm) dht" where
  "dht_new node cluster_name sync_aae sync_on_connect now =
     \<lparr>dht_node = node, dht_ring = ring_new cluster_name 0 0, dht_callback = False,
      dht_next_req_broadcast = now, dht_sync_aae = sync_aae, dht_sync_on_connect = sync_on_connect\<rparr>"

text \<open>
  The end of \<^verbatim>\<open>init\<close>, \<^verbatim>\<open>restore\<close> and \<^verbatim>\<open>join_cluster\<close>: the node takes the place of the one it was before an
  unclean shutdown, or joins. An error is unwrapped, a panic.
\<close>

definition enter_ring :: "('a, 'm) ring_codec \<Rightarrow> 'a \<Rightarrow> 'm \<Rightarrow> node_id option \<Rightarrow> ('a, 'm) dht \<Rightarrow>
    (('a, 'm) dht \<times> dht_effect list) option" where
  "enter_ring rc addr meta old_node d =
     (case (case old_node of
              Some old \<Rightarrow> dht_replace_node rc old (dht_node d) addr meta d
            | None \<Rightarrow> dht_join_node rc (dht_node d) addr meta d) of
        (Ok _, d', es) \<Rightarrow> Some (d', es)
      | _ \<Rightarrow> None)"

definition is_power_of_two :: "nat \<Rightarrow> bool" where
  "is_power_of_two n \<longleftrightarrow> list_ex (\<lambda>k. n = 2 ^ k) [0..<16]"

definition dht_init :: "('a, 'm) ring_codec \<Rightarrow> string \<Rightarrow> 'a \<Rightarrow> 'm \<Rightarrow> u16 \<Rightarrow> u8 \<Rightarrow> node_id option \<Rightarrow>
    ('a, 'm) dht \<Rightarrow> (('a, 'm) dht \<times> dht_effect list) option" where
  "dht_init rc cluster_name addr meta parts replication_factor old_node d =
     (if is_power_of_two (unat parts) \<and> 32 \<le> parts \<and> parts \<le> 1024 \<and>
         1 \<le> replication_factor \<and> replication_factor \<le> 6
      then
        (case enter_ring rc addr meta old_node
                (d\<lparr>dht_ring := ring_new cluster_name parts replication_factor\<rparr>) of
           None \<Rightarrow> None
         | Some (d, es) \<Rightarrow>
             (case dht_rebalance rc d of
                (Ok _, d, es') \<Rightarrow> Some (d, es @ es')
              | _ \<Rightarrow> None))
      else None)"

text \<open>An error is the result \<open>Err ()\<close>, a panic \<open>Panic\<close>.\<close>

definition dht_restore :: "('a, 'm) ring_codec \<Rightarrow> 'a \<Rightarrow> 'm \<Rightarrow> bytes \<Rightarrow> node_id option \<Rightarrow>
    ('a, 'm) dht \<Rightarrow> (('a, 'm) dht \<times> dht_effect list, unit) res" where
  "dht_restore rc addr meta serialized_ring old_node d =
     (case rc_deserialize rc serialized_ring of
        None \<Rightarrow> Err ()
      | Some ring \<Rightarrow>
          (case enter_ring rc addr meta old_node (d\<lparr>dht_ring := ring\<rparr>) of
             None \<Rightarrow> Panic
           | Some r \<Rightarrow> Ok r))"

text \<open>
  Joining through seeds: \<open>connections\<close> are the peers reached while waiting, \<open>d\<close> the state after it,
  with the ring the message handler may have received meanwhile.
\<close>

definition dht_join_cluster :: "('a, 'm) ring_codec \<Rightarrow> 'a \<Rightarrow> 'm \<Rightarrow> node_id list \<Rightarrow> node_id option \<Rightarrow>
    ('a, 'm) dht \<Rightarrow> (('a, 'm) dht \<times> dht_effect list, unit) res" where
  "dht_join_cluster rc addr meta connections old_node d =
     (if connections = [] then Err ()
      else if rg_vnodes (dht_ring d) = [] then Err ()
      else
        (case enter_ring rc addr meta old_node d of
           None \<Rightarrow> Panic
         | Some r \<Rightarrow> Ok r))"

section \<open>Keys and slots\<close>

lemma key_vnode_range:
  assumes p: "partitions d * q = 16384" and s: "s = hash_slot crc16 key"
  shows "key_vnode crc16 d key = Some (s div of_nat q)"
    and "unat (s div of_nat q) < partitions d"
    and "HASH_SLOTS div of_nat (partitions d) = (of_nat q :: u16)"
    and "fst (slot_range (of_nat q) (s div of_nat q)) \<le> s"
    and "s \<le> snd (slot_range (of_nat q) (s div of_nat q))"
proof -
  let ?p = "partitions d" and ?k = "s div of_nat q"
  have pos: "0 < ?p" "0 < q"
    using p by (auto intro: ccontr)
  moreover have "?p \<le> ?p * q" "q \<le> ?p * q"
    using pos by simp_all
  ultimately have le: "?p \<le> 16384" "q \<le> 16384"
    using p by simp_all
  have up: "unat (of_nat ?p :: u16) = ?p" "unat (of_nat q :: u16) = q"
    using le by (simp_all add: unat_of_nat)
  show q: "HASH_SLOTS div of_nat ?p = (of_nat q :: u16)"
  proof -
    have "16384 div ?p = q"
      using pos(1) by (simp flip: p)
    then show ?thesis
      by (simp add: word_unat_eq_iff unat_div HASH_SLOTS_def up)
  qed
  have "(of_nat ?p :: u16) \<noteq> 0" "(of_nat q :: u16) \<noteq> 0"
    using pos up by (metis less_numeral_extra(3) unat_0)+
  then show "key_vnode crc16 d key = Some ?k"
    by (simp add: key_vnode_def Let_def q s)
  have s_bound: "unat s < ?p * q"
    using hash_slot_bound [of crc16 key] p by (simp add: s HASH_SLOTS_def word_less_nat_alt)
  have k: "unat ?k = unat s div q"
    by (simp add: unat_div up)
  then show k_less: "unat ?k < ?p"
    using s_bound pos by (simp add: less_mult_imp_div_less)
  then have "(unat ?k + 1) * q \<le> ?p * q"
    by (intro mult_le_mono1) simp
  then have top: "(unat ?k + 1) * q \<le> 16384"
    using p by simp
  have lo: "unat (?k * of_nat q) = unat ?k * q"
    using top by (simp add: unat_word_ariths up)
  have hi: "unat ((?k + 1) * of_nat q) = (unat ?k + 1) * q"
    using top k_less le by (simp add: unat_word_ariths up)
  show "fst (slot_range (of_nat q) ?k) \<le> s"
    by (simp add: slot_range_def word_le_nat_alt lo k)
  have "unat s < (unat s div q + 1) * q"
    using pos(2) dividend_less_times_div [of q "unat s"] by (simp add: algebra_simps)
  then have "unat s < unat ((?k + 1) * of_nat q)"
    by (simp only: hi k)
  then show "s \<le> snd (slot_range (of_nat q) ?k)"
    by (simp add: slot_range_def word_le_nat_alt unat_sub_if')
qed

section \<open>Anti-entropy\<close>

lemma on_message_sync:
  assumes "ring_codec_ok rc" "ring_merge (dht_ring d) other = Ok (changed, ring)"
  shows "on_message rc d from (DHTSync (rc_serialize rc other)) =
    Some (if changed then (d\<lparr>dht_ring := ring\<rparr>, call_callback d) else (d, []))"
  using assms by (auto simp: on_message_def ring_codec_okD Let_def call_callback_def)

lemma ring_merge_compatible:
  assumes "rg_cluster a = rg_cluster b" "rg_vnodes b \<noteq> []"
    "rg_vnodes a = [] \<or> length (rg_vnodes a) = length (rg_vnodes b)"
  shows "\<exists>changed ring. ring_merge a b = Ok (changed, ring)"
  using assms by (auto simp: ring_merge_def)

section \<open>Properties\<close>

text \<open>
  For any partition count that divides the number of slots, every key maps to one vnode of the
  ring, and the key's slot lies in the slot range published for that vnode.
\<close>

theorem key_vnode_in_slots:
  assumes "partitions d * q = 16384"
  shows "\<exists>k. key_vnode crc16 d key = Some k \<and> unat k < partitions d \<and>
    fst (slot_range (HASH_SLOTS div of_nat (partitions d)) k) \<le> hash_slot crc16 key \<and>
    hash_slot crc16 key \<le> snd (slot_range (HASH_SLOTS div of_nat (partitions d)) k)"
  using key_vnode_range [OF assms refl] by simp

theorem key_vnode_in_slots_witness:
  "let d = (dht_new 1 ''c'' True True 0)\<lparr>dht_ring := (ring_new ''c'' 64 3 :: (string, string) ring)\<rparr> in
   \<exists>k. key_vnode (\<lambda>bs. of_nat (length bs)) d ''user'' = Some k \<and> unat k < partitions d \<and>
   fst (slot_range (HASH_SLOTS div of_nat (partitions d)) k) \<le> hash_slot (\<lambda>bs. of_nat (length bs)) ''user'' \<and>
   hash_slot (\<lambda>bs. of_nat (length bs)) ''user'' \<le> snd (slot_range (HASH_SLOTS div of_nat (partitions d)) k)"
  unfolding Let_def
  by (rule key_vnode_in_slots [where q = 256]) (simp add: partitions_def ring_new_def)

text \<open>
  C26: One round of anti-entropy brings a node up to date: when it asks a peer with its ring version,
  either it already has all versions the peer has and nothing is sent, or the peer replies with
  its ring and afterwards the node's ring has exactly the versions of both.
\<close>

theorem anti_entropy_round:
  assumes "ring_codec_ok rc" "lm_wf (rg_version (dht_ring a))" "lm_wf (rg_version (dht_ring b))"
    and "rg_cluster (dht_ring b) = rg_cluster (dht_ring a)" "rg_vnodes (dht_ring a) \<noteq> []"
    and "rg_vnodes (dht_ring b) = [] \<or> partitions b = partitions a"
  shows "\<exists>es. on_message rc a from (DHTAE (rg_version (dht_ring b))) = Some (a, es) \<and>
    (if vv_dots (rg_version (dht_ring a)) \<subseteq> vv_dots (rg_version (dht_ring b)) then es = []
     else \<exists>reply b' es'. es = [Dht_Send from reply] \<and> on_message rc b peer reply = Some (b', es') \<and>
       vv_dots (rg_version (dht_ring b')) =
         vv_dots (rg_version (dht_ring a)) \<union> vv_dots (rg_version (dht_ring b)))"
proof -
  obtain changed ring where m: "ring_merge (dht_ring b) (dht_ring a) = Ok (changed, ring)"
    using ring_merge_compatible [OF assms(4,5)] assms(6) by (auto simp: partitions_def)
  note v = ring_merge_version [OF assms(3,2) m]
  show ?thesis
    using assms(2,5) on_message_sync [OF assms(1) m, of peer] v(1,2)
    by (auto simp: on_message_def [of rc a] vv_descends_dots)
qed

theorem anti_entropy_round_witness:
  "let a = (dht_new 1 ''c'' True True 0)\<lparr>dht_ring := (ring_new ''c'' 4 1)\<lparr>rg_version := [(1, 2)]\<rparr>\<rparr>;
       b = (dht_new 2 ''c'' True True 0)\<lparr>dht_ring := (ring_new ''c'' 4 1)\<lparr>rg_version := [(2, 1)]\<rparr>\<rparr> in
   \<exists>es. on_message ref_ring_codec a 2 (DHTAE (rg_version (dht_ring b))) = Some (a, es) \<and>
   (if vv_dots (rg_version (dht_ring a)) \<subseteq> vv_dots (rg_version (dht_ring b)) then es = []
    else \<exists>reply b' es'. es = [Dht_Send 2 reply] \<and> on_message ref_ring_codec b 1 reply = Some (b', es') \<and>
      vv_dots (rg_version (dht_ring b')) =
        vv_dots (rg_version (dht_ring a)) \<union> vv_dots (rg_version (dht_ring b)))"
  unfolding Let_def
  by (rule anti_entropy_round [OF ref_ring_codec_ok]) (simp_all add: ring_new_def partitions_def)

text \<open>
  A proposal is all or nothing: if it fails the ring is unchanged and nothing is sent, and if it
  succeeds the new ring is stored and sent, in this order, to every valid peer, and the change
  callback is called once.
\<close>

lemma propose_atomic:
  "case propose rc f d of (res, d', es) \<Rightarrow>
     (case f (dht_ring d) of
        Ok ring \<Rightarrow> res = Ok () \<and> d' = d\<lparr>dht_ring := ring\<rparr> \<and>
          es = map (\<lambda>i. Dht_Send i (DHTSync (rc_serialize rc ring))) (valid_peers d') @
               (if dht_callback d then [Dht_Callback] else [])
      | Err e \<Rightarrow> res = Err e \<and> d' = d \<and> es = []
      | Panic \<Rightarrow> res = Panic \<and> d' = d \<and> es = [])"
  by (simp add: propose_def broadcast_def call_callback_def Let_def split: res.splits)

text \<open>
  Initialising a cluster with a valid description succeeds: afterwards the ring has the given
  number of vnodes and this node is the owner of every one of them.
\<close>

theorem dht_init_owns_all:
  assumes "is_power_of_two (unat parts)" "32 \<le> parts" "parts \<le> 1024" "1 \<le> rf" "rf \<le> 6"
  shows "\<exists>d' es. dht_init rc cluster addr meta parts rf None d = Some (d', es) \<and>
    rg_vnodes (dht_ring d') =
      replicate (unat parts) \<lparr>vn_owners = [(dht_node d, Owner)], vn_version = vv_event vv_new (dht_node d)\<rparr>"
proof -
  have rf: "\<not> unat rf < 1"
    using assms(4) by (simp add: word_le_nat_alt)
  then show ?thesis
    using assms
    by (auto simp: dht_init_def enter_ring_def dht_join_node_def dht_rebalance_def propose_def Let_def
        join_node_def ring_new_def ring_vnode_default_def valid_physical_count_def valid_nodes_count_def
        rebalance_def rebalance_small_def rebalance_small_step_def not_less)
qed

theorem dht_init_owns_all_witness:
  "let d = dht_new 7 ''c'' True True 0 in
   \<exists>d' es. dht_init ref_ring_codec ''c'' ''addr'' ''meta'' 64 3 None d = Some (d', es) \<and>
   rg_vnodes (dht_ring d') =
     replicate (unat (64 :: u16)) \<lparr>vn_owners = [(dht_node d, Owner)], vn_version = vv_event vv_new (dht_node d)\<rparr>"
  unfolding Let_def
  by (rule dht_init_owns_all) (simp_all add: is_power_of_two_def upt_rec)

text \<open>
  \<^verbatim>\<open>vnodes_for_node\<close> never reports a pending vnode as such: its second list is empty, and a vnode the
  node is only pending for is in the first, the list of the vnodes that start as ready.
\<close>

theorem vnodes_for_node_pending:
  "snd (vnodes_for_node d node) = [] \<and>
   set (fst (vnodes_for_node d node)) =
     of_nat ` {k. k < partitions d \<and> node \<in> active (rg_vnodes (dht_ring d) ! k)}"
proof -
  let ?f = "\<lambda>(r0, r1) (vn_no, vn). case map_of (vn_owners vn) node of None \<Rightarrow> (r0, r1)
    | Some Owner \<Rightarrow> (r0 @ [of_nat vn_no], r1) | Some Pending \<Rightarrow> (r0 @ [of_nat vn_no], r1) | Some Retiring \<Rightarrow> (r0, r1)"
  have "foldl ?f (r0, r1) es =
      (r0 @ map (\<lambda>(k, _). of_nat k) (filter (\<lambda>(_, vn). node \<in> active vn) es), r1)"
    for r0 :: "vnode_id list" and r1 :: "vnode_id list" and es
    by (induction es arbitrary: r0)
       (auto simp: active_def split: option.splits vnode_node_status.splits)
  moreover have "set (filter (\<lambda>(_, vn). node \<in> active vn) (enumerate 0 vns)) =
      (\<lambda>k. (k, vns ! k)) ` {k. k < length vns \<and> node \<in> active (vns ! k)}" for vns
    by (auto simp: in_set_enumerate_eq)
  ultimately show ?thesis
    by (simp add: vnodes_for_node_def partitions_def image_image)
qed

end
