(* ===== verification/Storage.thy ===== *)
theory Storage
  imports Types
begin

text \<open>
  \<^verbatim>\<open>storage.rs\<close>: the keys of a vnode in the two column families of RocksDB, batches, iteration and
  the removal of a vnode's data. RocksDB is a parameter: the record \<open>rocks\<close> holds the calls the
  program makes on a database of type \<open>'db\<close>, and \<open>rocks_ok\<close> states what its documentation
  promises of them. A column family is ordered by the bytes of its keys.
\<close>

section \<open>Big-endian numbers\<close>

fun be_bytes :: "nat \<Rightarrow> nat \<Rightarrow> bytes" where
  "be_bytes 0 x = []"
| "be_bytes (Suc n) x = be_bytes n (x div 256) @ [char_of (x mod 256)]"

definition be_read :: "bytes \<Rightarrow> nat" where
  "be_read bs = foldl (\<lambda>a c. 256 * a + of_char c) 0 bs"

definition be16 :: "u16 \<Rightarrow> bytes" where
  "be16 w = be_bytes 2 (unat w)"

definition be64 :: "u64 \<Rightarrow> bytes" where
  "be64 w = be_bytes 8 (unat w)"

definition read_u64 :: "bytes \<Rightarrow> u64" where
  "read_u64 bs = of_nat (be_read bs)"

section \<open>RocksDB\<close>

datatype cf = Default_cf | Log_cf

datatype wb_op = Put cf bytes bytes | Delete cf bytes

text \<open>
  A scan yields the entries an iterator visits from a seek key on: up to an upper bound if
  there is one, and only keys with the prefix of the seek key if asked for (the prefix
  extractor of the default family takes two bytes).
\<close>

record 'db rocks =
  rk_get :: "'db \<Rightarrow> cf \<Rightarrow> bytes \<Rightarrow> (bytes option, unit) res"
  rk_write :: "'db \<Rightarrow> wb_op list \<Rightarrow> (unit, unit) res \<times> 'db"
  rk_delete_files :: "'db \<Rightarrow> cf \<Rightarrow> bytes \<Rightarrow> bytes \<Rightarrow> (unit, unit) res \<times> 'db"
  rk_scan :: "'db \<Rightarrow> cf \<Rightarrow> bytes \<Rightarrow> bytes option \<Rightarrow> bool \<Rightarrow> (bytes \<times> bytes) list"

type_synonym kv = "cf \<Rightarrow> bytes \<rightharpoonup> bytes"

fun apply_op :: "wb_op \<Rightarrow> kv \<Rightarrow> kv" where
  "apply_op (Put c k v) m = m(c := (m c)(k \<mapsto> v))"
| "apply_op (Delete c k) m = m(c := (m c)(k := None))"

definition apply_ops :: "wb_op list \<Rightarrow> kv \<Rightarrow> kv" where
  "apply_ops ops m = foldl (\<lambda>m op. apply_op op m) m ops"

definition in_scan :: "cf \<Rightarrow> bytes \<Rightarrow> bytes option \<Rightarrow> bool \<Rightarrow> bytes \<Rightarrow> bool" where
  "in_scan c start upper same_prefix k \<longleftrightarrow>
     start \<le> k \<and> (case upper of Some u \<Rightarrow> k < u | None \<Rightarrow> True) \<and>
     (same_prefix \<and> c = Default_cf \<longrightarrow> take 2 k = take 2 start)"

definition rocks_ok :: "'db rocks \<Rightarrow> ('db \<Rightarrow> kv) \<Rightarrow> bool" where
  "rocks_ok rk view \<longleftrightarrow>
     (\<forall>db c k. rk_get rk db c k \<noteq> Panic \<and> (\<forall>x. rk_get rk db c k = Ok x \<longrightarrow> x = view db c k)) \<and>
     (\<forall>db ops. fst (rk_write rk db ops) \<noteq> Panic \<and>
        view (snd (rk_write rk db ops)) =
          (if fst (rk_write rk db ops) = Ok () then apply_ops ops (view db) else view db)) \<and>
     (\<forall>db c lo hi c' k.
        view (snd (rk_delete_files rk db c lo hi)) c' k = view db c' k \<or>
        c' = c \<and> lo \<le> k \<and> k < hi \<and> view (snd (rk_delete_files rk db c lo hi)) c' k = None) \<and>
     (\<forall>db c start upper same_prefix.
        sorted_wrt (<) (map fst (rk_scan rk db c start upper same_prefix)) \<and>
        set (rk_scan rk db c start upper same_prefix) =
          {(k, v). view db c k = Some v \<and> in_scan c start upper same_prefix k})"

section \<open>Keys\<close>

text \<open>A key that does not fit the buffer is a panic.\<close>

definition build_key :: "nat \<Rightarrow> u16 \<Rightarrow> bytes \<Rightarrow> bytes option" where
  "build_key buffer_len num key =
     (if 2 + length key \<le> buffer_len then Some (be16 num @ key) else None)"

definition build_log_key :: "u16 \<Rightarrow> u64 \<times> u64 \<Rightarrow> bytes" where
  "build_log_key num log_key = be16 num @ be64 (fst log_key) @ be64 (snd log_key)"

definition build_log_prefix :: "u16 \<Rightarrow> u64 \<Rightarrow> bytes" where
  "build_log_prefix num prefix = be16 num @ be64 prefix"

section \<open>Reads\<close>

definition st_get :: "'db rocks \<Rightarrow> u16 \<Rightarrow> 'db \<Rightarrow> bytes \<Rightarrow> (bytes option, unit) res" where
  "st_get rk num db key =
     (case build_key 512 num key of
        None \<Rightarrow> Panic
      | Some buffer \<Rightarrow> rk_get rk db Default_cf buffer)"

definition st_log_get :: "'db rocks \<Rightarrow> u16 \<Rightarrow> 'db \<Rightarrow> u64 \<times> u64 \<Rightarrow> (bytes option, unit) res" where
  "st_log_get rk num db log_key = rk_get rk db Log_cf (build_log_key num log_key)"

text \<open>The entries \<^verbatim>\<open>StorageIter\<close> yields, without the vnode prefix of their keys.\<close>

definition iter_entry :: "bytes \<times> bytes \<Rightarrow> bytes \<times> bytes" where
  "iter_entry kv = (drop 2 (fst kv), snd kv)"

definition st_iterator :: "'db rocks \<Rightarrow> u16 \<Rightarrow> 'db \<Rightarrow> (bytes \<times> bytes) list" where
  "st_iterator rk num db =
     map iter_entry (rk_scan rk db Default_cf (be16 num) None True)"

text \<open>The entries \<^verbatim>\<open>LogStorageIter\<close> yields; a key of another length is a panic.\<close>

fun log_entries :: "(bytes \<times> bytes) list \<Rightarrow> ((u64 \<times> u64) \<times> bytes) list option" where
  "log_entries [] = Some []"
| "log_entries ((k, v) # kvs) =
     (if length k = 2 + 8 + 8
      then map_option (\<lambda>r. ((read_u64 (take 8 (drop 2 k)), read_u64 (take 8 (drop (2 + 8) k))), v) # r)
             (log_entries kvs)
      else None)"

definition st_log_iterator :: "'db rocks \<Rightarrow> u16 \<Rightarrow> 'db \<Rightarrow> u64 \<Rightarrow> u64 \<Rightarrow> ((u64 \<times> u64) \<times> bytes) list option" where
  "st_log_iterator rk num db prefix start =
     log_entries (rk_scan rk db Log_cf (build_log_key num (prefix, start))
       (Some (build_log_prefix num (prefix + 1))) False)"

section \<open>Writes\<close>

type_synonym batch = "wb_op list"

definition batch_new :: batch where
  "batch_new = []"

definition batch_set :: "u16 \<Rightarrow> batch \<Rightarrow> bytes \<Rightarrow> bytes \<Rightarrow> batch option" where
  "batch_set num b key v = map_option (\<lambda>k. b @ [Put Default_cf k v]) (build_key 512 num key)"

definition batch_log_set :: "u16 \<Rightarrow> batch \<Rightarrow> u64 \<times> u64 \<Rightarrow> bytes \<Rightarrow> batch" where
  "batch_log_set num b key v = b @ [Put Log_cf (build_log_key num key) v]"

definition batch_del :: "u16 \<Rightarrow> batch \<Rightarrow> bytes \<Rightarrow> batch option" where
  "batch_del num b key = map_option (\<lambda>k. b @ [Delete Default_cf k]) (build_key 512 num key)"

definition batch_write :: "'db rocks \<Rightarrow> 'db \<Rightarrow> batch \<Rightarrow> (unit, unit) res \<times> 'db" where
  "batch_write rk db b = rk_write rk db b"

definition st_set :: "'db rocks \<Rightarrow> u16 \<Rightarrow> 'db \<Rightarrow> bytes \<Rightarrow> bytes \<Rightarrow> (unit, unit) res \<times> 'db" where
  "st_set rk num db key v =
     (case batch_set num batch_new key v of
        None \<Rightarrow> (Panic, db)
      | Some b \<Rightarrow> batch_write rk db b)"

definition st_del :: "'db rocks \<Rightarrow> u16 \<Rightarrow> 'db \<Rightarrow> bytes \<Rightarrow> (unit, unit) res \<times> 'db" where
  "st_del rk num db key =
     (case batch_del num batch_new key of
        None \<Rightarrow> (Panic, db)
      | Some b \<Rightarrow> batch_write rk db b)"

text \<open>
  The loops of \<^verbatim>\<open>clear\<close>: every key of the vnode is deleted, one write each; a failing call panics.
\<close>

fun clear_keys :: "'db rocks \<Rightarrow> cf \<Rightarrow> bytes list \<Rightarrow> 'db \<Rightarrow> 'db option" where
  "clear_keys rk c [] db = Some db"
| "clear_keys rk c (k # ks) db =
     (case rk_write rk db [Delete c k] of
        (Ok _, db') \<Rightarrow> clear_keys rk c ks db'
      | _ \<Rightarrow> None)"

definition clear_cf :: "'db rocks \<Rightarrow> u16 \<Rightarrow> cf \<Rightarrow> 'db \<Rightarrow> 'db option" where
  "clear_cf rk num c db =
     (case rk_delete_files rk db c (be16 num) (be16 (num + 1)) of
        (Ok _, db') \<Rightarrow>
          clear_keys rk c (map fst (rk_scan rk db' c (be16 num) (Some (be16 (num + 1))) True)) db'
      | _ \<Rightarrow> None)"

definition st_clear :: "'db rocks \<Rightarrow> u16 \<Rightarrow> 'db \<Rightarrow> 'db option" where
  "st_clear rk num db =
     (case clear_cf rk num Default_cf db of
        None \<Rightarrow> None
      | Some db' \<Rightarrow> clear_cf rk num Log_cf db')"

section \<open>The order of the keys\<close>

lemma length_be_bytes [simp]: "length (be_bytes n x) = n"
  by (induction n arbitrary: x) auto

lemma length_be [simp]: "length (be16 w) = 2" "length (be64 w') = 8"
  by (simp_all add: be16_def be64_def)

lemma be_read_snoc: "be_read (bs @ [c]) = 256 * be_read bs + of_char c"
  by (simp add: be_read_def)

lemma be_read_bytes: "be_read (be_bytes n x) = x mod 256 ^ n"
proof (induction n arbitrary: x)
  case (Suc n)
  have "256 * (x div 256 mod 256 ^ n) + x mod 256 = x mod (256 * 256 ^ n)"
    by (metis mod_mult2_eq add.commute)
  with Suc show ?case
    by (simp add: be_read_snoc)
qed (simp add: be_read_def)

lemma read_be64 [simp]: "read_u64 (be64 w) = w"
  using unat_bound64 [of w] by (simp add: read_u64_def be64_def be_read_bytes)

lemma append_less_append:
  fixes a b :: "'a::linorder list"
  assumes "length a = length b"
  shows "a @ c < b @ d \<longleftrightarrow> a < b \<or> a = b \<and> c < d"
  using assms by (induction a b rule: list_induct2) auto

lemma append_le_append:
  fixes a b :: "'a::linorder list"
  assumes "length a = length b"
  shows "a @ c \<le> b @ d \<longleftrightarrow> a < b \<or> a = b \<and> c \<le> d"
  using append_less_append [OF assms, of c d] assms by (auto simp: list_le_def)

lemma div_mod_less:
  fixes x y k :: nat
  shows "x < y \<longleftrightarrow> x div k < y div k \<or> x div k = y div k \<and> x mod k < y mod k"
proof (cases "x div k = y div k")
  case True
  then have "x < y \<longleftrightarrow> x mod k < y mod k"
    using div_mult_mod_eq [of x k] div_mult_mod_eq [of y k] by (metis nat_add_left_cancel_less)
  with True show ?thesis
    by simp
next
  case False
  then show ?thesis
    using div_le_mono [of x y k] div_le_mono [of y x k] by linarith
qed

lemma be_bytes_less:
  "x < 256 ^ n \<Longrightarrow> y < 256 ^ n \<Longrightarrow> be_bytes n x < be_bytes n y \<longleftrightarrow> x < y"
proof (induction n arbitrary: x y)
  case (Suc n)
  have d: "x div 256 < 256 ^ n" "y div 256 < 256 ^ n"
    using Suc.prems by (simp_all add: less_mult_imp_div_less mult.commute)
  have inj: "be_bytes n (x div 256) = be_bytes n (y div 256) \<longleftrightarrow> x div 256 = y div 256"
    using Suc.IH [OF d] Suc.IH [OF d(2,1)] by (metis less_irrefl linorder_neqE_nat)
  have "char_of (x mod 256) < (char_of (y mod 256) :: char) \<longleftrightarrow> x mod 256 < y mod 256"
    by (simp add: less_char_def)
  moreover have "x < y \<longleftrightarrow> x div 256 < y div 256 \<or> x div 256 = y div 256 \<and> x mod 256 < y mod 256"
    by (rule div_mod_less)
  ultimately show ?case
    using Suc.IH [OF d] inj by (simp add: append_less_append)
qed simp

lemma be16_less: "be16 a < be16 b \<longleftrightarrow> a < b"
proof -
  have "unat w < 256 ^ 2" for w :: u16
    using unsigned_less [of w] by simp
  then show ?thesis
    by (simp add: be16_def be_bytes_less word_less_nat_alt)
qed

lemma be64_less: "be64 a < be64 b \<longleftrightarrow> a < b"
proof -
  have "unat w < 256 ^ 8" for w :: u64
    using unat_bound64 [of w] by simp
  then show ?thesis
    by (simp add: be64_def be_bytes_less word_less_nat_alt)
qed

lemma be16_inj [simp]: "be16 a = be16 b \<longleftrightarrow> a = b"
  by (metis be16_less less_irrefl linorder_neqE)

lemma be64_inj [simp]: "be64 a = be64 b \<longleftrightarrow> a = b"
  by (metis be64_less less_irrefl linorder_neqE)

lemma build_key_inj:
  "build_key n a k = Some x \<Longrightarrow> build_key n b l = Some x \<Longrightarrow> a = b \<and> k = l"
  by (auto simp: build_key_def split: if_splits)

lemma build_log_key_inj [simp]: "build_log_key a k = build_log_key b l \<longleftrightarrow> a = b \<and> k = l"
  by (auto simp: build_log_key_def prod_eq_iff)

text \<open>The keys between a vnode's prefix and the next one are the vnode's keys.\<close>

lemma vnode_range:
  assumes "num + 1 \<noteq> 0"
  shows "be16 num \<le> be16 m @ k \<and> be16 m @ k < be16 (num + 1) \<longleftrightarrow> m = num"
proof -
  have "be16 num \<le> be16 m @ k \<longleftrightarrow> num \<le> m"
    using append_le_append [of "be16 num" "be16 m" "[]" k] by (auto simp: be16_less)
  moreover have "be16 m @ k < be16 (num + 1) \<longleftrightarrow> m < num + 1"
    using append_less_append [of "be16 m" "be16 (num + 1)" k "[]"] by (simp add: be16_less)
  moreover have "m < num + 1 \<longleftrightarrow> m \<le> num"
    using word_succ_le_less [OF assms, of m] by (metis not_le)
  ultimately show ?thesis
    by auto
qed

section \<open>What a vnode sees of the store\<close>

definition st_view :: "('db \<Rightarrow> kv) \<Rightarrow> 'db \<Rightarrow> u16 \<Rightarrow> bytes \<rightharpoonup> bytes" where
  "st_view view db num k = view db Default_cf (be16 num @ k)"

definition log_view :: "('db \<Rightarrow> kv) \<Rightarrow> 'db \<Rightarrow> u16 \<Rightarrow> u64 \<times> u64 \<rightharpoonup> bytes" where
  "log_view view db num d = view db Log_cf (build_log_key num d)"

lemma rocks_okD:
  assumes "rocks_ok rk view"
  shows rocks_get: "rk_get rk db c k = Ok x \<Longrightarrow> x = view db c k"
    and rocks_get_total: "rk_get rk db c k \<noteq> Panic"
    and rocks_write: "fst (rk_write rk db ops) = Ok () \<Longrightarrow>
      view (snd (rk_write rk db ops)) = apply_ops ops (view db)"
    and rocks_write_err: "fst (rk_write rk db ops) \<noteq> Ok () \<Longrightarrow> view (snd (rk_write rk db ops)) = view db"
    and rocks_write_total: "fst (rk_write rk db ops) \<noteq> Panic"
    and rocks_delete_files: "view (snd (rk_delete_files rk db c lo hi)) c' k = view db c' k \<or>
        c' = c \<and> lo \<le> k \<and> k < hi \<and> view (snd (rk_delete_files rk db c lo hi)) c' k = None"
    and rocks_scan_sorted: "sorted_wrt (<) (map fst (rk_scan rk db c start upper same_prefix))"
    and rocks_scan: "set (rk_scan rk db c start upper same_prefix) =
          {(k, v). view db c k = Some v \<and> in_scan c start upper same_prefix k}"
  using assms by (simp_all add: rocks_ok_def)

lemma st_get_view:
  "rocks_ok rk view \<Longrightarrow> st_get rk num db k = Ok x \<Longrightarrow> x = st_view view db num k"
  by (auto simp: st_get_def build_key_def st_view_def dest: rocks_get split: if_splits)

lemma st_get_total: "rocks_ok rk view \<Longrightarrow> length k \<le> 510 \<Longrightarrow> st_get rk num db k \<noteq> Panic"
  by (simp add: st_get_def build_key_def rocks_get_total)

lemma st_set_view:
  assumes "rocks_ok rk view" "fst (st_set rk num db k v) = Ok ()"
  shows "st_view view (snd (st_set rk num db k v)) m l =
      (if m = num \<and> l = k then Some v else st_view view db m l)"
    and "log_view view (snd (st_set rk num db k v)) m d = log_view view db m d"
  using assms
  by (auto simp: st_set_def batch_set_def batch_new_def batch_write_def build_key_def rocks_write
      apply_ops_def st_view_def log_view_def split: if_splits)

lemma st_del_view:
  assumes "rocks_ok rk view" "fst (st_del rk num db k) = Ok ()"
  shows "st_view view (snd (st_del rk num db k)) m l =
      (if m = num \<and> l = k then None else st_view view db m l)"
    and "log_view view (snd (st_del rk num db k)) m d = log_view view db m d"
  using assms
  by (auto simp: st_del_def batch_del_def batch_new_def batch_write_def build_key_def rocks_write
      apply_ops_def st_view_def log_view_def split: if_splits)

text \<open>Clearing a vnode removes its keys in both families and nothing else.\<close>

lemma clear_keys_view:
  assumes "rocks_ok rk view" "clear_keys rk c ks db = Some db'"
  shows "view db' c' k = (if c' = c \<and> k \<in> set ks then None else view db c' k)"
  using assms(2)
proof (induction ks arbitrary: db)
  case (Cons k' ks)
  obtain r db1 where w: "rk_write rk db [Delete c k'] = (r, db1)"
    by (metis surj_pair)
  with Cons.prems have "r = Ok ()" "clear_keys rk c ks db1 = Some db'"
    by (cases r; simp)+
  moreover from this have "view db1 = apply_ops [Delete c k'] (view db)"
    using rocks_write [OF assms(1), of db "[Delete c k']"] w by simp
  ultimately show ?case
    using Cons.IH by (auto simp: apply_ops_def)
qed simp

lemma clear_cf_view:
  assumes ok: "rocks_ok rk view" and c: "clear_cf rk num c db = Some db'" and n: "num + 1 \<noteq> 0"
  shows "view db' c' (be16 m @ k) = (if c' = c \<and> m = num then None else view db c' (be16 m @ k))"
proof -
  obtain db1 where d: "rk_delete_files rk db c (be16 num) (be16 (num + 1)) = (Ok (), db1)"
    and ck: "clear_keys rk c (map fst (rk_scan rk db1 c (be16 num) (Some (be16 (num + 1))) True)) db1 = Some db'"
    using c by (auto simp: clear_cf_def split: prod.splits res.splits)
  let ?ks = "fst ` set (rk_scan rk db1 c (be16 num) (Some (be16 (num + 1))) True)"
  have v1: "view db1 c' (be16 m @ k) = view db c' (be16 m @ k) \<or>
      c' = c \<and> m = num \<and> view db1 c' (be16 m @ k) = None"
    using rocks_delete_files [OF ok, of db c "be16 num" "be16 (num + 1)" c' "be16 m @ k"] d
      vnode_range [OF n, of m k] by auto
  have "be16 m @ k \<in> ?ks \<longleftrightarrow> m = num \<and> view db1 c (be16 m @ k) \<noteq> None"
    using vnode_range [OF n, of m k] by (auto simp: rocks_scan [OF ok] in_scan_def image_iff)
  with v1 clear_keys_view [OF ok ck, of c' "be16 m @ k"] show ?thesis
    by auto
qed

lemma st_clear_view:
  assumes ok: "rocks_ok rk view" and c: "st_clear rk num db = Some db'" and n: "num + 1 \<noteq> 0"
  shows "st_view view db' m k = (if m = num then None else st_view view db m k)"
    and "log_view view db' m d = (if m = num then None else log_view view db m d)"
proof -
  obtain db1 where "clear_cf rk num Default_cf db = Some db1" "clear_cf rk num Log_cf db1 = Some db'"
    using c by (auto simp: st_clear_def split: option.splits)
  note v = clear_cf_view [OF ok this(1) n] clear_cf_view [OF ok this(2) n]
  show "st_view view db' m k = (if m = num then None else st_view view db m k)"
    and "log_view view db' m d = (if m = num then None else log_view view db m d)"
    by (simp_all add: st_view_def log_view_def build_log_key_def v)
qed

text \<open>The log of a node, in the order of its versions.\<close>

definition log_keys_ok :: "('db \<Rightarrow> kv) \<Rightarrow> 'db \<Rightarrow> bool" where
  "log_keys_ok view db \<longleftrightarrow> (\<forall>k v. view db Log_cf k = Some v \<longrightarrow> (\<exists>m d. k = build_log_key m d))"

lemma log_range:
  assumes "prefix + 1 \<noteq> 0"
  shows "in_scan Log_cf (build_log_key num (prefix, start)) (Some (build_log_prefix num (prefix + 1)))
      False (build_log_key m (p, v)) \<longleftrightarrow> m = num \<and> p = prefix \<and> start \<le> v"
proof -
  have "build_log_key num (prefix, start) \<le> build_log_key m (p, v) \<longleftrightarrow>
      num < m \<or> num = m \<and> (prefix < p \<or> prefix = p \<and> start \<le> v)"
    by (simp add: build_log_key_def append_le_append be16_less be64_less)
      (metis be64_less linorder_not_le)
  moreover have "build_log_key m (p, v) < build_log_prefix num (prefix + 1) \<longleftrightarrow>
      m < num \<or> m = num \<and> p < prefix + 1"
    using append_less_append [of "be64 p" "be64 (prefix + 1)" "be64 v" "[]"]
    by (simp add: build_log_key_def build_log_prefix_def append_less_append be16_less be64_less)
  moreover have "p < prefix + 1 \<longleftrightarrow> p \<le> prefix"
    using word_succ_le_less [OF assms, of p] by (metis not_le)
  ultimately show ?thesis
    by (auto simp: in_scan_def)
qed

lemma log_entries_build:
  "log_entries (map (\<lambda>(v, x). (build_log_key num (p, v), x)) es) = Some (map (\<lambda>(v, x). ((p, v), x)) es)"
  by (induction es) (auto simp: build_log_key_def)

lemma st_log_iterator_props:
  assumes ok: "rocks_ok rk view" and l: "log_keys_ok view db" and p: "prefix + 1 \<noteq> 0"
  shows "\<exists>es. st_log_iterator rk num db prefix start = Some (map (\<lambda>(v, x). ((prefix, v), x)) es) \<and>
    set es = {(v, x). start \<le> v \<and> log_view view db num (prefix, v) = Some x} \<and>
    sorted_wrt (<) (map fst es)"
proof -
  let ?scan = "rk_scan rk db Log_cf (build_log_key num (prefix, start))
       (Some (build_log_prefix num (prefix + 1))) False"
  have key: "\<exists>v. k = build_log_key num (prefix, v) \<and> start \<le> v" if "(k, x) \<in> set ?scan" for k x
  proof -
    from that have "view db Log_cf k = Some x" "in_scan Log_cf (build_log_key num (prefix, start))
        (Some (build_log_prefix num (prefix + 1))) False k"
      by (auto simp: rocks_scan [OF ok])
    with l log_range [OF p] show ?thesis
      by (metis log_keys_ok_def surj_pair)
  qed
  define es where "es = map (\<lambda>(k, x). (read_u64 (take 8 (drop 10 k)), x)) ?scan"
  have scan: "?scan = map (\<lambda>(v, x). (build_log_key num (prefix, v), x)) es"
    unfolding es_def map_map
  proof (rule map_idI [symmetric])
    fix q
    assume "q \<in> set ?scan"
    then obtain v x where "q = (build_log_key num (prefix, v), x)"
      using key by (metis surj_pair)
    then show "((\<lambda>(v, x). (build_log_key num (prefix, v), x)) \<circ>
        (\<lambda>(k, x). (read_u64 (take 8 (drop 10 k)), x))) q = q"
      by (simp add: build_log_key_def)
  qed
  have "st_log_iterator rk num db prefix start = Some (map (\<lambda>(v, x). ((prefix, v), x)) es)"
    unfolding st_log_iterator_def scan by (rule log_entries_build)
  moreover have "sorted_wrt (<) (map fst es)"
    using rocks_scan_sorted [OF ok, of db Log_cf "build_log_key num (prefix, start)"
        "Some (build_log_prefix num (prefix + 1))" False]
    unfolding scan
    by (simp add: sorted_wrt_map case_prod_beta build_log_key_def append_less_append be64_less)
  moreover have "(v, x) \<in> set es \<longleftrightarrow> start \<le> v \<and> log_view view db num (prefix, v) = Some x" for v x
  proof -
    have "(v, x) \<in> set es \<longleftrightarrow> (build_log_key num (prefix, v), x) \<in> set ?scan"
      unfolding scan by (force simp: image_iff)
    then show ?thesis
      by (auto simp: rocks_scan [OF ok] log_range [OF p] log_view_def)
  qed
  ultimately show ?thesis
    by auto
qed

section \<open>A store in memory\<close>

text \<open>RocksDB on two association lists: it satisfies \<open>rocks_ok\<close>, and evaluates.\<close>

type_synonym mem_db = "(bytes \<times> bytes) list \<times> (bytes \<times> bytes) list"

fun mem_cf :: "mem_db \<Rightarrow> cf \<Rightarrow> (bytes \<times> bytes) list" where
  "mem_cf (d, l) Default_cf = d"
| "mem_cf (d, l) Log_cf = l"

fun mem_apply :: "wb_op \<Rightarrow> mem_db \<Rightarrow> mem_db" where
  "mem_apply (Put Default_cf k v) (d, l) = (AList.update k v d, l)"
| "mem_apply (Put Log_cf k v) (d, l) = (d, AList.update k v l)"
| "mem_apply (Delete Default_cf k) (d, l) = (AList.delete k d, l)"
| "mem_apply (Delete Log_cf k) (d, l) = (d, AList.delete k l)"

definition mem_view :: "mem_db \<Rightarrow> kv" where
  "mem_view db c = map_of (mem_cf db c)"

definition mem_rocks :: "mem_db rocks" where
  "mem_rocks = \<lparr>
     rk_get = (\<lambda>db c k. Ok (map_of (mem_cf db c) k)),
     rk_write = (\<lambda>db ops. (Ok (), foldl (\<lambda>db op. mem_apply op db) db ops)),
     rk_delete_files = (\<lambda>db c lo hi. (Ok (), db)),
     rk_scan = (\<lambda>db c start upper same_prefix.
       map (\<lambda>k. (k, the (map_of (mem_cf db c) k)))
         (filter (in_scan c start upper same_prefix)
           (sorted_list_of_set (set (map fst (mem_cf db c))))))\<rparr>"

lemma mem_apply_view: "mem_view (mem_apply op db) = apply_op op (mem_view db)"
proof
  fix c
  show "mem_view (mem_apply op db) c = apply_op op (mem_view db) c"
    by (cases "(op, db)" rule: mem_apply.cases; cases c)
      (simp_all add: mem_view_def update_conv' delete_conv')
qed

lemma mem_rocks_ok: "rocks_ok mem_rocks mem_view"
proof -
  have w: "mem_view (foldl (\<lambda>db op. mem_apply op db) db ops) = apply_ops ops (mem_view db)" for db ops
    unfolding apply_ops_def by (induction ops arbitrary: db) (simp_all add: mem_apply_view)
  have s: "sorted_wrt (<) (map fst (map (\<lambda>k. (k, f k)) (filter P (sorted_list_of_set (set (map fst m))))))"
    for m :: "(bytes \<times> bytes) list" and P and f :: "bytes \<Rightarrow> bytes"
    by (simp add: comp_def sorted_wrt_filter)
  have m: "set (map (\<lambda>k. (k, the (map_of m k))) (filter P (sorted_list_of_set (set (map fst m))))) =
      {(k, v). map_of m k = Some v \<and> P k}" for m :: "(bytes \<times> bytes) list" and P
  proof -
    have "set (sorted_list_of_set (set (map fst m))) = {k. map_of m k \<noteq> None}"
      using dom_map_of_conv_image_fst [of m] by (simp add: dom_def)
    then have "set (filter P (sorted_list_of_set (set (map fst m)))) = {k. map_of m k \<noteq> None \<and> P k}"
      by (simp only: set_filter mem_Collect_eq)
    then show ?thesis
      unfolding set_map by (auto simp: image_iff)
  qed
  show ?thesis
    unfolding rocks_ok_def mem_rocks_def using w s m by (simp add: mem_view_def)
qed

section \<open>Properties\<close>





text \<open>
  C31: The log iterator yields, in increasing order of version, exactly the entries of one node's log
  from the start version on, and never panics on keys the log writer built.
\<close>

theorem st_log_iterator_exact:
  assumes "rocks_ok rk view" "log_keys_ok view db" "prefix + 1 \<noteq> 0"
  shows "\<exists>es. st_log_iterator rk num db prefix start = Some (map (\<lambda>(v, x). ((prefix, v), x)) es) \<and>
    set es = {(v, x). start \<le> v \<and> log_view view db num (prefix, v) = Some x} \<and>
    sorted_wrt (<) (map fst es)"
  by (rule st_log_iterator_props [OF assms])

theorem st_log_iterator_exact_witness:
  "let db = ([], [(build_log_key 3 (1, 2), ''k'')]) in
   \<exists>es. st_log_iterator mem_rocks 3 db 1 1 = Some (map (\<lambda>(v, x). ((1, v), x)) es) \<and>
   set es = {(v, x). 1 \<le> v \<and> log_view mem_view db 3 (1, v) = Some x} \<and> sorted_wrt (<) (map fst es)"
  unfolding Let_def
  by (rule st_log_iterator_exact [OF mem_rocks_ok])
     (auto simp: log_keys_ok_def mem_view_def split: if_splits)

end
