(* ===== verification/In_Flight_Map.thy ===== *)
theory In_Flight_Map
  imports Prelude
begin

text \<open>
  \<^verbatim>\<open>inflightmap.rs\<close>: a map whose entries expire. The \<^verbatim>\<open>BinaryHeap\<close> of pairs is the list of its
  elements; its maximum in the reversed order of \<^verbatim>\<open>Pair\<close> is a pair with the least expiry time,
  here the first one. The map of an \<^verbatim>\<open>InFlightMap\<close> is also reached directly, through \<^verbatim>\<open>entry\<close> and
  \<^verbatim>\<open>Deref\<close>: the field \<open>ifm_map\<close>.
\<close>

section \<open>The heap\<close>

type_synonym ('t, 'k) heap = "('t \<times> 'k) list"

definition heap_push :: "'t \<times> 'k \<Rightarrow> ('t, 'k) heap \<Rightarrow> ('t, 'k) heap" where
  "heap_push p h = p # h"

fun heap_peek :: "('t::linorder, 'k) heap \<Rightarrow> ('t \<times> 'k) option" where
  "heap_peek [] = None"
| "heap_peek (p # h) =
     (case heap_peek h of
        None \<Rightarrow> Some p
      | Some q \<Rightarrow> if fst p \<le> fst q then Some p else Some q)"

definition heap_pop :: "('t::linorder, 'k) heap \<Rightarrow> ('t, 'k) heap" where
  "heap_pop h = (case heap_peek h of None \<Rightarrow> h | Some p \<Rightarrow> remove1 p h)"

lemma heap_peek_None: "heap_peek h = None \<longleftrightarrow> h = []"
  by (cases h) (auto split: option.splits)

lemma heap_peek_Some: "heap_peek h = Some p \<Longrightarrow> p \<in> set h \<and> (\<forall>q\<in>set h. fst p \<le> fst q)"
  by (induction h arbitrary: p) (auto simp: heap_peek_None split: option.splits if_splits)

lemma heap_pop_length: "heap_peek h = Some p \<Longrightarrow> length (heap_pop h) < length h"
  using heap_peek_Some [of h p] by (auto simp: heap_pop_def length_remove1 intro!: diff_less length_pos_if_in_set)

section \<open>The map\<close>

record ('k, 'v, 't) in_flight_map =
  ifm_map :: "('k \<times> 'v) list"
  ifm_heap :: "('t, 'k) heap"

definition ifm_new :: "('k, 'v, 't) in_flight_map" where
  "ifm_new = \<lparr>ifm_map = [], ifm_heap = []\<rparr>"

definition ifm_clear :: "('k, 'v, 't) in_flight_map \<Rightarrow> ('k, 'v, 't) in_flight_map" where
  "ifm_clear m = m\<lparr>ifm_map := [], ifm_heap := []\<rparr>"

definition ifm_remove :: "('k, 'v, 't) in_flight_map \<Rightarrow> 'k \<Rightarrow> 'v option \<times> ('k, 'v, 't) in_flight_map" where
  "ifm_remove m k = (map_of (ifm_map m) k, m\<lparr>ifm_map := AList.delete k (ifm_map m)\<rparr>)"

text \<open>Inserting a key that is present panics.\<close>

definition ifm_insert :: "('k, 'v, 't) in_flight_map \<Rightarrow> 'k \<Rightarrow> 'v \<Rightarrow> 't \<Rightarrow> ('k, 'v, 't) in_flight_map option" where
  "ifm_insert m k v expire =
     (let m = m\<lparr>ifm_heap := heap_push (expire, k) (ifm_heap m)\<rparr>
      in if map_of (ifm_map m) k = None then Some (m\<lparr>ifm_map := AList.update k v (ifm_map m)\<rparr>)
         else None)"

text \<open>\<^verbatim>\<open>entry_with_timeout\<close>, up to the entry it hands out.\<close>

definition ifm_entry_with_timeout :: "('k, 'v, 't) in_flight_map \<Rightarrow> 'k \<Rightarrow> 't \<Rightarrow> ('k, 'v, 't) in_flight_map" where
  "ifm_entry_with_timeout m k expire = m\<lparr>ifm_heap := heap_push (expire, k) (ifm_heap m)\<rparr>"

function ifm_pop_expired ::
  "('k, 'v, 't::linorder) in_flight_map \<Rightarrow> 't \<Rightarrow> ('k \<times> 'v) option \<times> ('k, 'v, 't) in_flight_map" where
  "ifm_pop_expired m now =
     (case heap_peek (ifm_heap m) of
        Some (e, k) \<Rightarrow>
          if e \<le> now then
            (let m' = m\<lparr>ifm_heap := heap_pop (ifm_heap m)\<rparr>
             in case map_of (ifm_map m') k of
                  Some v \<Rightarrow> (Some (k, v), m'\<lparr>ifm_map := AList.delete k (ifm_map m')\<rparr>)
                | None \<Rightarrow> ifm_pop_expired m' now)
          else (None, m)
      | None \<Rightarrow> (None, m))"
  by pat_completeness auto
termination
  by (relation "measure (\<lambda>(m, _). length (ifm_heap m))") (auto simp: heap_pop_length)

function ifm_touch_expired ::
  "('k, 'v, 't::linorder) in_flight_map \<Rightarrow> 't \<Rightarrow> 't \<Rightarrow> ('k \<times> 'v) option \<times> ('k, 'v, 't) in_flight_map" where
  "ifm_touch_expired m now expire =
     (case heap_peek (ifm_heap m) of
        Some (e, k) \<Rightarrow>
          if e \<le> now then
            (case map_of (ifm_map m) k of
               Some v \<Rightarrow> (Some (k, v), m\<lparr>ifm_heap := heap_push (expire, k) (heap_pop (ifm_heap m))\<rparr>)
             | None \<Rightarrow> ifm_touch_expired (m\<lparr>ifm_heap := heap_pop (ifm_heap m)\<rparr>) now expire)
          else (None, m)
      | None \<Rightarrow> (None, m))"
  by pat_completeness auto
termination
  by (relation "measure (\<lambda>(m, _). length (ifm_heap m))") (auto simp: heap_pop_length)

declare ifm_pop_expired.simps [simp del] ifm_touch_expired.simps [simp del]

section \<open>Every entry has a timeout\<close>

definition ifm_wf :: "('k, 'v, 't) in_flight_map \<Rightarrow> bool" where
  "ifm_wf m \<longleftrightarrow> lm_wf (ifm_map m) \<and> fst ` set (ifm_map m) \<subseteq> snd ` set (ifm_heap m)"

lemma ifm_wf_new: "ifm_wf ifm_new"
  by (simp add: ifm_wf_def ifm_new_def)

lemma ifm_wf_remove: "ifm_wf m \<Longrightarrow> ifm_wf (snd (ifm_remove m k))"
  by (simp add: ifm_wf_def ifm_remove_def lm_wf_delete fst_set_delete) blast

lemma ifm_wf_insert: "ifm_wf m \<Longrightarrow> ifm_insert m k v e = Some m' \<Longrightarrow> ifm_wf m'"
  by (simp add: ifm_wf_def ifm_insert_def Let_def split: if_splits)
    (force simp: lm_wf_update fst_set_update heap_push_def)

text \<open>A pop whose key is no longer in the map drops a stale timeout.\<close>

lemma set_heap_pop:
  "heap_peek h = Some p \<Longrightarrow> set h = insert p (set (heap_pop h))"
  using heap_peek_Some [of h p] set_remove1_subset [of p h]
  by (auto simp: heap_pop_def in_set_remove1) (metis in_set_remove1)

lemma ifm_wf_pop_stale:
  assumes "ifm_wf m" "heap_peek (ifm_heap m) = Some (e, k)" "map_of (ifm_map m) k = None"
  shows "ifm_wf (m\<lparr>ifm_heap := heap_pop (ifm_heap m)\<rparr>)"
  using assms set_heap_pop [OF assms(2)] by (auto simp: ifm_wf_def map_of_eq_None_iff)

lemma ifm_pop_expired_props:
  fixes m :: "('k, 'v, 't::linorder) in_flight_map"
  assumes "ifm_wf m"
  shows "ifm_wf (snd (ifm_pop_expired m now)) \<and>
    (case fst (ifm_pop_expired m now) of
       Some (k, v) \<Rightarrow>
         map_of (ifm_map m) k = Some v \<and> (\<exists>e\<le>now. (e, k) \<in> set (ifm_heap m)) \<and>
         ifm_map (snd (ifm_pop_expired m now)) = AList.delete k (ifm_map m)
     | None \<Rightarrow>
         ifm_map (snd (ifm_pop_expired m now)) = ifm_map m \<and>
         (\<forall>p\<in>set (ifm_heap (snd (ifm_pop_expired m now))). now < fst p))"
  using assms
proof (induction m now rule: ifm_pop_expired.induct)
  case (1 m now)
  show ?case
  proof (cases "heap_peek (ifm_heap m)")
    case None
    then show ?thesis
      using "1.prems" by (simp add: ifm_pop_expired.simps [of m] heap_peek_None)
  next
    case (Some p)
    obtain e k where p: "p = (e, k)"
      by force
    note peek = Some [unfolded p]
    note top = heap_peek_Some [OF peek] and pop = set_heap_pop [OF peek]
    show ?thesis
    proof (cases "e \<le> now")
      case False
      then show ?thesis
        using "1.prems" peek top by (fastforce simp: ifm_pop_expired.simps [of m])
    next
      case True
      show ?thesis
      proof (cases "map_of (ifm_map m) k")
        case None
        from "1.IH" [OF peek refl True refl _ ifm_wf_pop_stale [OF "1.prems" peek None]] None
        show ?thesis
          using peek True pop by (auto simp: ifm_pop_expired.simps [of m] split: option.splits)
      next
        case (Some v)
        then show ?thesis
          using "1.prems" peek True top pop
          by (simp add: ifm_pop_expired.simps [of m] ifm_wf_def lm_wf_delete fst_set_delete) blast
      qed
    qed
  qed
qed

text \<open>A key that had no timeout before it was inserted does not expire early.\<close>

lemma ifm_insert_not_early:
  assumes "ifm_wf m" "k \<notin> snd ` set (ifm_heap m)" "ifm_insert m k v e = Some m'" "now < e"
    and "fst (ifm_pop_expired m' now) = Some (k', v')"
  shows "k' \<noteq> k"
proof
  assume "k' = k"
  obtain e' where "e' \<le> now" "(e', k) \<in> set (ifm_heap m')"
    using ifm_pop_expired_props [OF ifm_wf_insert [OF assms(1,3)], of now] assms(5) \<open>k' = k\<close> by auto
  moreover have "set (ifm_heap m') = insert (e, k) (set (ifm_heap m))"
    using assms(3) by (auto simp: ifm_insert_def Let_def heap_push_def split: if_splits)
  ultimately show False
    using assms(2,4) by (auto simp: rev_image_eqI)
qed

lemma ifm_touch_expired_props:
  fixes m :: "('k, 'v, 't::linorder) in_flight_map"
  assumes "ifm_wf m"
  shows "ifm_wf (snd (ifm_touch_expired m now expire)) \<and>
    ifm_map (snd (ifm_touch_expired m now expire)) = ifm_map m \<and>
    (case fst (ifm_touch_expired m now expire) of
       Some (k, v) \<Rightarrow>
         map_of (ifm_map m) k = Some v \<and> (\<exists>e\<le>now. (e, k) \<in> set (ifm_heap m)) \<and>
         (expire, k) \<in> set (ifm_heap (snd (ifm_touch_expired m now expire)))
     | None \<Rightarrow> (\<forall>p\<in>set (ifm_heap (snd (ifm_touch_expired m now expire))). now < fst p))"
  using assms
proof (induction m now expire rule: ifm_touch_expired.induct)
  case (1 m now expire)
  show ?case
  proof (cases "heap_peek (ifm_heap m)")
    case None
    then show ?thesis
      using "1.prems" by (simp add: ifm_touch_expired.simps [of m] heap_peek_None)
  next
    case (Some p)
    obtain e k where p: "p = (e, k)"
      by force
    note peek = Some [unfolded p]
    note top = heap_peek_Some [OF peek] and pop = set_heap_pop [OF peek]
    consider "\<not> e \<le> now" | "e \<le> now" "map_of (ifm_map m) k = None"
      | v where "e \<le> now" "map_of (ifm_map m) k = Some v"
      by (cases "map_of (ifm_map m) k") auto
    then show ?thesis
    proof cases
      case 1
      then show ?thesis
        using "1.prems" peek top by (fastforce simp: ifm_touch_expired.simps [of m])
    next
      case 2
      from "1.IH" [OF peek refl 2 ifm_wf_pop_stale [OF "1.prems" peek 2(2)]] show ?thesis
        using peek 2 pop by (auto simp: ifm_touch_expired.simps [of m] split: option.splits)
    next
      case 3
      then show ?thesis
        using "1.prems" peek top pop
        by (auto simp: ifm_touch_expired.simps [of m] ifm_wf_def heap_push_def)
    qed
  qed
qed

section \<open>Properties\<close>

text \<open>
  Popping an expired entry of the in-flight map returns a key that is in the map and has a
  deadline that passed, and removes it; when it returns nothing, the map is unchanged and no
  deadline left in the heap has passed.
\<close>

theorem ifm_pop_expired_sound:
  fixes m :: "('k, 'v, 't::linorder) in_flight_map"
  assumes "ifm_wf m"
  shows "ifm_wf (snd (ifm_pop_expired m now)) \<and>
    (case fst (ifm_pop_expired m now) of
       Some (k, v) \<Rightarrow>
         map_of (ifm_map m) k = Some v \<and> (\<exists>e\<le>now. (e, k) \<in> set (ifm_heap m)) \<and>
         ifm_map (snd (ifm_pop_expired m now)) = AList.delete k (ifm_map m)
     | None \<Rightarrow>
         ifm_map (snd (ifm_pop_expired m now)) = ifm_map m \<and>
         list_all (\<lambda>p. now < fst p) (ifm_heap (snd (ifm_pop_expired m now))))"
  using ifm_pop_expired_props [OF assms, of now] by (auto simp: list_all_iff split: option.splits)

theorem ifm_pop_expired_sound_witness:
  "let m = \<lparr>ifm_map = [(1 :: nat, ''a'')], ifm_heap = [(5 :: nat, 1)]\<rparr> in
   ifm_wf (snd (ifm_pop_expired m 7)) \<and>
   (case fst (ifm_pop_expired m 7) of
      Some (k, v) \<Rightarrow>
        map_of (ifm_map m) k = Some v \<and> (\<exists>e\<le>7. (e, k) \<in> set (ifm_heap m)) \<and>
        ifm_map (snd (ifm_pop_expired m 7)) = AList.delete k (ifm_map m)
    | None \<Rightarrow>
        ifm_map (snd (ifm_pop_expired m 7)) = ifm_map m \<and>
        list_all (\<lambda>p. 7 < fst p) (ifm_heap (snd (ifm_pop_expired m 7))))"
  unfolding Let_def
  by (rule ifm_pop_expired_sound) (simp add: ifm_wf_def)

end
