(* ===== verification/System.thy ===== *)
theory System
  imports Dht Storage In_Flight_Map "HOL-Library.Monad_Syntax" "HOL-Library.Multiset"
begin

text \<open>
  What a handler of the database sees of the rest of the node: the parameters of the program
  (\<open>sys\<close>: the RocksDB interface, the serializers, \<^verbatim>\<open>crc16\<close>, the configuration, and of the surroundings
  of one handler run the clock, the open connections, whether the fabric has a route for a
  message, the order a shuffle picks, the random numbers drawn, the capacity of a hash set
  allocated for the keys of a delta, and whether debug assertions are compiled in), the shared state (\<open>env\<close>: the stored data, the ring, the
  count of running synchronisations, the number of cookies drawn and the effects so far, in order), and the context of a
  client request (\<^verbatim>\<open>Context\<close> of \<^verbatim>\<open>database.rs\<close>). A handler is a function on the shared state; \<open>None\<close> is
  a panic. Within one run the clock does not advance.
\<close>

section \<open>The context of a request\<close>

type_synonym addr = "string \<times> u16"

type_synonym mutator_fn = "node_id \<Rightarrow> version \<Rightarrow> cube \<Rightarrow> (cube \<times> resp_value option, command_error) res"

type_synonym response_fn = "cube \<Rightarrow> resp_value"

record context_read =
  crd_cube :: cube
  crd_response :: "response_fn option"

record context_write =
  cwr_version :: version
  cwr_mutator_fn :: "mutator_fn option"
  cwr_key :: bytes
  cwr_cube :: cube
  cwr_reply_result :: bool
  cwr_response :: "resp_value option"
  cwr_response_fn :: "response_fn option"

record ctx =
  cx_token :: token
  cx_is_multi :: bool
  cx_is_exec :: bool
  cx_response :: "resp_value list"
  cx_commands :: "resp_value list"
  cx_reads :: "context_read list"
  cx_writes :: "context_write list"

definition ctx_new :: "token \<Rightarrow> ctx" where
  "ctx_new token =
     \<lparr>cx_token = token, cx_is_multi = False, cx_is_exec = False, cx_response = [], cx_commands = [],
      cx_reads = [], cx_writes = []\<rparr>"

definition take_response :: "ctx \<Rightarrow> (resp_value \<times> ctx) option" where
  "take_response c =
     (if cx_is_exec c
      then Some (RArray (cx_response c),
             c\<lparr>cx_is_multi := False, cx_is_exec := False, cx_response := []\<rparr>)
      else if cx_response c = [] then None
      else Some (last (cx_response c), c\<lparr>cx_response := butlast (cx_response c)\<rparr>))"

definition ctx_respond :: "resp_value \<Rightarrow> ctx \<Rightarrow> ctx" where
  "ctx_respond response c = c\<lparr>cx_response := cx_response c @ [response]\<rparr>"

definition ctx_clear :: "ctx \<Rightarrow> ctx" where
  "ctx_clear c =
     c\<lparr>cx_is_multi := False, cx_is_exec := False, cx_response := [], cx_commands := [],
       cx_reads := [], cx_writes := []\<rparr>"

section \<open>Parameters and shared state\<close>

record config =
  cf_request_timeout :: nat
  cf_sync_incomming_max :: u16
  cf_sync_outgoing_max :: u16
  cf_sync_auto :: bool
  cf_sync_timeout :: nat
  cf_sync_msg_timeout :: nat
  cf_sync_msg_inflight :: nat
  cf_consistency_read :: consistency_level
  cf_consistency_write :: consistency_level

record 'db sys =
  sy_rocks :: "'db rocks"
  sy_ring_codec :: "(addr, addr) ring_codec"
  sy_ser_cube :: "cube \<Rightarrow> bytes"
  sy_de_cube :: "bytes \<Rightarrow> cube option"
  sy_ser_saved :: "bvv \<times> bool \<Rightarrow> bytes"
  sy_de_saved :: "bytes \<Rightarrow> (bvv \<times> bool) option"
  sy_ser_vv :: "version_vector \<Rightarrow> bytes"
  sy_de_vv :: "bytes \<Rightarrow> version_vector option"
  sy_crc16 :: "bytes \<Rightarrow> u16"
  sy_config :: config
  sy_now :: instant
  sy_connections :: "node_id list"
  sy_route :: "node_id \<Rightarrow> fabric_msg \<Rightarrow> bool"
  sy_order :: "nat \<Rightarrow> nat list"
  sy_cookies :: "nat \<Rightarrow> cookie"
  sy_capacity :: "dot list \<Rightarrow> nat"
  sy_rnd :: u16
  sy_time :: u64
  sy_coin :: "node_id \<Rightarrow> bool"
  sy_debug_assertions :: bool

datatype effect = Sent node_id fabric_msg | Reply ctx | Dht_Changed

record 'db env =
  ev_db :: 'db
  ev_dht :: "(addr, addr) dht"
  ev_incomming_syncs :: u16
  ev_outgoing_syncs :: u16
  ev_drawn :: nat
  ev_effects :: "effect list"

text \<open>
  The laws of the parameters: the store behaves as documented, what was serialized is read back,
  and a shuffle is a permutation.
\<close>

definition sys_ok :: "'db sys \<Rightarrow> ('db \<Rightarrow> kv) \<Rightarrow> bool" where
  "sys_ok sy view \<longleftrightarrow>
     rocks_ok (sy_rocks sy) view \<and> codec (sy_ser_cube sy) (sy_de_cube sy) \<and>
     codec (sy_ser_saved sy) (sy_de_saved sy) \<and> (\<forall>n. mset (sy_order sy n) = mset [0..<n])"

definition shuffle :: "'db sys \<Rightarrow> 'x list \<Rightarrow> 'x list" where
  "shuffle sy xs = map (\<lambda>i. xs ! i) (sy_order sy (length xs))"

text \<open>
  An instance on the in-memory store and the reference serializers, with the default configuration
  and a route to every node, and a node of a cluster of two that both own its one vnode.
\<close>

definition default_config :: config where
  "default_config =
     \<lparr>cf_request_timeout = 1000, cf_sync_incomming_max = 10, cf_sync_outgoing_max = 10, cf_sync_auto = True,
      cf_sync_timeout = 10000, cf_sync_msg_timeout = 1000, cf_sync_msg_inflight = 10,
      cf_consistency_read = One, cf_consistency_write = One\<rparr>"

definition ref_sys :: "mem_db sys" where
  "ref_sys =
     \<lparr>sy_rocks = mem_rocks,
      sy_ring_codec = \<lparr>rc_serialize = to_bytes (enc_ring enc_addr enc_addr),
        rc_deserialize = of_bytes (dec_ring dec_addr dec_addr)\<rparr>,
      sy_ser_cube = to_bytes enc_cube, sy_de_cube = of_bytes dec_cube,
      sy_ser_saved = to_bytes enc_saved, sy_de_saved = of_bytes dec_saved,
      sy_ser_vv = to_bytes enc_vv, sy_de_vv = of_bytes dec_vv,
      sy_crc16 = (\<lambda>bs. of_nat (length bs)), sy_config = default_config, sy_now = 0, sy_connections = [],
      sy_route = (\<lambda>_ _. True), sy_order = (\<lambda>n. [0..<n]), sy_cookies = (\<lambda>n. Cookie 0 (of_nat n)),
      sy_capacity = (\<lambda>_. 0), sy_rnd = 0, sy_time = 0, sy_coin = (\<lambda>_. True), sy_debug_assertions = False\<rparr>"

definition ref_ring :: "(addr, addr) ring" where
  "ref_ring =
     \<lparr>rg_vnodes = [\<lparr>vn_owners = [(1, Owner), (2, Owner)], vn_version = vv_new\<rparr>],
      rg_nodes =
        [(1, \<lparr>nd_addr = (''10.0.0.1'', 16379), nd_status = Valid, nd_meta = (''10.0.0.1'', 6379), nd_version = vv_new\<rparr>),
         (2, \<lparr>nd_addr = (''10.0.0.2'', 16379), nd_status = Valid, nd_meta = (''10.0.0.2'', 6379), nd_version = vv_new\<rparr>)],
      rg_replication_factor = 2, rg_version = vv_new, rg_cluster = ''c''\<rparr>"

definition ref_env :: "mem_db env" where
  "ref_env =
     \<lparr>ev_db = ([], []), ev_dht = (dht_new 1 ''c'' True True 0)\<lparr>dht_ring := ref_ring\<rparr>,
      ev_incomming_syncs = 0, ev_outgoing_syncs = 0, ev_drawn = 0, ev_effects = []\<rparr>"

lemma ref_sys_sel [simp]:
  "sy_rocks ref_sys = mem_rocks" "sy_config ref_sys = default_config" "sy_now ref_sys = 0"
  "sy_connections ref_sys = []" "sy_route ref_sys node msg" "sy_order ref_sys = (\<lambda>n. [0..<n])"
  "sy_cookies ref_sys n = Cookie 0 (of_nat n)" "sy_crc16 ref_sys bs = of_nat (length bs)"
  "sy_ser_cube ref_sys = to_bytes enc_cube" "sy_de_cube ref_sys = of_bytes dec_cube"
  "sy_ser_saved ref_sys = to_bytes enc_saved" "sy_de_saved ref_sys = of_bytes dec_saved"
  "sy_ser_vv ref_sys = to_bytes enc_vv" "\<not> sy_debug_assertions ref_sys"
  by (simp_all add: ref_sys_def)

lemma ref_sys_ok: "sys_ok ref_sys mem_view"
  by (simp add: sys_ok_def mem_rocks_ok cube.bytes.codec_axioms saved.bytes.codec_axioms)

abbreviation this_node :: "'db env \<Rightarrow> node_id" where
  "this_node e \<equiv> dht_node (ev_dht e)"

definition gen_cookie :: "'db sys \<Rightarrow> 'db env \<Rightarrow> cookie \<times> 'db env" where
  "gen_cookie sy e = (sy_cookies sy (ev_drawn e), e\<lparr>ev_drawn := ev_drawn e + 1\<rparr>)"

section \<open>Sending and responding\<close>

text \<open>\<^verbatim>\<open>Fabric::send_msg\<close>: a message to oneself is a panic, one without a route an error.\<close>

definition send_msg :: "'db sys \<Rightarrow> node_id \<Rightarrow> fabric_msg \<Rightarrow> 'db env \<Rightarrow> ((unit, fabric_error) res \<times> 'db env) option" where
  "send_msg sy node msg e =
     (if node = this_node e then None
      else if sy_route sy node msg then Some (Ok (), e\<lparr>ev_effects := ev_effects e @ [Sent node msg]\<rparr>)
      else Some (Err NoRoute, e))"

definition respond :: "ctx \<Rightarrow> 'db env \<Rightarrow> 'db env" where
  "respond c e = e\<lparr>ev_effects := ev_effects e @ [Reply c]\<rparr>"

definition respond_resp :: "ctx \<Rightarrow> resp_value \<Rightarrow> 'db env \<Rightarrow> 'db env" where
  "respond_resp c resp = respond (ctx_respond resp c)"

definition respond_int :: "ctx \<Rightarrow> i64 \<Rightarrow> 'db env \<Rightarrow> 'db env" where
  "respond_int c i = respond_resp c (RInt i)"

definition respond_ok :: "ctx \<Rightarrow> 'db env \<Rightarrow> 'db env" where
  "respond_ok c = respond_resp c (RStatus ''OK'')"

definition respond_error :: "ctx \<Rightarrow> command_error \<Rightarrow> 'db env \<Rightarrow> 'db env" where
  "respond_error c err = respond_resp c (command_error_into err)"

definition show_addr :: "addr \<Rightarrow> string" where
  "show_addr a = fst a @ '':'' @ show_nat (unat (snd a))"

definition respond_moved :: "ctx \<Rightarrow> vnode_id \<Rightarrow> addr \<Rightarrow> 'db env \<Rightarrow> 'db env" where
  "respond_moved c vnode a =
     respond_resp c (RError (''MOVED '' @ show_nat (unat vnode) @ '' '' @ show_addr a))"

definition respond_ask :: "ctx \<Rightarrow> vnode_id \<Rightarrow> addr \<Rightarrow> 'db env \<Rightarrow> 'db env" where
  "respond_ask c vnode a =
     respond_resp c (RError (''ASK '' @ show_nat (unat vnode) @ '' '' @ show_addr a))"

text \<open>The messages and callbacks of an operation on the ring; its sends ignore a missing route.\<close>

fun dht_effects :: "'db sys \<Rightarrow> dht_effect list \<Rightarrow> effect list" where
  "dht_effects sy [] = []"
| "dht_effects sy (Dht_Send node msg # es) =
     (if sy_route sy node msg then Sent node msg # dht_effects sy es else dht_effects sy es)"
| "dht_effects sy (Dht_Callback # es) = Dht_Changed # dht_effects sy es"

definition run_dht :: "'db sys \<Rightarrow> (addr, addr) dht_op \<Rightarrow> 'db env \<Rightarrow> (unit, ring_error) res \<times> 'db env" where
  "run_dht sy f e =
     (case f (ev_dht e) of (res, d, es) \<Rightarrow>
        (res, e\<lparr>ev_dht := d, ev_effects := ev_effects e @ dht_effects sy es\<rparr>))"

section \<open>Running synchronisations\<close>

datatype sync_direction = Incomming | Outgoing

definition signal_sync_start :: "'db sys \<Rightarrow> sync_direction \<Rightarrow> 'db env \<Rightarrow> bool \<times> 'db env" where
  "signal_sync_start sy direction e =
     (case direction of
        Incomming \<Rightarrow>
          if ev_incomming_syncs e < cf_sync_incomming_max (sy_config sy)
          then (True, e\<lparr>ev_incomming_syncs := ev_incomming_syncs e + 1\<rparr>) else (False, e)
      | Outgoing \<Rightarrow>
          if ev_outgoing_syncs e < cf_sync_outgoing_max (sy_config sy)
          then (True, e\<lparr>ev_outgoing_syncs := ev_outgoing_syncs e + 1\<rparr>) else (False, e))"

definition signal_sync_end :: "sync_direction \<Rightarrow> 'db env \<Rightarrow> 'db env option" where
  "signal_sync_end direction e =
     (case direction of
        Incomming \<Rightarrow>
          if ev_incomming_syncs e = 0 then None
          else Some (e\<lparr>ev_incomming_syncs := ev_incomming_syncs e - 1\<rparr>)
      | Outgoing \<Rightarrow>
          if ev_outgoing_syncs e = 0 then None
          else Some (e\<lparr>ev_outgoing_syncs := ev_outgoing_syncs e - 1\<rparr>))"

section \<open>What a step leaves unchanged\<close>

text \<open>A quiet step sends messages and replies, and changes nothing else of the shared state.\<close>

definition quiet :: "'db env \<Rightarrow> 'db env \<Rightarrow> bool" where
  "quiet e e' \<longleftrightarrow> (\<exists>es. e' = e\<lparr>ev_effects := ev_effects e @ es\<rparr>)"

lemma quiet_refl [simp, intro]: "quiet e e"
  unfolding quiet_def by (rule exI [of _ "[]"]) simp

lemma quiet_effects: "quiet e (e\<lparr>ev_effects := ev_effects e @ es\<rparr>)"
  unfolding quiet_def by (rule exI) (rule refl)

lemma quiet_trans [trans]:
  assumes "quiet a b" "quiet b c"
  shows "quiet a c"
proof -
  from assms obtain es es' where "b = a\<lparr>ev_effects := ev_effects a @ es\<rparr>" "c = b\<lparr>ev_effects := ev_effects b @ es'\<rparr>"
    unfolding quiet_def by blast
  then have "c = a\<lparr>ev_effects := ev_effects a @ (es @ es')\<rparr>"
    by simp
  then show ?thesis
    by (simp only: quiet_effects)
qed

lemma quietD:
  assumes "quiet e e'"
  shows "ev_db e' = ev_db e" "ev_dht e' = ev_dht e" "ev_incomming_syncs e' = ev_incomming_syncs e"
    "ev_outgoing_syncs e' = ev_outgoing_syncs e" "ev_drawn e' = ev_drawn e"
  using assms by (auto simp: quiet_def)

lemma quiet_respond [simp, intro]: "quiet e (respond c e)" "quiet e (respond_resp c r e)" "quiet e (respond_error c err e)"
  by (simp_all add: respond_def respond_resp_def respond_error_def quiet_effects)

lemma quiet_send_msg: "send_msg sy node msg e = Some (res, e') \<Longrightarrow> quiet e e'"
  by (auto simp: send_msg_def quiet_effects split: if_splits)

lemma send_msg_total: "node \<noteq> this_node e \<Longrightarrow> \<exists>res e'. send_msg sy node msg e = Some (res, e') \<and> res \<noteq> Panic \<and> quiet e e'"
  by (simp add: send_msg_def quiet_effects)

end
