(* ===== verification/VNode_State.thy ===== *)
theory VNode_State
  imports System
begin

text \<open>
  The state of a vnode and its storage (\<^verbatim>\<open>VNodeState\<close> of \<^verbatim>\<open>vnode.rs\<close>). The data of the vnode is the part
  of the shared store under its number. The metadata store is the one under 65535.
\<close>

datatype vnode_status = Ready | Bootstrap | Zombie | Absent

record vnode_state =
  vs_num :: u16
  vs_status :: vnode_status
  vs_last_status_change :: instant
  vs_clocks :: bvv
  vs_pending_bootstrap :: bool
  vs_sync_nodes :: "node_id list"

definition ZOMBIE_TIMEOUT_MS :: nat where
  "ZOMBIE_TIMEOUT_MS = 60000"

definition meta_num :: u16 where
  "meta_num = - 1"

definition meta_key :: "vnode_state \<Rightarrow> bytes" where
  "meta_key st = show_nat (unat (vs_num st))"

section \<open>Saving and loading\<close>

definition vs_save :: "'db sys \<Rightarrow> vnode_state \<Rightarrow> bool \<Rightarrow> 'db env \<Rightarrow> 'db env option" where
  "vs_save sy st shutdown e =
     (case st_set (sy_rocks sy) meta_num (ev_db e) (meta_key st) (sy_ser_saved sy (vs_clocks st, shutdown)) of
        (Ok _, db) \<Rightarrow> Some (e\<lparr>ev_db := db\<rparr>)
      | _ \<Rightarrow> None)"

definition vs_clear :: "'db sys \<Rightarrow> vnode_state \<Rightarrow> 'db env \<Rightarrow> (vnode_state \<times> 'db env) option" where
  "vs_clear sy st e =
     map_option (\<lambda>db. (st\<lparr>vs_clocks := bvv_clear (vs_clocks st)\<rparr>, e\<lparr>ev_db := db\<rparr>))
       (st_clear (sy_rocks sy) (vs_num st) (ev_db e))"

definition set_status :: "'db sys \<Rightarrow> vnode_status \<Rightarrow> vnode_state \<Rightarrow> 'db env \<Rightarrow> (vnode_state \<times> 'db env) option" where
  "set_status sy new st e =
     (if new = vs_status st then Some (st, e)
      else do {
        (st, e) \<leftarrow>
          (case new of
             Bootstrap \<Rightarrow>
               if \<not> vs_pending_bootstrap st \<and> vs_sync_nodes st = [] then vs_clear sy st e else None
           | Absent \<Rightarrow> if vs_sync_nodes st = [] then vs_clear sy st e else None
           | _ \<Rightarrow> Some (st, e));
        let st = st\<lparr>vs_last_status_change := sy_now sy, vs_pending_bootstrap := False, vs_status := new\<rparr>;
        e \<leftarrow> vs_save sy st False e;
        Some (st, e)
      })"

definition new_empty :: "'db sys \<Rightarrow> u16 \<Rightarrow> vnode_status \<Rightarrow> 'db env \<Rightarrow> (vnode_state \<times> 'db env) option" where
  "new_empty sy num status e =
     (case st_del (sy_rocks sy) meta_num (ev_db e) (show_nat (unat num)) of
        (Ok _, db) \<Rightarrow>
          map_option (\<lambda>db.
              (\<lparr>vs_num = num, vs_status = status, vs_last_status_change = sy_now sy, vs_clocks = bvv_new,
                vs_pending_bootstrap = False, vs_sync_nodes = []\<rparr>, e\<lparr>ev_db := db\<rparr>))
            (st_clear (sy_rocks sy) num db)
      | _ \<Rightarrow> None)"

text \<open>The dots the log holds above the base of each clock are added to it.\<close>

definition recover_clock ::
  "'db sys \<Rightarrow> u16 \<Rightarrow> 'db \<Rightarrow> id \<times> bitmapped_version \<Rightarrow> (id \<times> bitmapped_version) option" where
  "recover_clock sy num db p =
     (let (node, bv) = p
      in map_option (\<lambda>es. (node, foldl (\<lambda>bv ((_, dot), _). snd (bv_add bv dot)) bv es))
           (st_log_iterator (sy_rocks sy) num db node (bv_base bv + 1)))"

fun recover_clocks :: "'db sys \<Rightarrow> u16 \<Rightarrow> 'db \<Rightarrow> bvv \<Rightarrow> bvv option" where
  "recover_clocks sy num db [] = Some []"
| "recover_clocks sy num db (p # ps) = do {
     p \<leftarrow> recover_clock sy num db p;
     ps \<leftarrow> recover_clocks sy num db ps;
     Some (p # ps)
   }"

definition recover_dots :: "'db sys \<Rightarrow> vnode_state \<Rightarrow> 'db env \<Rightarrow> vnode_state option" where
  "recover_dots sy st e =
     map_option (\<lambda>clocks. st\<lparr>vs_clocks := clocks\<rparr>)
       (recover_clocks sy (vs_num st) (ev_db e) (vs_clocks st))"

definition vs_load :: "'db sys \<Rightarrow> u16 \<Rightarrow> vnode_status \<Rightarrow> 'db env \<Rightarrow> (vnode_state \<times> 'db env) option" where
  "vs_load sy num status e =
     (case st_get (sy_rocks sy) meta_num (ev_db e) (show_nat (unat num)) of
        Ok saved \<Rightarrow> do {
          saved_state_opt \<leftarrow>
            (case saved of
               None \<Rightarrow> Some None
             | Some bytes \<Rightarrow> map_option Some (sy_de_saved sy bytes));
          case saved_state_opt of
            None \<Rightarrow> new_empty sy num status e
          | Some (clocks, clean_shutdown) \<Rightarrow>
              if status = Absent then new_empty sy num status e
              else if status \<noteq> Ready then None
              else
                (let st = \<lparr>vs_num = num, vs_status = status, vs_last_status_change = sy_now sy,
                           vs_clocks = clocks, vs_pending_bootstrap = False, vs_sync_nodes = []\<rparr>
                 in if clean_shutdown then Some (st, e)
                    else map_option (\<lambda>st. (st, e)) (recover_dots sy st e))
        }
      | _ \<Rightarrow> None)"

section \<open>Storage\<close>

definition storage_get :: "'db sys \<Rightarrow> vnode_state \<Rightarrow> 'db env \<Rightarrow> bytes \<Rightarrow> (cube, unit) res" where
  "storage_get sy st e key =
     (case st_get (sy_rocks sy) (vs_num st) (ev_db e) key of
        Ok (Some bytes) \<Rightarrow> (case sy_de_cube sy bytes of Some cube \<Rightarrow> Ok cube | None \<Rightarrow> Err ())
      | Ok None \<Rightarrow> Ok (cube_new (vs_clocks st))
      | Err _ \<Rightarrow> Err ()
      | Panic \<Rightarrow> Panic)"

text \<open>A cube the clocks subsume is deleted, any other is stored.\<close>

definition batch_put :: "'db sys \<Rightarrow> vnode_state \<Rightarrow> batch \<Rightarrow> bytes \<Rightarrow> cube \<Rightarrow> batch option" where
  "batch_put sy st b key cube =
     (case is_subsumed cube (vs_clocks st) of
        None \<Rightarrow> None
      | Some True \<Rightarrow> batch_del (vs_num st) b key
      | Some False \<Rightarrow> batch_set (vs_num st) b key (sy_ser_cube sy cube))"

fun local_batch :: "'db sys \<Rightarrow> vnode_state \<Rightarrow> node_id \<Rightarrow> (version \<times> bytes \<times> cube) list \<Rightarrow> batch \<Rightarrow> batch option" where
  "local_batch sy st node [] b = Some b"
| "local_batch sy st node ((version, key, cube) # writes) b = do {
     b \<leftarrow> batch_put sy st b key cube;
     local_batch sy st node writes (batch_log_set (vs_num st) b (node, version) key)
   }"

definition storage_set_local :: "'db sys \<Rightarrow> vnode_state \<Rightarrow> (version \<times> bytes \<times> cube) list \<Rightarrow> 'db env \<Rightarrow>
    ((unit, command_error) res \<times> 'db env) option" where
  "storage_set_local sy st writes e =
     (case local_batch sy st (this_node e) writes batch_new of
        None \<Rightarrow> None
      | Some b \<Rightarrow>
          (case batch_write (sy_rocks sy) (ev_db e) b of
             (Ok _, db) \<Rightarrow> Some (Ok (), e\<lparr>ev_db := db\<rparr>)
           | (Err _, db) \<Rightarrow> Some (Err StorageError, e\<lparr>ev_db := db\<rparr>)
           | (Panic, _) \<Rightarrow> None))"

text \<open>
  The dots of a replicated cube are added to the clocks one by one, each new one to the log too;
  the flag tells whether none was new.
\<close>

fun add_dots :: "u16 \<Rightarrow> bytes \<Rightarrow> dot list \<Rightarrow> bvv \<Rightarrow> batch \<Rightarrow> bvv \<times> batch \<times> bool" where
  "add_dots num key [] clocks b = (clocks, b, True)"
| "add_dots num key ((i, v) # dots) clocks b =
     (case bvv_add clocks i v of (added, clocks) \<Rightarrow>
        (case add_dots num key dots clocks (if added then batch_log_set num b (i, v) key else b) of
           (clocks, b, known) \<Rightarrow> (clocks, b, known \<and> \<not> added)))"

text \<open>
  The loop of \<^verbatim>\<open>storage_set_remote\<close>. An unreadable old value ends it with an error, but the clocks keep
  the dots added so far.
\<close>

fun remote_batch :: "'db sys \<Rightarrow> 'db env \<Rightarrow> (bytes \<times> cube \<times> bool) list \<Rightarrow> vnode_state \<Rightarrow> batch \<Rightarrow> cube option list \<Rightarrow>
    (vnode_state \<times> (batch \<times> cube option list, unit) res) option" where
  "remote_batch sy e [] st b results = Some (st, Ok (b, results))"
| "remote_batch sy e ((key, proposed, reply_result) # writes) st b results =
     (case storage_get sy st e key of
        Panic \<Rightarrow> None
      | Err _ \<Rightarrow> Some (st, Err ())
      | Ok old \<Rightarrow>
          (case for_each_dot proposed of
             None \<Rightarrow> None
           | Some dots \<Rightarrow>
               (case add_dots (vs_num st) key dots (vs_clocks st) b of (clocks, b, known) \<Rightarrow>
                  (let st = st\<lparr>vs_clocks := clocks\<rparr>
                   in if known \<and> \<not> reply_result then remote_batch sy e writes st b (results @ [None])
                      else
                        (let new = cube_merge old proposed
                         in case (if known then Some b else batch_put sy st b key new) of
                              None \<Rightarrow> None
                            | Some b \<Rightarrow>
                                remote_batch sy e writes st b
                                  (results @ [if reply_result then Some new else None]))))))"

definition storage_set_remote :: "'db sys \<Rightarrow> (bytes \<times> cube \<times> bool) list \<Rightarrow> vnode_state \<Rightarrow> 'db env \<Rightarrow>
    ((cube option list, unit) res \<times> vnode_state \<times> 'db env) option" where
  "storage_set_remote sy writes st e =
     (case remote_batch sy e writes st batch_new [] of
        None \<Rightarrow> None
      | Some (st, Err _) \<Rightarrow> Some (Err (), st, e)
      | Some (st, Panic) \<Rightarrow> None
      | Some (st, Ok (b, results)) \<Rightarrow>
          (case batch_write (sy_rocks sy) (ev_db e) b of
             (Ok _, db) \<Rightarrow> Some (Ok results, st, e\<lparr>ev_db := db\<rparr>)
           | (Err _, db) \<Rightarrow> Some (Err (), st, e\<lparr>ev_db := db\<rparr>)
           | (Panic, _) \<Rightarrow> None))"

section \<open>What a batch does to the store\<close>

lemma apply_ops_append: "apply_ops (a @ b) m = apply_ops b (apply_ops a m)"
  by (simp add: apply_ops_def)

lemma apply_ops_Nil: "apply_ops [] m = m"
  by (simp add: apply_ops_def)

definition log_puts :: "u16 \<Rightarrow> bytes \<Rightarrow> dot list \<Rightarrow> batch" where
  "log_puts num key dots = map (\<lambda>d. Put Log_cf (build_log_key num d) key) dots"

lemma apply_log_puts:
  "apply_ops (log_puts num key dots) m Default_cf = m Default_cf"
  "apply_ops (log_puts num key dots) m Log_cf (build_log_key n d) =
     (if n = num \<and> d \<in> set dots then Some key else m Log_cf (build_log_key n d))"
  by (induction dots arbitrary: m)
     (auto simp: log_puts_def apply_ops_def prod_eq_iff)

lemma add_dots_props:
  assumes "bvv_wf clocks" "\<forall>d\<in>set dots. snd d \<noteq> - 1"
  shows "\<exists>new clocks'.
    add_dots num key dots clocks b =
      (clocks', b @ log_puts num key new, \<forall>d\<in>set dots. snd d = 0 \<or> d \<in> bvv_dots clocks) \<and>
    set new = {d \<in> set dots. snd d \<noteq> 0 \<and> d \<notin> bvv_dots clocks} \<and> bvv_wf clocks' \<and>
    bvv_dots clocks' = bvv_dots clocks \<union> set dots \<union> (\<lambda>(i, v). (i, 0)) ` set dots"
  using assms
proof (induction dots arbitrary: clocks b)
  case Nil
  then show ?case
    by (simp add: log_puts_def)
next
  case (Cons d dots)
  obtain i v where d: "d = (i, v)"
    by (cases d)
  obtain added clocks1 where add: "bvv_add clocks i v = (added, clocks1)"
    by (cases "bvv_add clocks i v")
  have v: "v \<noteq> - 1"
    using Cons.prems(2) d by simp
  note p = bvv_add_props [OF Cons.prems(1) v, of i, unfolded add, simplified]
  let ?b = "if added then batch_log_set num b (i, v) key else b"
  have "\<forall>d\<in>set dots. snd d \<noteq> - 1"
    using Cons.prems(2) by simp
  from Cons.IH [OF p(1) this, of ?b] obtain new clocks' where
    IH: "add_dots num key dots clocks1 ?b =
        (clocks', ?b @ log_puts num key new, \<forall>d\<in>set dots. snd d = 0 \<or> d \<in> bvv_dots clocks1)"
      "set new = {d \<in> set dots. snd d \<noteq> 0 \<and> d \<notin> bvv_dots clocks1}" "bvv_wf clocks'"
      "bvv_dots clocks' = bvv_dots clocks1 \<union> set dots \<union> (\<lambda>(i, v). (i, 0)) ` set dots"
    by blast
  let ?new = "(if added then [(i, v)] else []) @ new"
  have b: "?b @ log_puts num key new = b @ log_puts num key ?new"
    by (simp add: log_puts_def batch_log_set_def)
  have "set ?new = {d' \<in> set (d # dots). snd d' \<noteq> 0 \<and> d' \<notin> bvv_dots clocks}"
    using p(2,3) unfolding d set_append IH(2) by auto
  moreover have "bvv_dots clocks' = bvv_dots clocks \<union> set (d # dots) \<union> (\<lambda>(i, v). (i, 0)) ` set (d # dots)"
    unfolding IH(4) p(2) d by auto
  moreover have "((\<forall>d\<in>set dots. snd d = 0 \<or> d \<in> bvv_dots clocks1) \<and> \<not> added) \<longleftrightarrow>
      (\<forall>d'\<in>set (d # dots). snd d' = 0 \<or> d' \<in> bvv_dots clocks)"
  proof (cases added)
    case True
    then show ?thesis
      using p(3) d by simp
  next
    case False
    then have "snd d' = 0 \<or> d' \<in> bvv_dots clocks1 \<longleftrightarrow> snd d' = 0 \<or> d' \<in> bvv_dots clocks" for d'
      unfolding p(2) using p(3) by (cases d') auto
    then show ?thesis
      using False p(3) d by simp
  qed
  ultimately show ?case
    using IH(1,3) b by (intro exI [of _ ?new] exI [of _ clocks']) (simp add: d add)
qed

lemma batch_put_ops:
  assumes "batch_put sy st b key cube = Some b'"
  obtains sub where "is_subsumed cube (vs_clocks st) = Some sub"
    "b' = b @ [if sub then Delete Default_cf (be16 (vs_num st) @ key)
               else Put Default_cf (be16 (vs_num st) @ key) (sy_ser_cube sy cube)]"
  using assms
  by (auto simp: batch_put_def batch_del_def batch_set_def build_key_def
      split: option.splits bool.splits if_splits)

section \<open>Replicated writes\<close>

text \<open>A write of dots the clocks already have changes nothing.\<close>

definition dots_known :: "bvv \<Rightarrow> cube \<Rightarrow> bool" where
  "dots_known clocks c \<longleftrightarrow>
     (case for_each_dot c of None \<Rightarrow> False | Some dots \<Rightarrow> list_all (\<lambda>d. snd d \<noteq> 0 \<and> d \<in> bvv_dots clocks) dots)"

lemma dots_known_add:
  assumes "bvv_wf clocks" "dots_known clocks c" "for_each_dot c = Some dots"
  shows "\<exists>clocks'. add_dots num key dots clocks b = (clocks', b, True) \<and> bvv_wf clocks' \<and>
    bvv_dots clocks' = bvv_dots clocks"
proof -
  have known: "\<forall>d\<in>set dots. snd d \<noteq> 0 \<and> d \<in> bvv_dots clocks"
    using assms(2,3) by (simp add: dots_known_def list_all_iff)
  then have "\<forall>d\<in>set dots. snd d \<noteq> - 1"
    using bvv_wf_max [OF assms(1)] by (metis prod.collapse)
  from add_dots_props [OF assms(1) this, of num key b] obtain new clocks' where
    a: "add_dots num key dots clocks b =
      (clocks', b @ log_puts num key new, \<forall>d\<in>set dots. snd d = 0 \<or> d \<in> bvv_dots clocks)"
      "set new = {d \<in> set dots. snd d \<noteq> 0 \<and> d \<notin> bvv_dots clocks}" "bvv_wf clocks'"
      "bvv_dots clocks' = bvv_dots clocks \<union> set dots \<union> (\<lambda>(i, v). (i, 0)) ` set dots"
    by blast
  have "set new = {}"
    unfolding a(2) using known by blast
  then have "new = []"
    by simp
  moreover have "(i, 0) \<in> bvv_dots clocks" if "(i, v) \<in> bvv_dots clocks" for i v
    using that by (auto simp: bvv_dots_iff bv_versions_def)
  then have "bvv_dots clocks' = bvv_dots clocks"
    unfolding a(4) using known by force
  ultimately show ?thesis
    using a(1,3) known by (auto simp: log_puts_def)
qed

lemma dots_known_cong: "bvv_dots a = bvv_dots b \<Longrightarrow> dots_known a c = dots_known b c"
  by (simp add: dots_known_def split: option.splits)

lemma storage_get_clocks:
  "(\<exists>c. storage_get sy (st\<lparr>vs_clocks := clocks\<rparr>) e key = Ok c) \<longleftrightarrow> (\<exists>c. storage_get sy st e key = Ok c)"
  by (auto simp: storage_get_def split: res.splits option.splits)

lemma remote_batch_known:
  assumes "bvv_wf (vs_clocks st)"
    and "\<forall>(key, c, r)\<in>set writes. \<not> r \<and> dots_known (vs_clocks st) c \<and> (\<exists>old. storage_get sy st e key = Ok old)"
  shows "\<exists>clocks. remote_batch sy e writes st b results =
      Some (st\<lparr>vs_clocks := clocks\<rparr>, Ok (b, results @ map (\<lambda>_. None) writes)) \<and>
    bvv_wf clocks \<and> bvv_dots clocks = bvv_dots (vs_clocks st)"
  using assms
proof (induction writes arbitrary: st results)
  case Nil
  then show ?case
    by (intro exI [of _ "vs_clocks st"]) simp
next
  case (Cons w writes)
  obtain key c r where w: "w = (key, c, r)"
    by (cases w)
  obtain old where old: "storage_get sy st e key = Ok old"
    using Cons.prems(2) w by auto
  have known: "dots_known (vs_clocks st) c" "\<not> r"
    using Cons.prems(2) w by auto
  then obtain dots where dots: "for_each_dot c = Some dots"
    by (auto simp: dots_known_def split: option.splits)
  from dots_known_add [OF Cons.prems(1) known(1) dots] obtain clocks where
    add: "add_dots (vs_num st) key dots (vs_clocks st) b = (clocks, b, True)" "bvv_wf clocks"
      "bvv_dots clocks = bvv_dots (vs_clocks st)"
    by blast
  let ?st = "st\<lparr>vs_clocks := clocks\<rparr>"
  have "\<forall>(key, c, r)\<in>set writes. \<not> r \<and> dots_known (vs_clocks ?st) c \<and>
      (\<exists>old. storage_get sy ?st e key = Ok old)"
    using Cons.prems(2) dots_known_cong [OF add(3)] by (simp add: storage_get_clocks)
  then obtain clocks' where "remote_batch sy e writes ?st b (results @ [None]) =
      Some (?st\<lparr>vs_clocks := clocks'\<rparr>, Ok (b, (results @ [None]) @ map (\<lambda>_. None) writes))"
    "bvv_wf clocks'" "bvv_dots clocks' = bvv_dots (vs_clocks ?st)"
    using Cons.IH [of ?st "results @ [None]"] add(2) by auto
  then show ?case
    using old dots add known(2) w by (intro exI [of _ clocks']) simp
qed

lemma set_remote_known:
  assumes ok: "rocks_ok (sy_rocks sy) view" and wf: "bvv_wf (vs_clocks st)"
    and w: "\<forall>(key, c, r)\<in>set writes. \<not> r \<and> dots_known (vs_clocks st) c \<and> (\<exists>old. storage_get sy st e key = Ok old)"
  shows "\<exists>res clocks db. storage_set_remote sy writes st e = Some (res, st\<lparr>vs_clocks := clocks\<rparr>, e\<lparr>ev_db := db\<rparr>) \<and>
    (res = Ok (map (\<lambda>_. None) writes) \<or> res = Err ()) \<and>
    bvv_wf clocks \<and> bvv_dots clocks = bvv_dots (vs_clocks st) \<and> view db = view (ev_db e)"
proof -
  from remote_batch_known [OF wf w, of batch_new "[]"] obtain clocks where
    r: "remote_batch sy e writes st batch_new [] = Some (st\<lparr>vs_clocks := clocks\<rparr>, Ok (batch_new, map (\<lambda>_. None) writes))"
      "bvv_wf clocks" "bvv_dots clocks = bvv_dots (vs_clocks st)"
    by auto
  obtain rw db where rw: "rk_write (sy_rocks sy) (ev_db e) batch_new = (rw, db)"
    by (cases "rk_write (sy_rocks sy) (ev_db e) batch_new")
  have "rw \<noteq> Panic" "view db = view (ev_db e)"
    using rocks_write_total [OF ok, of "ev_db e" batch_new] rocks_write [OF ok, of "ev_db e" batch_new]
      rocks_write_err [OF ok, of "ev_db e" batch_new] rw
    by (cases "rw = Ok ()"; simp add: batch_new_def apply_ops_Nil)+
  then show ?thesis
    using r rw by (cases rw) (auto simp: storage_set_remote_def batch_write_def)
qed

text \<open>
  A write with a new dot: the merge of the old value and the new one is stored under the key,
  or the key is deleted if the clocks subsume it, and the new dots are logged.
\<close>

lemma apply_put:
  "apply_ops (log_puts num key new @ [if sub then Delete Default_cf (be16 num @ key)
      else Put Default_cf (be16 num @ key) x]) m Default_cf (be16 n @ k) =
    (if n = num \<and> k = key then (if sub then None else Some x) else m Default_cf (be16 n @ k))"
  "apply_ops (log_puts num key new @ [if sub then Delete Default_cf (be16 num @ key)
      else Put Default_cf (be16 num @ key) x]) m Log_cf (build_log_key n d) =
    (if n = num \<and> d \<in> set new then Some key else m Log_cf (build_log_key n d))"
  by (auto simp: apply_ops_append apply_log_puts apply_ops_def [of "[_]"])

lemma is_subsumed_merge: "for_each_dot c \<noteq> None \<Longrightarrow> is_subsumed (cube_merge old c) b \<noteq> None"
  by (cases old; cases c) simp_all

lemma storage_get_key: "storage_get sy st e key = Ok c \<Longrightarrow> length key \<le> 510"
  by (auto simp: storage_get_def st_get_def build_key_def split: if_splits)

lemma set_remote_new:
  assumes ok: "rocks_ok (sy_rocks sy) view" and wf: "bvv_wf (vs_clocks st)"
    and old: "storage_get sy st e key = Ok old"
    and dots: "for_each_dot c = Some dots" "\<forall>d\<in>set dots. snd d \<noteq> - 1"
    and fresh: "d0 \<in> set dots" "snd d0 \<noteq> 0" "d0 \<notin> bvv_dots (vs_clocks st)"
  obtains res clocks sub db where
    "storage_set_remote sy [(key, c, r)] st e = Some (res, st\<lparr>vs_clocks := clocks\<rparr>, e\<lparr>ev_db := db\<rparr>)"
    "bvv_wf clocks" "bvv_dots clocks = bvv_dots (vs_clocks st) \<union> set dots \<union> (\<lambda>(i, v). (i, 0)) ` set dots"
    "is_subsumed (cube_merge old c) clocks = Some sub"
    "res = Ok [if r then Some (cube_merge old c) else None] \<or> res = Err () \<and> view db = view (ev_db e)"
    "\<And>n k. res \<noteq> Err () \<Longrightarrow> st_view view db n k =
       (if n = vs_num st \<and> k = key then (if sub then None else Some (sy_ser_cube sy (cube_merge old c)))
        else st_view view (ev_db e) n k)"
    "\<And>n d. res \<noteq> Err () \<Longrightarrow> log_view view db n d =
       (if n = vs_num st \<and> d \<in> set dots \<and> snd d \<noteq> 0 \<and> d \<notin> bvv_dots (vs_clocks st) then Some key
        else log_view view (ev_db e) n d)"
proof -
  have f: "(\<forall>d\<in>set dots. snd d = 0 \<or> d \<in> bvv_dots (vs_clocks st)) = False"
    using fresh by blast
  from add_dots_props [OF wf dots(2), of "vs_num st" key "[]"] obtain new clocks where
    a: "add_dots (vs_num st) key dots (vs_clocks st) batch_new = (clocks, log_puts (vs_num st) key new, False)"
      "set new = {d \<in> set dots. snd d \<noteq> 0 \<and> d \<notin> bvv_dots (vs_clocks st)}" "bvv_wf clocks"
      "bvv_dots clocks = bvv_dots (vs_clocks st) \<union> set dots \<union> (\<lambda>(i, v). (i, 0)) ` set dots"
    unfolding batch_new_def append_Nil f by blast
  let ?st = "st\<lparr>vs_clocks := clocks\<rparr>" and ?new = "cube_merge old c"
  obtain sub where sub: "is_subsumed ?new clocks = Some sub"
    using is_subsumed_merge [of c old clocks] dots(1) by auto
  define b where "b = log_puts (vs_num st) key new @ [if sub then Delete Default_cf (be16 (vs_num st) @ key)
    else Put Default_cf (be16 (vs_num st) @ key) (sy_ser_cube sy ?new)]"
  have b: "batch_put sy ?st (log_puts (vs_num st) key new) key ?new = Some b"
    using storage_get_key [OF old]
    by (simp add: batch_put_def sub batch_del_def batch_set_def build_key_def b_def split: bool.splits)
  obtain rw db where rw: "rk_write (sy_rocks sy) (ev_db e) b = (rw, db)"
    by (cases "rk_write (sy_rocks sy) (ev_db e) b")
  have total: "rw \<noteq> Panic" and view: "rw = Ok () \<Longrightarrow> view db = apply_ops b (view (ev_db e))"
    "rw \<noteq> Ok () \<Longrightarrow> view db = view (ev_db e)"
    using rocks_write_total [OF ok, of "ev_db e" b] rocks_write [OF ok, of "ev_db e" b]
      rocks_write_err [OF ok, of "ev_db e" b] rw by auto
  let ?res = "if rw = Ok () then Ok [if r then Some ?new else None] else Err ()"
  have run: "storage_set_remote sy [(key, c, r)] st e = Some (?res, ?st, e\<lparr>ev_db := db\<rparr>)"
    using old dots(1) a(1) b rw total
    by (cases rw) (simp_all add: storage_set_remote_def batch_write_def)
  show ?thesis
  proof (rule that [OF run a(3,4) sub])
    show "?res = Ok [if r then Some ?new else None] \<or> ?res = Err () \<and> view db = view (ev_db e)"
      using view(2) by simp
    fix n
    {
      assume "?res \<noteq> Err ()"
      then have "view db = apply_ops b (view (ev_db e))"
        using view(1) by (simp split: if_splits)
    } note v = this
    show "st_view view db n k = (if n = vs_num st \<and> k = key then (if sub then None else Some (sy_ser_cube sy ?new))
        else st_view view (ev_db e) n k)" if "?res \<noteq> Err ()" for k
      unfolding st_view_def v [OF that] b_def by (rule apply_put)
    show "log_view view db n d =
       (if n = vs_num st \<and> d \<in> set dots \<and> snd d \<noteq> 0 \<and> d \<notin> bvv_dots (vs_clocks st) then Some key
        else log_view view (ev_db e) n d)" if "?res \<noteq> Err ()" for d
      unfolding log_view_def v [OF that] b_def apply_put a(2) by simp
  qed
qed

section \<open>Recovery\<close>

text \<open>No entry of the log has the greatest version, after which a clock would wrap around.\<close>

definition log_ok :: "('db \<Rightarrow> kv) \<Rightarrow> u16 \<Rightarrow> 'db \<Rightarrow> bool" where
  "log_ok view num db \<longleftrightarrow> log_keys_ok view db \<and> (\<forall>d. log_view view db num d \<noteq> None \<longrightarrow> snd d \<noteq> - 1)"

lemma foldl_bv_add:
  assumes "bv_wf bv" "\<forall>((i, v), x)\<in>set es. v \<noteq> - 1"
  shows "bv_wf (foldl (\<lambda>bv ((_, dot), _). snd (bv_add bv dot)) bv es) \<and>
    bv_versions (foldl (\<lambda>bv ((_, dot), _). snd (bv_add bv dot)) bv es) =
      bv_versions bv \<union> (\<lambda>((i, v), x). v) ` set es"
  using assms
proof (induction es arbitrary: bv)
  case (Cons en es)
  obtain i v x where en: "en = ((i, v), x)"
    by (metis surj_pair)
  have v: "v \<noteq> - 1"
    using Cons.prems(2) en by simp
  then show ?case
    using Cons.IH [OF bv_add_props(2) [OF Cons.prems(1) v]] Cons.prems(2) bv_add_props(1) [OF Cons.prems(1) v]
    by (simp add: en)
qed simp

lemma recover_clock_props:
  assumes ok: "rocks_ok (sy_rocks sy) view" and l: "log_ok view num db" and i: "i + 1 \<noteq> 0" and wf: "bv_wf bv"
  shows "\<exists>bv'. recover_clock sy num db (i, bv) = Some (i, bv') \<and> bv_wf bv' \<and>
    bv_versions bv' = bv_versions bv \<union> {v. log_view view db num (i, v) \<noteq> None}"
proof -
  have "log_keys_ok view db"
    using l by (simp add: log_ok_def)
  from st_log_iterator_props [OF ok this i, of num "bv_base bv + 1"] obtain es where
    es: "st_log_iterator (sy_rocks sy) num db i (bv_base bv + 1) = Some (map (\<lambda>(v, x). ((i, v), x)) es)"
      "set es = {(v, x). bv_base bv + 1 \<le> v \<and> log_view view db num (i, v) = Some x}"
    by blast
  let ?es = "map (\<lambda>(v, x). ((i, v), x)) es"
  have "\<forall>((j, v), x)\<in>set ?es. v \<noteq> - 1"
    using l by (auto simp: es(2) log_ok_def)
  note f = foldl_bv_add [OF wf this]
  have "v \<in> bv_versions bv" if "\<not> bv_base bv + 1 \<le> v" for v
    using that wf word_le_succ_iff [of "bv_base bv" v]
    by (auto simp: bv_versions_def bv_wf_def not_le not_max_succ_nonzero intro: less_imp_le)
  then have "bv_versions bv \<union> (\<lambda>((j, v), x). v) ` set ?es =
      bv_versions bv \<union> {v. log_view view db num (i, v) \<noteq> None}"
    by (auto simp: es(2) image_iff)
  then show ?thesis
    using f by (simp add: recover_clock_def es(1))
qed

lemma recover_clocks_props:
  assumes ok: "rocks_ok (sy_rocks sy) view" and l: "log_ok view num db"
    and "\<forall>i\<in>fst ` set b. i + 1 \<noteq> 0" "list_all (\<lambda>(i, bv). bv_wf bv) b"
  shows "\<exists>b'. recover_clocks sy num db b = Some b' \<and> map fst b' = map fst b \<and> list_all (\<lambda>(i, bv). bv_wf bv) b' \<and>
    (\<forall>i. map_of b' i = None \<longleftrightarrow> map_of b i = None) \<and>
    (\<forall>i bv. map_of b i = Some bv \<longrightarrow> (\<exists>bv'. map_of b' i = Some bv' \<and>
       bv_versions bv' = bv_versions bv \<union> {v. log_view view db num (i, v) \<noteq> None}))"
  using assms(3,4)
proof (induction b)
  case (Cons p b)
  obtain i bv where p: "p = (i, bv)"
    by (cases p)
  from recover_clock_props [OF ok l, of i bv] obtain bv' where
    bv': "recover_clock sy num db (i, bv) = Some (i, bv')" "bv_wf bv'"
      "bv_versions bv' = bv_versions bv \<union> {v. log_view view db num (i, v) \<noteq> None}"
    using Cons.prems p by auto
  from Cons obtain b' where
    b': "recover_clocks sy num db b = Some b'" "map fst b' = map fst b" "list_all (\<lambda>(i, bv). bv_wf bv) b'"
      "\<forall>i. map_of b' i = None \<longleftrightarrow> map_of b i = None"
      "\<forall>i bv. map_of b i = Some bv \<longrightarrow> (\<exists>bv'. map_of b' i = Some bv' \<and>
         bv_versions bv' = bv_versions bv \<union> {v. log_view view db num (i, v) \<noteq> None})"
    by auto
  show ?case
    using bv' b' by (intro exI [of _ "(i, bv') # b'"]) (auto simp: p)
qed simp

lemma recover_dots_props:
  assumes ok: "rocks_ok (sy_rocks sy) view" and l: "log_ok view (vs_num st) (ev_db e)"
    and i: "\<forall>i\<in>fst ` set (vs_clocks st). i + 1 \<noteq> 0" and wf: "bvv_wf (vs_clocks st)"
  shows "\<exists>clocks. recover_dots sy st e = Some (st\<lparr>vs_clocks := clocks\<rparr>) \<and> bvv_wf clocks \<and>
    bvv_dots clocks = bvv_dots (vs_clocks st) \<union>
      {(i, v). i \<in> fst ` set (vs_clocks st) \<and> log_view view (ev_db e) (vs_num st) (i, v) \<noteq> None}"
proof -
  from recover_clocks_props [OF ok l i] wf obtain b where
    b: "recover_clocks sy (vs_num st) (ev_db e) (vs_clocks st) = Some b" "map fst b = map fst (vs_clocks st)"
      "list_all (\<lambda>(i, bv). bv_wf bv) b" "\<forall>i. map_of b i = None \<longleftrightarrow> map_of (vs_clocks st) i = None"
      "\<forall>i bv. map_of (vs_clocks st) i = Some bv \<longrightarrow> (\<exists>bv'. map_of b i = Some bv' \<and>
         bv_versions bv' = bv_versions bv \<union> {v. log_view view (ev_db e) (vs_num st) (i, v) \<noteq> None})"
    unfolding bvv_wf_def by blast
  have "(i, v) \<in> bvv_dots b \<longleftrightarrow> (i, v) \<in> bvv_dots (vs_clocks st) \<or>
      i \<in> fst ` set (vs_clocks st) \<and> log_view view (ev_db e) (vs_num st) (i, v) \<noteq> None" for i v
  proof (cases "map_of (vs_clocks st) i")
    case None
    moreover from this have "map_of b i = None"
      using b(4) by blast
    ultimately show ?thesis
      using domIff [of i "map_of (vs_clocks st)"] by (auto simp: bvv_dots_iff dom_map_of_conv_image_fst)
  next
    case (Some bv)
    then have "i \<in> fst ` set (vs_clocks st)"
      by (metis map_of_eq_None_iff option.distinct(1))
    moreover from b(5) Some obtain bv' where "map_of b i = Some bv'"
      "bv_versions bv' = bv_versions bv \<union> {v. log_view view (ev_db e) (vs_num st) (i, v) \<noteq> None}"
      by blast
    ultimately show ?thesis
      using Some by (simp add: bvv_dots_iff)
  qed
  moreover have "bvv_wf b"
    using wf b(2,3) by (simp add: bvv_wf_def)
  ultimately show ?thesis
    using b(1) by (intro exI [of _ b]) (auto simp: recover_dots_def)
qed

text \<open>What a vnode saved is what it loads, with the dots of an unclean shutdown recovered.\<close>

lemma load_saved:
  assumes ok: "sys_ok sy view" and l: "log_ok view (vs_num st) (ev_db e')"
    and i: "\<forall>i\<in>fst ` set (vs_clocks st). i + 1 \<noteq> 0" and wf: "bvv_wf (vs_clocks st)"
    and save: "vs_save sy st shutdown e = Some e1"
    and same: "st_view view (ev_db e') meta_num (meta_key st) = st_view view (ev_db e1) meta_num (meta_key st)"
    and get: "st_get (sy_rocks sy) meta_num (ev_db e') (meta_key st) = Ok saved"
  shows "\<exists>clocks. vs_load sy (vs_num st) Ready e' =
      Some (\<lparr>vs_num = vs_num st, vs_status = Ready, vs_last_status_change = sy_now sy, vs_clocks = clocks,
             vs_pending_bootstrap = False, vs_sync_nodes = []\<rparr>, e') \<and>
    (if shutdown then clocks = vs_clocks st
     else bvv_wf clocks \<and> bvv_dots clocks = bvv_dots (vs_clocks st) \<union>
       {(i, v). i \<in> fst ` set (vs_clocks st) \<and> log_view view (ev_db e') (vs_num st) (i, v) \<noteq> None})"
proof -
  have rk: "rocks_ok (sy_rocks sy) view" and de: "sy_de_saved sy (sy_ser_saved sy x) = Some x" for x
    using ok codec.de_ser by (auto simp: sys_ok_def)
  have "st_view view (ev_db e1) meta_num (meta_key st) = Some (sy_ser_saved sy (vs_clocks st, shutdown))"
    using save
      st_set_view(1) [OF rk, of meta_num "ev_db e" "meta_key st" "sy_ser_saved sy (vs_clocks st, shutdown)"]
    by (auto simp: vs_save_def split: prod.splits res.splits)
  then have saved: "saved = Some (sy_ser_saved sy (vs_clocks st, shutdown))"
    using st_get_view [OF rk get] same by simp
  let ?st = "\<lparr>vs_num = vs_num st, vs_status = Ready, vs_last_status_change = sy_now sy,
    vs_clocks = vs_clocks st, vs_pending_bootstrap = False, vs_sync_nodes = []\<rparr>"
  have "vs_load sy (vs_num st) Ready e' =
      (if shutdown then Some (?st, e') else map_option (\<lambda>st. (st, e')) (recover_dots sy ?st e'))"
    using get by (simp add: vs_load_def saved de meta_key_def)
  then show ?thesis
    using recover_dots_props [OF rk, of ?st e'] l i wf by auto
qed

section \<open>Properties\<close>

text \<open>
  C14: A replicated write with a dot the vnode has not seen never panics. The clocks take all its
  dots. If the store accepts it, the merge of the stored value and the new one is stored under the
  key (or the key is deleted, if the clocks subsume the merge), the log maps exactly the new dots to the
  key, and nothing else changes; if not, the store is unchanged and the result is an error.
\<close>

theorem replicated_write:
  assumes "rocks_ok (sy_rocks sy) view" "bvv_wf (vs_clocks st)" "storage_get sy st e key = Ok old"
    and "for_each_dot c = Some dots" "\<forall>d\<in>set dots. snd d \<noteq> - 1"
    and "d0 \<in> set dots" "snd d0 \<noteq> 0" "d0 \<notin> bvv_dots (vs_clocks st)"
  shows "\<exists>res clocks sub db.
    storage_set_remote sy [(key, c, r)] st e = Some (res, st\<lparr>vs_clocks := clocks\<rparr>, e\<lparr>ev_db := db\<rparr>) \<and>
    bvv_dots clocks = bvv_dots (vs_clocks st) \<union> set dots \<union> (\<lambda>(i, v). (i, 0)) ` set dots \<and>
    is_subsumed (cube_merge old c) clocks = Some sub \<and>
    (if res = Err () then view db = view (ev_db e)
     else res = Ok [if r then Some (cube_merge old c) else None] \<and>
       (\<forall>n k. st_view view db n k =
          (if n = vs_num st \<and> k = key then (if sub then None else Some (sy_ser_cube sy (cube_merge old c)))
           else st_view view (ev_db e) n k)) \<and>
       (\<forall>n d. log_view view db n d =
          (if n = vs_num st \<and> d \<in> set dots \<and> snd d \<noteq> 0 \<and> d \<notin> bvv_dots (vs_clocks st) then Some key
           else log_view view (ev_db e) n d)))"
proof (rule set_remote_new [OF assms, where r = r], goal_cases)
  case (1 res clocks sub db)
  show ?case
    using 1(5-7) by (intro exI [of _ res] exI [of _ clocks] exI [of _ sub] exI [of _ db] conjI 1(1,3,4)) auto
qed

definition ref_state :: vnode_state where
  "ref_state =
     \<lparr>vs_num = 0, vs_status = Ready, vs_last_status_change = 0, vs_clocks = bvv_new,
      vs_pending_bootstrap = False, vs_sync_nodes = []\<rparr>"

lemma ref_state_sel [simp]:
  "vs_num ref_state = 0" "vs_status ref_state = Ready" "vs_clocks ref_state = bvv_new"
  "vs_sync_nodes ref_state = []" "\<not> vs_pending_bootstrap ref_state"
  by (simp_all add: ref_state_def)

lemma ref_storage_get: "length key \<le> 510 \<Longrightarrow> storage_get ref_sys ref_state ref_env key = Ok (cube_new bvv_new)"
  by (simp add: storage_get_def ref_env_def st_get_def build_key_def mem_rocks_def)

lemma ref_storage_get_stored:
  "length key \<le> 510 \<Longrightarrow>
   storage_get ref_sys ref_state (ref_env\<lparr>ev_db := ([(be16 0 @ key, to_bytes enc_cube c)], [])\<rparr>) key = Ok c"
  by (simp add: storage_get_def st_get_def build_key_def mem_rocks_def cube.bytes.de_ser)

theorem replicated_write_witness:
  "let c = Value (value_set (value_with vv_new) 2 1 (Some ''v'') vv_new); dots = [(2, 1)] in \<exists>res clocks sub db.
   storage_set_remote ref_sys [(''k'', c, False)] ref_state ref_env =
     Some (res, ref_state\<lparr>vs_clocks := clocks\<rparr>, ref_env\<lparr>ev_db := db\<rparr>) \<and>
   bvv_dots clocks = bvv_dots (vs_clocks ref_state) \<union> set dots \<union> (\<lambda>(i, v). (i, 0)) ` set dots \<and>
   is_subsumed (cube_merge (cube_new bvv_new) c) clocks = Some sub \<and>
   (if res = Err () then mem_view db = mem_view (ev_db ref_env)
    else res = Ok [if False then Some (cube_merge (cube_new bvv_new) c) else None] \<and>
      (\<forall>n k. st_view mem_view db n k =
         (if n = vs_num ref_state \<and> k = ''k'' then
            (if sub then None else Some (sy_ser_cube ref_sys (cube_merge (cube_new bvv_new) c)))
          else st_view mem_view (ev_db ref_env) n k)) \<and>
      (\<forall>n d. log_view mem_view db n d =
         (if n = vs_num ref_state \<and> d \<in> set dots \<and> snd d \<noteq> 0 \<and> d \<notin> bvv_dots (vs_clocks ref_state)
          then Some ''k'' else log_view mem_view (ev_db ref_env) n d)))"
  unfolding Let_def
  by (rule replicated_write [where ?d0.0 = "(2, 1)"])
     (simp_all add: ref_storage_get mem_rocks_ok value_set_def value_with_def
       dotmap_new_def dotmap_discard_def dotmap_insert_def)



text \<open>
  C33: A replicated write the store rejects is lost: the clocks keep its dots, so when the coordinator
  sends it again and the store works, it is acknowledged as done although nothing was stored.
\<close>

theorem failed_write_acknowledged:
  assumes ok: "rocks_ok (sy_rocks sy) view" "rocks_ok (sy_rocks sy') view" and wf: "bvv_wf (vs_clocks st)"
    and old: "storage_get sy st e key = Ok old" and dots: "for_each_dot c = Some dots"
    "\<forall>d\<in>set dots. snd d \<noteq> 0 \<and> snd d \<noteq> - 1"
    and fresh: "d0 \<in> set dots" "d0 \<notin> bvv_dots (vs_clocks st)"
    and failed: "storage_set_remote sy [(key, c, False)] st e = Some (Err (), st', e')"
    and works: "\<And>db. fst (rk_write (sy_rocks sy') db []) = Ok ()" "storage_get sy' st' e' key = Ok old'"
  shows "\<exists>clocks db. storage_set_remote sy' [(key, c, False)] st' e' =
      Some (Ok [None], st'\<lparr>vs_clocks := clocks\<rparr>, e'\<lparr>ev_db := db\<rparr>) \<and> view db = view (ev_db e)"
proof -
  have dots': "\<forall>d\<in>set dots. snd d \<noteq> - 1" "snd d0 \<noteq> 0"
    using dots(2) fresh(1) by auto
  obtain clocks db where
    first: "st' = st\<lparr>vs_clocks := clocks\<rparr>" "e' = e\<lparr>ev_db := db\<rparr>" "bvv_wf clocks" "view db = view (ev_db e)"
      "bvv_dots clocks = bvv_dots (vs_clocks st) \<union> set dots \<union> (\<lambda>(i, v). (i, 0)) ` set dots"
    by (rule set_remote_new [OF ok(1) wf old dots(1) dots'(1) fresh(1) dots'(2) fresh(2), where r = False])
       (use failed in auto)
  have "dots_known (vs_clocks st') c"
    using dots by (auto simp: dots_known_def list_all_iff first)
  moreover have "bvv_wf (vs_clocks st')"
    by (simp add: first)
  ultimately obtain clocks' where
    r: "remote_batch sy' e' [(key, c, False)] st' batch_new [] = Some (st'\<lparr>vs_clocks := clocks'\<rparr>, Ok (batch_new, [None]))"
    using remote_batch_known [of st' "[(key, c, False)]" sy' e' batch_new "[]"] works(2) by auto
  obtain rw db' where rw: "rk_write (sy_rocks sy') (ev_db e') batch_new = (rw, db')"
    by (cases "rk_write (sy_rocks sy') (ev_db e') batch_new")
  moreover from this have "rw = Ok ()" "view db' = view (ev_db e')"
    using works(1) [of "ev_db e'"] rocks_write [OF ok(2), of "ev_db e'" batch_new]
    by (auto simp: batch_new_def apply_ops_Nil)
  ultimately show ?thesis
    using r first(2,4) by (auto simp: storage_set_remote_def batch_write_def)
qed

definition failing_rocks :: "mem_db rocks" where
  "failing_rocks = mem_rocks\<lparr>rk_write := (\<lambda>db ops. (Err (), db))\<rparr>"

lemma failing_rocks_ok: "rocks_ok failing_rocks mem_view"
  using mem_rocks_ok by (simp add: rocks_ok_def failing_rocks_def)

theorem failed_write_acknowledged_witness:
  "let c = Value (value_set (value_with vv_new) 2 1 (Some ''v'') vv_new);
       st' = ref_state\<lparr>vs_clocks := [(2, \<lparr>bv_base = 1, bv_bitmap = {}\<rparr>)]\<rparr> in
   storage_set_remote (ref_sys\<lparr>sy_rocks := failing_rocks\<rparr>) [(''k'', c, False)] ref_state ref_env =
     Some (Err (), st', ref_env) \<and>
   (\<exists>clocks db. storage_set_remote ref_sys [(''k'', c, False)] st' ref_env =
      Some (Ok [None], st'\<lparr>vs_clocks := clocks\<rparr>, ref_env\<lparr>ev_db := db\<rparr>) \<and> mem_view db = mem_view (ev_db ref_env))"
proof -
  let ?sy = "ref_sys\<lparr>sy_rocks := failing_rocks\<rparr>"
  let ?c = "Value (value_set (value_with vv_new) 2 1 (Some ''v'') vv_new)"
  let ?st' = "ref_state\<lparr>vs_clocks := [(2, \<lparr>bv_base = 1, bv_bitmap = {}\<rparr>)]\<rparr>"
  have v: "map fst (val_values (value_set (value_with vv_new) 2 1 (Some ''v'') vv_new)) = [(2, 1)]"
    by (simp add: value_set_def value_with_def dotmap_new_def dotmap_discard_def dotmap_insert_def)
  then have dots: "for_each_dot ?c = Some [(2, 1)]"
    by simp
  have add: "add_dots 0 ''k'' [(2, 1)] bvv_new batch_new =
      (vs_clocks ?st', batch_log_set 0 batch_new (2, 1) ''k'', False)"
    by (simp add: bvv_add_def bvv_entry_or_default_def bv_add_def bvv_new_def bv_norm_def norm_loop.simps bv_default_def)
  obtain sub where sub: "is_subsumed (cube_merge (cube_new bvv_new) ?c) (vs_clocks ?st') = Some sub"
    using is_subsumed_merge [of ?c "cube_new bvv_new"] dots by auto
  have get: "storage_get ?sy ref_state ref_env ''k'' = Ok (cube_new bvv_new)"
    by (simp add: storage_get_def failing_rocks_def st_get_def build_key_def mem_rocks_def ref_env_def)
  have failed: "storage_set_remote ?sy [(''k'', ?c, False)] ref_state ref_env = Some (Err (), ?st', ref_env)"
    using sub get add v
    by (cases sub) (simp_all add: storage_set_remote_def batch_put_def batch_del_def batch_set_def build_key_def
        batch_write_def failing_rocks_def)
  from ref_storage_get [of "''k''"] obtain old' where retry: "storage_get ref_sys ?st' ref_env ''k'' = Ok old'"
    using storage_get_clocks by fastforce
  show ?thesis
    unfolding Let_def
    by (intro conjI failed failed_write_acknowledged [OF _ _ _ get dots _ _ _ failed _ retry, where ?d0.0 = "(2, 1)"])
       (simp_all add: failing_rocks_ok mem_rocks_ok, simp_all add: mem_rocks_def)
qed

text \<open>
  C34: Deleting a counter is not replicated. The cube a deletion leaves has no dots, so a replica that
  receives it takes it for known: it keeps its counter, and reports the write as done unless the
  store fails.
\<close>

theorem counter_delete_not_replicated:
  assumes "rocks_ok (sy_rocks sy) view" "bvv_wf (vs_clocks st)" "storage_get sy st e key = Ok (Counter b)"
  shows "\<exists>res clocks db. storage_set_remote sy [(key, snd (cube_del (Counter a) i v vv), False)] st e =
      Some (res, st\<lparr>vs_clocks := clocks\<rparr>, e\<lparr>ev_db := db\<rparr>) \<and> (res = Ok [None] \<or> res = Err ()) \<and>
    bvv_dots clocks = bvv_dots (vs_clocks st) \<and> view db = view (ev_db e)"
proof -
  have "\<forall>(key', c, r)\<in>set [(key, snd (cube_del (Counter a) i v vv), False)].
      \<not> r \<and> dots_known (vs_clocks st) c \<and> (\<exists>old. storage_get sy st e key' = Ok old)"
    using assms(3) by (simp add: dots_known_def counter_clear_def)
  then show ?thesis
    using set_remote_known [OF assms(1,2), of "[(key, snd (cube_del (Counter a) i v vv), False)]" e] by fastforce
qed

theorem counter_delete_not_replicated_witness:
  "let a = snd (counter_inc (counter_with vv_new) 2 1 5);
       e = ref_env\<lparr>ev_db := ([(be16 0 @ ''k'', to_bytes enc_cube (Counter a))], [])\<rparr> in
   \<exists>res clocks db. storage_set_remote ref_sys [(''k'', snd (cube_del (Counter a) 1 1 vv_new), False)] ref_state e =
       Some (res, ref_state\<lparr>vs_clocks := clocks\<rparr>, e\<lparr>ev_db := db\<rparr>) \<and> (res = Ok [None] \<or> res = Err ()) \<and>
     bvv_dots clocks = bvv_dots (vs_clocks ref_state) \<and> mem_view db = mem_view (ev_db e)"
proof -
  let ?a = "snd (counter_inc (counter_with vv_new) 2 1 5)"
  have "rocks_ok (sy_rocks ref_sys) mem_view" "bvv_wf (vs_clocks ref_state)"
    by (simp_all add: mem_rocks_ok)
  moreover have "storage_get ref_sys ref_state
      (ref_env\<lparr>ev_db := ([(be16 0 @ ''k'', to_bytes enc_cube (Counter ?a))], [])\<rparr>) ''k'' = Ok (Counter ?a)"
    by (rule ref_storage_get_stored) simp
  ultimately show ?thesis
    unfolding Let_def by (rule counter_delete_not_replicated)
qed

text \<open>
  C22: A vnode loads the clocks it saved. After an unclean shutdown the clocks also have every dot the
  log holds for the nodes that were in the saved clocks; dots of a node first seen after the save
  are not recovered.
\<close>

theorem load_recovers:
  assumes "sys_ok sy view" "log_ok view (vs_num st) (ev_db e')"
    and "\<forall>i\<in>fst ` set (vs_clocks st). i + 1 \<noteq> 0" "bvv_wf (vs_clocks st)"
    and "vs_save sy st shutdown e = Some e1"
    and "st_view view (ev_db e') meta_num (meta_key st) = st_view view (ev_db e1) meta_num (meta_key st)"
    and "st_get (sy_rocks sy) meta_num (ev_db e') (meta_key st) = Ok saved"
  shows "\<exists>st'. vs_load sy (vs_num st) Ready e' = Some (st', e') \<and> vs_num st' = vs_num st \<and> vs_status st' = Ready \<and>
    (if shutdown then vs_clocks st' = vs_clocks st
     else bvv_dots (vs_clocks st') = bvv_dots (vs_clocks st) \<union>
       {(i, v). i \<in> fst ` set (vs_clocks st) \<and> log_view view (ev_db e') (vs_num st) (i, v) \<noteq> None})"
proof -
  from load_saved [OF assms] obtain clocks where
    c: "vs_load sy (vs_num st) Ready e' =
      Some (\<lparr>vs_num = vs_num st, vs_status = Ready, vs_last_status_change = sy_now sy, vs_clocks = clocks,
             vs_pending_bootstrap = False, vs_sync_nodes = []\<rparr>, e')"
    "if shutdown then clocks = vs_clocks st
     else bvv_wf clocks \<and> bvv_dots clocks = bvv_dots (vs_clocks st) \<union>
       {(i, v). i \<in> fst ` set (vs_clocks st) \<and> log_view view (ev_db e') (vs_num st) (i, v) \<noteq> None}"
    by blast
  show ?thesis
    by (rule exI, intro conjI, rule c(1)) (use c(2) in \<open>simp_all split: if_splits\<close>)
qed

theorem load_recovers_witness:
  "let st = ref_state\<lparr>vs_clocks := [(2, \<lparr>bv_base = 1, bv_bitmap = {}\<rparr>)]\<rparr>;
       saved = to_bytes enc_saved (vs_clocks st, False);
       e' = ref_env\<lparr>ev_db := ([(be16 meta_num @ meta_key st, saved)], [])\<rparr> in
   vs_save ref_sys st False ref_env = Some e' \<and>
   (\<exists>st'. vs_load ref_sys (vs_num st) Ready e' = Some (st', e') \<and> vs_num st' = vs_num st \<and> vs_status st' = Ready \<and>
    (if False then vs_clocks st' = vs_clocks st
     else bvv_dots (vs_clocks st') = bvv_dots (vs_clocks st) \<union>
       {(i, v). i \<in> fst ` set (vs_clocks st) \<and> log_view mem_view (ev_db e') (vs_num st) (i, v) \<noteq> None}))"
proof -
  let ?st = "ref_state\<lparr>vs_clocks := [(2, \<lparr>bv_base = 1, bv_bitmap = {}\<rparr>)]\<rparr>"
  let ?saved = "to_bytes enc_saved (vs_clocks ?st, False)"
  let ?e = "ref_env\<lparr>ev_db := ([(be16 meta_num @ meta_key ?st, ?saved)], [])\<rparr>"
  have key: "meta_key ?st = ''0''"
    by (simp add: meta_key_def show_nat.simps digit_char_def) (simp add: char_of_def bit_iff_odd)
  have save: "vs_save ref_sys ?st False ref_env = Some ?e"
    by (simp add: vs_save_def key st_set_def batch_set_def build_key_def batch_write_def batch_new_def
        mem_rocks_def ref_env_def)
  show ?thesis
    unfolding Let_def
    by (intro conjI save load_recovers [OF ref_sys_ok _ _ _ save, where saved = "Some ?saved"])
       (auto simp: log_ok_def log_keys_ok_def log_view_def mem_view_def bvv_wf_def bv_wf_def key st_get_def
         build_key_def mem_rocks_def)
qed

end
