(* ===== verification/VNode_Sync.thy ===== *)
theory VNode_Sync
  imports VNode_State
begin

text \<open>
  \<^verbatim>\<open>vnode_sync.rs\<close>: one synchronisation of a vnode with a peer, as the sender or the receiver of an
  anti-entropy exchange or of a bootstrap. The fields the two senders and the two receivers share
  are the records \<open>sync_sender\<close> and \<open>sync_receiver\<close>; the iterator closure of a sender is the state it
  captures. Operations on the shared fields come first, \<open>synchronization\<close> dispatches on the variant.
  \<open>None\<close> is a panic, or a loop that does not end.
\<close>

datatype sync_result = Continue | Done | Error

definition from_result :: "('a, 'e) res \<Rightarrow> sync_result" where
  "from_result r = (case r of Ok _ \<Rightarrow> Continue | _ \<Rightarrow> Error)"

section \<open>Iterators\<close>

record sync_keys_iterator =
  ski_dots_delta :: "dot list"
  ski_keys :: "bytes list"

datatype sync_iterator =
    Storage_Iter "(bytes \<times> bytes) list"
  | Keys_Iter sync_keys_iterator

definition sync_keys_new :: "dot list \<Rightarrow> sync_keys_iterator" where
  "sync_keys_new dots = \<lparr>ski_dots_delta = dots, ski_keys = []\<rparr>"

text \<open>One batch of keys from the log: the keys read, a set, and the rest of the delta.\<close>

fun fetch_keys :: "'db sys \<Rightarrow> u16 \<Rightarrow> 'db \<Rightarrow> nat \<Rightarrow> dot list \<Rightarrow> bytes list \<Rightarrow> (bytes list, unit) res \<times> dot list" where
  "fetch_keys sy num db limit [] keys = (Ok keys, [])"
| "fetch_keys sy num db limit (dot # dots) keys =
     (case st_log_get (sy_rocks sy) num db dot of
        Ok (Some key) \<Rightarrow>
          (let keys = (if key \<in> set keys then keys else keys @ [key])
           in if limit \<le> length keys then (Ok keys, dots) else fetch_keys sy num db limit dots keys)
      | Ok None \<Rightarrow> fetch_keys sy num db limit dots keys
      | Err _ \<Rightarrow> (Err (), dots)
      | Panic \<Rightarrow> (Panic, dots))"

text \<open>The loop of \<^verbatim>\<open>SyncKeysIterator::next\<close> runs at most twice: a batch is empty or yields its first key.\<close>

definition sync_keys_next :: "'db sys \<Rightarrow> vnode_state \<Rightarrow> 'db env \<Rightarrow> sync_keys_iterator \<Rightarrow>
    (bytes option, unit) res \<times> sync_keys_iterator" where
  "sync_keys_next sy st e it =
     (case ski_keys it of
        key # keys \<Rightarrow> (Ok (Some key), it\<lparr>ski_keys := keys\<rparr>)
      | [] \<Rightarrow>
          (let limit = max (sy_capacity sy (ski_dots_delta it) * 9 div 10) 1000
           in case fetch_keys sy (vs_num st) (ev_db e) limit (ski_dots_delta it) [] of
                (Ok [], dots) \<Rightarrow> (Ok None, it\<lparr>ski_dots_delta := dots\<rparr>)
              | (Ok (key # keys), dots) \<Rightarrow> (Ok (Some key), it\<lparr>ski_dots_delta := dots, ski_keys := keys\<rparr>)
              | (Err _, dots) \<Rightarrow> (Err (), it\<lparr>ski_dots_delta := dots\<rparr>)
              | (Panic, dots) \<Rightarrow> (Panic, it\<lparr>ski_dots_delta := dots\<rparr>)))"

definition iterator_next :: "'db sys \<Rightarrow> vnode_state \<Rightarrow> 'db env \<Rightarrow> sync_iterator \<Rightarrow>
    ((bytes \<times> cube) option, unit) res \<times> sync_iterator" where
  "iterator_next sy st e it =
     (case it of
        Storage_Iter [] \<Rightarrow> (Ok None, it)
      | Storage_Iter ((k, v) # es) \<Rightarrow>
          (case sy_de_cube sy v of
             Some cube \<Rightarrow> (Ok (Some (k, cube)), Storage_Iter es)
           | None \<Rightarrow> (Err (), Storage_Iter es))
      | Keys_Iter keys \<Rightarrow>
          (case sync_keys_next sy st e keys of
             (Ok (Some key), keys) \<Rightarrow>
               (case storage_get sy st e key of
                  Ok cube \<Rightarrow> (Ok (Some (key, cube)), Keys_Iter keys)
                | Err _ \<Rightarrow> (Err (), Keys_Iter keys)
                | Panic \<Rightarrow> (Panic, Keys_Iter keys))
           | (Ok None, keys) \<Rightarrow> (Ok None, Keys_Iter keys)
           | (Err _, keys) \<Rightarrow> (Err (), Keys_Iter keys)
           | (Panic, keys) \<Rightarrow> (Panic, Keys_Iter keys)))"

section \<open>Senders and receivers\<close>

record sync_sender =
  ss_clocks_snapshot :: bvv
  ss_iterator :: sync_iterator
  ss_inflight :: "(u64, msg_sync_send, instant) in_flight_map"
  ss_cookie :: cookie
  ss_peer :: node_id
  ss_count :: u64
  ss_last_recv :: instant
  ss_last_send :: instant

record sync_receiver =
  sr_cookie :: cookie
  sr_peer :: node_id
  sr_recv_count :: u64
  sr_last_recv :: instant
  sr_last_send :: instant

text \<open>The clocks of the peer at the start come with the two variants that have them.\<close>

datatype synchronization =
    SyncSender bvv sync_sender
  | SyncReceiver bvv sync_receiver
  | BootstrapSender sync_sender
  | BootstrapReceiver sync_receiver

definition receiver_new :: "'db sys \<Rightarrow> node_id \<Rightarrow> cookie \<Rightarrow> sync_receiver" where
  "receiver_new sy peer cookie =
     \<lparr>sr_cookie = cookie, sr_peer = peer, sr_recv_count = 0, sr_last_recv = sy_now sy, sr_last_send = sy_now sy\<rparr>"

definition sender_new :: "'db sys \<Rightarrow> bvv \<Rightarrow> sync_iterator \<Rightarrow> node_id \<Rightarrow> cookie \<Rightarrow> sync_sender" where
  "sender_new sy clocks_snapshot iterator peer cookie =
     \<lparr>ss_clocks_snapshot = clocks_snapshot, ss_iterator = iterator, ss_inflight = ifm_new, ss_cookie = cookie,
      ss_peer = peer, ss_count = 0, ss_last_recv = sy_now sy, ss_last_send = sy_now sy\<rparr>"

definition new_bootstrap_receiver :: "'db sys \<Rightarrow> node_id \<Rightarrow> cookie \<Rightarrow> synchronization" where
  "new_bootstrap_receiver sy peer cookie = BootstrapReceiver (receiver_new sy peer cookie)"

definition new_bootstrap_sender :: "'db sys \<Rightarrow> vnode_state \<Rightarrow> 'db env \<Rightarrow> node_id \<Rightarrow> msg_sync_start \<Rightarrow> synchronization" where
  "new_bootstrap_sender sy st e peer msg =
     BootstrapSender
       (sender_new sy (vs_clocks st) (Storage_Iter (st_iterator (sy_rocks sy) (vs_num st) (ev_db e))) peer
         (mss_cookie msg))"

definition new_sync_receiver :: "'db sys \<Rightarrow> vnode_state \<Rightarrow> node_id \<Rightarrow> cookie \<Rightarrow> synchronization" where
  "new_sync_receiver sy st peer cookie = SyncReceiver (vs_clocks st) (receiver_new sy peer cookie)"

definition new_sync_sender :: "'db sys \<Rightarrow> vnode_state \<Rightarrow> 'db env \<Rightarrow> node_id \<Rightarrow> msg_sync_start \<Rightarrow> synchronization option" where
  "new_sync_sender sy st e peer msg =
     (if mss_target msg = Some (this_node e) then
        (let dots_delta = bvv_delta (vs_clocks st) (mss_clocks_in_peer msg);
             physical_id = fst (split_u64 (this_node e));
             clocks_snapshot = bvv_clone_if (\<lambda>i. fst (split_u64 i) = physical_id) (vs_clocks st)
         in Some (SyncSender (mss_clocks_in_peer msg)
              (sender_new sy clocks_snapshot (Keys_Iter (sync_keys_new dots_delta)) peer (mss_cookie msg))))
      else None)"

fun direction :: "synchronization \<Rightarrow> sync_direction" where
  "direction (BootstrapReceiver _) = Incomming"
| "direction (SyncReceiver _ _) = Incomming"
| "direction (BootstrapSender _) = Outgoing"
| "direction (SyncSender _ _) = Outgoing"

section \<open>Sending\<close>

definition receiver_send_start :: "'db sys \<Rightarrow> vnode_state \<Rightarrow> node_id option \<Rightarrow> bvv \<Rightarrow> sync_receiver \<Rightarrow> 'db env \<Rightarrow>
    (sync_result \<times> sync_receiver \<times> 'db env) option" where
  "receiver_send_start sy st target clocks_in_peer r e = do {
     let r = r\<lparr>sr_last_send := sy_now sy\<rparr>;
     (res, e) \<leftarrow> send_msg sy (sr_peer r)
       (SyncStart \<lparr>mss_vnode = vs_num st, mss_cookie = sr_cookie r, mss_clocks_in_peer = clocks_in_peer, mss_target = target\<rparr>) e;
     Some (from_result res, r, e)
   }"

definition send_start :: "'db sys \<Rightarrow> vnode_state \<Rightarrow> synchronization \<Rightarrow> 'db env \<Rightarrow>
    (sync_result \<times> synchronization \<times> 'db env) option" where
  "send_start sy st sync e =
     (case sync of
        SyncReceiver clocks_in_peer r \<Rightarrow>
          map_option (\<lambda>(res, r, e). (res, SyncReceiver clocks_in_peer r, e))
            (receiver_send_start sy st (Some (sr_peer r)) clocks_in_peer r e)
      | BootstrapReceiver r \<Rightarrow>
          map_option (\<lambda>(res, r, e). (res, BootstrapReceiver r, e)) (receiver_send_start sy st None bvv_new r e)
      | _ \<Rightarrow> None)"

text \<open>The fields common to all variants.\<close>

fun sync_peer :: "synchronization \<Rightarrow> node_id" where
  "sync_peer (SyncSender _ s) = ss_peer s"
| "sync_peer (SyncReceiver _ r) = sr_peer r"
| "sync_peer (BootstrapSender s) = ss_peer s"
| "sync_peer (BootstrapReceiver r) = sr_peer r"

fun sync_cookie :: "synchronization \<Rightarrow> cookie" where
  "sync_cookie (SyncSender _ s) = ss_cookie s"
| "sync_cookie (SyncReceiver _ r) = sr_cookie r"
| "sync_cookie (BootstrapSender s) = ss_cookie s"
| "sync_cookie (BootstrapReceiver r) = sr_cookie r"

fun sync_touch :: "instant \<Rightarrow> synchronization \<Rightarrow> synchronization" where
  "sync_touch now (SyncSender c s) = SyncSender c (s\<lparr>ss_last_send := now\<rparr>)"
| "sync_touch now (SyncReceiver c r) = SyncReceiver c (r\<lparr>sr_last_send := now\<rparr>)"
| "sync_touch now (BootstrapSender s) = BootstrapSender (s\<lparr>ss_last_send := now\<rparr>)"
| "sync_touch now (BootstrapReceiver r) = BootstrapReceiver (r\<lparr>sr_last_send := now\<rparr>)"

definition send_fin :: "'db sys \<Rightarrow> vnode_state \<Rightarrow> node_id \<Rightarrow> cookie \<Rightarrow> (bvv, fabric_error) res \<Rightarrow> 'db env \<Rightarrow>
    ((unit, fabric_error) res \<times> 'db env) option" where
  "send_fin sy st peer cookie result e =
     send_msg sy peer (SyncFin \<lparr>msf_vnode = vs_num st, msf_cookie = cookie, msf_result = result\<rparr>) e"

definition send_error_fin :: "'db sys \<Rightarrow> vnode_state \<Rightarrow> fabric_error \<Rightarrow> synchronization \<Rightarrow> 'db env \<Rightarrow>
    (sync_result \<times> synchronization \<times> 'db env) option" where
  "send_error_fin sy st error sync e = do {
     (_, e) \<leftarrow> send_fin sy st (sync_peer sync) (sync_cookie sync) (Err error) e;
     Some (Error, sync_touch (sy_now sy) sync, e)
   }"

definition sender_success_fin :: "'db sys \<Rightarrow> vnode_state \<Rightarrow> sync_sender \<Rightarrow> 'db env \<Rightarrow>
    (sync_result \<times> sync_sender \<times> 'db env) option" where
  "sender_success_fin sy st s e = do {
     (res, e) \<leftarrow> send_fin sy st (ss_peer s) (ss_cookie s) (Ok (ss_clocks_snapshot s)) e;
     Some (from_result res, s\<lparr>ss_last_send := sy_now sy\<rparr>, e)
   }"

definition msg_timeout :: "'db sys \<Rightarrow> instant" where
  "msg_timeout sy = sy_now sy + cf_sync_msg_timeout (sy_config sy)"

text \<open>
  The messages not acknowledged in time are sent again. With a message timeout of zero the loop
  does not end.
\<close>

partial_function (option) resend_expired :: "'db sys \<Rightarrow> sync_sender \<Rightarrow> 'db env \<Rightarrow>
    (sync_result \<times> sync_sender \<times> 'db env) option" where
  "resend_expired sy s e =
     (case ifm_touch_expired (ss_inflight s) (sy_now sy) (msg_timeout sy) of
        (None, m) \<Rightarrow> Some (Continue, s\<lparr>ss_inflight := m\<rparr>, e)
      | (Some (seq, msg), m) \<Rightarrow> do {
          (res, e) \<leftarrow> send_msg sy (ss_peer s) (SyncSend msg) e;
          if from_result res = Continue then resend_expired sy (s\<lparr>ss_inflight := m\<rparr>) e
          else Some (Error, s\<lparr>ss_inflight := m\<rparr>, e)
        })"

text \<open>
  New messages are sent while fewer than the allowed number are in flight. The result \<open>Ok\<close> tells
  whether the iterator failed, \<open>Err\<close> is the early return of \<^verbatim>\<open>stry!\<close>.
\<close>

lemma update_fresh: "k \<notin> fst ` set al \<Longrightarrow> AList.update k v al = al @ [(k, v)]"
  by (induction al) auto

lemma ifm_insert_grows: "ifm_insert m k v t = Some m' \<Longrightarrow> length (ifm_map m') = Suc (length (ifm_map m))"
  by (auto simp: ifm_insert_def Let_def update_fresh map_of_eq_None_iff split: if_splits)

function send_fresh :: "'db sys \<Rightarrow> vnode_state \<Rightarrow> sync_sender \<Rightarrow> 'db env \<Rightarrow>
    ((bool, unit) res \<times> sync_sender \<times> 'db env) option" where
  "send_fresh sy st s e =
     (if length (ifm_map (ss_inflight s)) < cf_sync_msg_inflight (sy_config sy) then
        (case iterator_next sy st e (ss_iterator s) of
           (Ok (Some (k, v)), it) \<Rightarrow>
             (let msg = \<lparr>msd_vnode = vs_num st, msd_cookie = ss_cookie s, msd_seq = ss_count s, msd_key = k,
                         msd_value = v\<rparr>;
                  s = s\<lparr>ss_iterator := it\<rparr>
              in case send_msg sy (ss_peer s) (SyncSend msg) e of
                   None \<Rightarrow> None
                 | Some (res, e) \<Rightarrow>
                     if from_result res = Continue then
                       (case ifm_insert (ss_inflight s) (ss_count s) msg (msg_timeout sy) of
                          None \<Rightarrow> None
                        | Some m \<Rightarrow>
                            send_fresh sy st
                              (s\<lparr>ss_inflight := m, ss_count := ss_count s + 1, ss_last_send := sy_now sy\<rparr>) e)
                     else Some (Err (), s, e))
         | (Ok None, it) \<Rightarrow> Some (Ok False, s\<lparr>ss_iterator := it\<rparr>, e)
         | (Err _, it) \<Rightarrow> Some (Ok True, s\<lparr>ss_iterator := it\<rparr>, e)
         | (Panic, it) \<Rightarrow> None)
      else Some (Ok False, s, e))"
  by pat_completeness auto
termination
  by (relation "measure (\<lambda>(sy, st, s, e). cf_sync_msg_inflight (sy_config sy) - length (ifm_map (ss_inflight s)))")
     (auto dest: ifm_insert_grows)

declare send_fresh.simps [simp del]

definition sender_send_next :: "'db sys \<Rightarrow> vnode_state \<Rightarrow> (sync_sender \<Rightarrow> synchronization) \<Rightarrow> sync_sender \<Rightarrow> 'db env \<Rightarrow>
    (sync_result \<times> synchronization \<times> 'db env) option" where
  "sender_send_next sy st variant s e = do {
     (res, s, e) \<leftarrow> resend_expired sy s e;
     if res \<noteq> Continue then Some (res, variant s, e)
     else do {
       (res, s, e) \<leftarrow> send_fresh sy st s e;
       case res of
         Ok error \<Rightarrow>
           if error then send_error_fin sy st SyncInterrupted (variant s) e
           else if ifm_map (ss_inflight s) = [] then
             map_option (\<lambda>(res, s, e). (res, variant s, e)) (sender_success_fin sy st s e)
           else Some (Continue, variant s, e)
       | _ \<Rightarrow> Some (Error, variant s, e)
     }
   }"

definition send_next :: "'db sys \<Rightarrow> vnode_state \<Rightarrow> synchronization \<Rightarrow> 'db env \<Rightarrow>
    (sync_result \<times> synchronization \<times> 'db env) option" where
  "send_next sy st sync e =
     (case sync of
        SyncSender clocks_in_peer s \<Rightarrow> sender_send_next sy st (SyncSender clocks_in_peer) s e
      | BootstrapSender s \<Rightarrow> sender_send_next sy st BootstrapSender s e
      | _ \<Rightarrow> None)"

section \<open>Events\<close>

definition on_cancel :: "'db sys \<Rightarrow> vnode_state \<Rightarrow> synchronization \<Rightarrow> 'db env \<Rightarrow> (synchronization \<times> 'db env) option" where
  "on_cancel sy st sync e =
     (case direction sync of
        Incomming \<Rightarrow> map_option snd (send_error_fin sy st BadVNodeStatus sync e)
      | Outgoing \<Rightarrow> None)"

definition on_remove :: "synchronization \<Rightarrow> vnode_state \<Rightarrow> 'db env \<Rightarrow> (vnode_state \<times> 'db env) option" where
  "on_remove sync st e = do {
     let st = (case sync of
         SyncReceiver _ r \<Rightarrow> st\<lparr>vs_sync_nodes := removeAll (sr_peer r) (vs_sync_nodes st)\<rparr>
       | _ \<Rightarrow> st);
     e \<leftarrow> signal_sync_end (direction sync) e;
     Some (st, e)
   }"

definition elapsed :: "'db sys \<Rightarrow> instant \<Rightarrow> nat" where
  "elapsed sy t = sy_now sy - t"

definition sender_tick :: "'db sys \<Rightarrow> vnode_state \<Rightarrow> (sync_sender \<Rightarrow> synchronization) \<Rightarrow> sync_sender \<Rightarrow> 'db env \<Rightarrow>
    (sync_result \<times> synchronization \<times> 'db env) option" where
  "sender_tick sy st variant s e =
     (if elapsed sy (ss_last_recv s) > cf_sync_timeout (sy_config sy) then Some (Error, variant s, e)
      else send_next sy st (variant s) e)"

definition receiver_tick :: "'db sys \<Rightarrow> vnode_state \<Rightarrow> (sync_receiver \<Rightarrow> synchronization) \<Rightarrow> sync_receiver \<Rightarrow> 'db env \<Rightarrow>
    (sync_result \<times> synchronization \<times> 'db env) option" where
  "receiver_tick sy st variant r e =
     (if elapsed sy (sr_last_recv r) > cf_sync_timeout (sy_config sy) then Some (Error, variant r, e)
      else if sr_recv_count r = 0 \<and> elapsed sy (sr_last_send r) > cf_sync_msg_timeout (sy_config sy)
      then send_start sy st (variant r) e
      else Some (Continue, variant r, e))"

definition on_tick :: "'db sys \<Rightarrow> vnode_state \<Rightarrow> synchronization \<Rightarrow> 'db env \<Rightarrow>
    (sync_result \<times> synchronization \<times> 'db env) option" where
  "on_tick sy st sync e =
     (case sync of
        SyncSender c s \<Rightarrow> sender_tick sy st (SyncSender c) s e
      | BootstrapSender s \<Rightarrow> sender_tick sy st BootstrapSender s e
      | SyncReceiver c r \<Rightarrow> receiver_tick sy st (SyncReceiver c) r e
      | BootstrapReceiver r \<Rightarrow> receiver_tick sy st BootstrapReceiver r e)"

definition on_start :: "'db sys \<Rightarrow> vnode_state \<Rightarrow> synchronization \<Rightarrow> 'db env \<Rightarrow> (synchronization \<times> 'db env) option" where
  "on_start sy st sync e =
     map_option snd
       (case direction sync of
          Incomming \<Rightarrow> send_start sy st sync e
        | Outgoing \<Rightarrow> send_next sy st sync e)"

definition on_msg_fin :: "'db sys \<Rightarrow> msg_sync_fin \<Rightarrow> synchronization \<Rightarrow> vnode_state \<Rightarrow> 'db env \<Rightarrow>
    (sync_result \<times> vnode_state \<times> 'db env) option" where
  "on_msg_fin sy msg sync st e =
     (case direction sync of
        Incomming \<Rightarrow>
          (case msf_result msg of
             Ok clocks \<Rightarrow> do {
               let st = st\<lparr>vs_clocks := bvv_merge (vs_clocks st) clocks\<rparr>;
               e \<leftarrow> vs_save sy st False e;
               (_, e) \<leftarrow> send_msg sy (sync_peer sync) (SyncFin msg) e;
               Some (Done, st, e)
             }
           | Err NotReady \<Rightarrow> Some (Continue, st, e)
           | _ \<Rightarrow> Some (Error, st, e))
      | Outgoing \<Rightarrow> Some (Done, st, e))"

definition receiver_msg_send :: "'db sys \<Rightarrow> msg_sync_send \<Rightarrow> sync_receiver \<Rightarrow> vnode_state \<Rightarrow> 'db env \<Rightarrow>
    (sync_receiver \<times> vnode_state \<times> 'db env) option" where
  "receiver_msg_send sy msg r st e = do {
     (res, st, e) \<leftarrow> storage_set_remote sy [(msd_key msg, msd_value msg, False)] st e;
     if res = Err () then None
     else do {
       (_, e) \<leftarrow> send_msg sy (sr_peer r)
         (SyncAck \<lparr>msa_vnode = vs_num st, msa_cookie = msd_cookie msg, msa_seq = msd_seq msg\<rparr>) e;
       Some (r\<lparr>sr_recv_count := sr_recv_count r + 1, sr_last_recv := sy_now sy, sr_last_send := sy_now sy\<rparr>, st, e)
     }
   }"

definition on_msg_send :: "'db sys \<Rightarrow> msg_sync_send \<Rightarrow> synchronization \<Rightarrow> vnode_state \<Rightarrow> 'db env \<Rightarrow>
    (synchronization \<times> vnode_state \<times> 'db env) option" where
  "on_msg_send sy msg sync st e =
     (case sync of
        SyncReceiver c r \<Rightarrow> map_option (\<lambda>(r, st, e). (SyncReceiver c r, st, e)) (receiver_msg_send sy msg r st e)
      | BootstrapReceiver r \<Rightarrow>
          map_option (\<lambda>(r, st, e). (BootstrapReceiver r, st, e)) (receiver_msg_send sy msg r st e)
      | _ \<Rightarrow> None)"

definition sender_ack :: "'db sys \<Rightarrow> msg_sync_ack \<Rightarrow> sync_sender \<Rightarrow> sync_sender" where
  "sender_ack sy msg s =
     s\<lparr>ss_inflight := snd (ifm_remove (ss_inflight s) (msa_seq msg)), ss_last_recv := sy_now sy\<rparr>"

definition on_msg_ack :: "'db sys \<Rightarrow> msg_sync_ack \<Rightarrow> synchronization \<Rightarrow> vnode_state \<Rightarrow> 'db env \<Rightarrow>
    (synchronization \<times> 'db env) option" where
  "on_msg_ack sy msg sync st e =
     (case sync of
        SyncSender c s \<Rightarrow> map_option snd (send_next sy st (SyncSender c (sender_ack sy msg s)) e)
      | BootstrapSender s \<Rightarrow> map_option snd (send_next sy st (BootstrapSender (sender_ack sy msg s)) e)
      | _ \<Rightarrow> None)"

end
