(* ===== verification/VNode.thy ===== *)
theory VNode
  imports VNode_Sync
begin

text \<open>
  \<^verbatim>\<open>vnode.rs\<close>: a vnode with its running synchronisations and pending requests, and its handlers. A
  handler takes the vnode and the shared state and returns both; \<open>None\<close> is a panic.
\<close>

section \<open>Requests\<close>

record req_state =
  rq_replies :: u8
  rq_succesfull :: u8
  rq_required :: u8
  rq_total :: u8
  rq_context :: ctx

record vnode =
  vd_state :: vnode_state
  vd_syncs :: "(cookie \<times> synchronization) list"
  vd_requests :: "(cookie, req_state, instant) in_flight_map"

abbreviation vd_status :: "vnode \<Rightarrow> vnode_status" where
  "vd_status v \<equiv> vs_status (vd_state v)"

abbreviation vd_num :: "vnode \<Rightarrow> u16" where
  "vd_num v \<equiv> vs_num (vd_state v)"

definition req_new :: "ctx \<Rightarrow> nat \<Rightarrow> consistency_level \<Rightarrow> req_state" where
  "req_new c nodes consistency =
     \<lparr>rq_replies = 0, rq_succesfull = 0, rq_required = required consistency (of_nat nodes),
      rq_total = of_nat nodes, rq_context = c\<rparr>"

definition satisfied :: "req_state \<Rightarrow> bool" where
  "satisfied r \<longleftrightarrow> rq_required r \<le> rq_succesfull r"

definition req_done :: "req_state \<Rightarrow> bool" where
  "req_done r \<longleftrightarrow> satisfied r \<or> rq_replies r = rq_total r"

text \<open>
  One reply of a replica is counted; \<open>update\<close> takes the values of a successful one into the
  context. The reads and writes of the context are zipped with the values of the reply.
\<close>

definition count_reply :: "('r \<Rightarrow> ctx \<Rightarrow> ctx) \<Rightarrow> ('r, fabric_error) res \<Rightarrow> req_state \<Rightarrow> req_state" where
  "count_reply update response r =
     (let r = r\<lparr>rq_replies := rq_replies r + 1\<rparr>
      in case response of
           Ok x \<Rightarrow> r\<lparr>rq_succesfull := rq_succesfull r + 1, rq_context := update x (rq_context r)\<rparr>
         | _ \<Rightarrow> r)"

fun merge_reads :: "cube list \<Rightarrow> context_read list \<Rightarrow> context_read list" where
  "merge_reads (response # responses) (rd # reads) =
     rd\<lparr>crd_cube := cube_merge (crd_cube rd) response\<rparr> # merge_reads responses reads"
| "merge_reads _ reads = reads"

fun merge_writes :: "cube option list \<Rightarrow> context_write list \<Rightarrow> context_write list" where
  "merge_writes (response # responses) (write # writes) =
     (case response of
        Some cube \<Rightarrow> write\<lparr>cwr_cube := cube_merge (cwr_cube write) cube\<rparr>
      | None \<Rightarrow> write) # merge_writes responses writes"
| "merge_writes _ writes = writes"

text \<open>The response function of the first read renders all of them.\<close>

fun render_reads :: "response_fn option \<Rightarrow> context_read list \<Rightarrow> resp_value list option" where
  "render_reads render_fn [] = Some []"
| "render_reads render_fn (rd # reads) = do {
     let render_fn = (case render_fn of None \<Rightarrow> crd_response rd | Some _ \<Rightarrow> render_fn);
     render \<leftarrow> render_fn;
     rest \<leftarrow> render_reads render_fn reads;
     Some (render (crd_cube rd) # rest)
   }"

fun render_writes :: "context_write list \<Rightarrow> resp_value list option" where
  "render_writes [] = Some []"
| "render_writes (write # writes) = do {
     resp \<leftarrow> (case cwr_response write of
         Some resp \<Rightarrow> Some resp
       | None \<Rightarrow> map_option (\<lambda>f. f (cwr_cube write)) (cwr_response_fn write));
     rest \<leftarrow> render_writes writes;
     Some (resp # rest)
   }"

text \<open>What \<^verbatim>\<open>process_get\<close> and \<^verbatim>\<open>process_set\<close> have in common; \<open>render\<close> drains the context into its response.\<close>

definition process_reply :: "('r \<Rightarrow> ctx \<Rightarrow> ctx) \<Rightarrow> (ctx \<Rightarrow> ctx option) \<Rightarrow> cookie \<Rightarrow> ('r, fabric_error) res \<Rightarrow>
    vnode \<Rightarrow> 'db env \<Rightarrow> (bool \<times> vnode \<times> 'db env) option" where
  "process_reply update render cookie response v e =
     (case map_of (ifm_map (vd_requests v)) cookie of
        None \<Rightarrow> Some (True, v, e)
      | Some r \<Rightarrow>
          (let r = count_reply update response r;
               reqs = vd_requests v
           in if \<not> req_done r then
                Some (False, v\<lparr>vd_requests := reqs\<lparr>ifm_map := AList.update cookie r (ifm_map reqs)\<rparr>\<rparr>, e)
              else
                (let v = v\<lparr>vd_requests := reqs\<lparr>ifm_map := AList.delete cookie (ifm_map reqs)\<rparr>\<rparr>
                 in if \<not> satisfied r then
                      Some (True, v, respond_error (ctx_clear (rq_context r)) Unavailable e)
                    else
                      (case render (rq_context r) of
                         None \<Rightarrow> None
                       | Some c \<Rightarrow> Some (True, v, respond c e)))))"

definition process_get :: "cookie \<Rightarrow> (cube list, fabric_error) res \<Rightarrow> vnode \<Rightarrow> 'db env \<Rightarrow> (bool \<times> vnode \<times> 'db env) option" where
  "process_get =
     process_reply (\<lambda>cubes c. c\<lparr>cx_reads := merge_reads cubes (cx_reads c)\<rparr>)
       (\<lambda>c. map_option (\<lambda>resps. c\<lparr>cx_response := cx_response c @ resps, cx_reads := []\<rparr>)
              (render_reads None (cx_reads c)))"

definition process_set ::
  "cookie \<Rightarrow> (cube option list, fabric_error) res \<Rightarrow> vnode \<Rightarrow> 'db env \<Rightarrow> (bool \<times> vnode \<times> 'db env) option" where
  "process_set =
     process_reply (\<lambda>cubes c. c\<lparr>cx_writes := merge_writes cubes (cx_writes c)\<rparr>)
       (\<lambda>c. map_option (\<lambda>resps. c\<lparr>cx_response := cx_response c @ resps, cx_writes := []\<rparr>)
              (render_writes (cx_writes c)))"

section \<open>Coordinating reads and writes\<close>

definition request_deadline :: "'db sys \<Rightarrow> instant" where
  "request_deadline sy = sy_now sy + cf_request_timeout (sy_config sy)"

text \<open>
  A message to every other node of the vnode; a failed send counts as a failed reply. The flag
  tells whether the request was answered on the way.
\<close>

fun send_each :: "'db sys \<Rightarrow> fabric_msg \<Rightarrow> (fabric_error \<Rightarrow> vnode \<Rightarrow> 'db env \<Rightarrow> (bool \<times> vnode \<times> 'db env) option) \<Rightarrow>
    node_id list \<Rightarrow> vnode \<Rightarrow> 'db env \<Rightarrow> (bool \<times> vnode \<times> 'db env) option" where
  "send_each sy msg process [] v e = Some (False, v, e)"
| "send_each sy msg process (node # nodes) v e =
     (if node = this_node e then send_each sy msg process nodes v e
      else do {
        (res, e) \<leftarrow> send_msg sy node msg e;
        case res of
          Err err \<Rightarrow> do {
            (finished, v, e) \<leftarrow> process err v e;
            if finished then Some (True, v, e) else send_each sy msg process nodes v e
          }
        | _ \<Rightarrow> send_each sy msg process nodes v e
      })"

fun local_reads :: "'db sys \<Rightarrow> vnode_state \<Rightarrow> 'db env \<Rightarrow> bool \<Rightarrow> bytes list \<Rightarrow> response_fn option \<Rightarrow> context_read list option" where
  "local_reads sy st e participate [] response = Some []"
| "local_reads sy st e participate (key # keys) response = do {
     cube \<leftarrow> (if participate then (case storage_get sy st e key of Ok cube \<Rightarrow> Some cube | _ \<Rightarrow> None)
              else Some cube_default);
     reads \<leftarrow> local_reads sy st e participate keys None;
     Some (\<lparr>crd_cube = cube, crd_response = response\<rparr> # reads)
   }"

definition do_get :: "'db sys \<Rightarrow> bytes list \<Rightarrow> consistency_level \<Rightarrow> response_fn \<Rightarrow> ctx \<Rightarrow> vnode \<Rightarrow> 'db env \<Rightarrow>
    ((unit, command_error) res \<times> ctx \<times> vnode \<times> 'db env) option" where
  "do_get sy keys consistency response_fn c v e = do {
     nodes \<leftarrow> nodes_for_vnode (ev_dht e) (vd_num v) False True;
     if nodes = [] then Some (Err Unavailable, c, v, e)
     else do {
       let participate = (this_node e \<in> set nodes);
       let (cookie, e) = gen_cookie sy e;
       reads \<leftarrow> local_reads sy (vd_state v) e participate keys (Some response_fn);
       let c = c\<lparr>cx_reads := cx_reads c @ reads\<rparr>;
       reqs \<leftarrow> ifm_insert (vd_requests v) cookie (req_new c (length nodes) consistency) (request_deadline sy);
       let v = v\<lparr>vd_requests := reqs\<rparr>;
       (finished, v, e) \<leftarrow> (if participate then process_get cookie (Ok []) v e else Some (False, v, e));
       if finished then Some (Ok (), ctx_new 0, v, e)
       else do {
         let msg = RemoteGet \<lparr>mrg_vnode = vd_num v, mrg_cookie = cookie, mrg_keys = keys\<rparr>;
         (_, v, e) \<leftarrow> send_each sy msg (\<lambda>err. process_get cookie (Err err)) nodes v e;
         Some (Ok (), ctx_new 0, v, e)
       }
     }
   }"

fun other_node :: "node_id \<Rightarrow> (node_id \<times> addr \<times> addr) list \<Rightarrow> addr option" where
  "other_node self [] = None"
| "other_node self ((node, _, a) # nodes) = (if node \<noteq> self then Some a else other_node self nodes)"

definition respond_cant_coordinate :: "'db sys \<Rightarrow> vnode_status \<Rightarrow> ctx \<Rightarrow> vnode \<Rightarrow> 'db env \<Rightarrow> 'db env option" where
  "respond_cant_coordinate sy status c v e =
     (case cx_writes c of
        [] \<Rightarrow> None
      | w # _ \<Rightarrow> do {
          let slot = hash_slot (sy_crc16 sy) (cwr_key w);
          nodes \<leftarrow> nodes_for_vnode_ex (ev_dht e) (vd_num v) True False;
          case other_node (this_node e) (shuffle sy nodes) of
            Some a \<Rightarrow>
              (case status of
                 Absent \<Rightarrow> Some (respond_moved c slot a e)
               | Zombie \<Rightarrow> Some (respond_moved c slot a e)
               | Bootstrap \<Rightarrow> Some (respond_ask c slot a e)
               | Ready \<Rightarrow> None)
          | None \<Rightarrow> Some (respond_error c Unavailable e)
        })"

text \<open>
  The mutators of the writes run in order, each with a new version of this node; the first error
  ends the loop. Versions already drawn are not returned.
\<close>

fun run_mutators :: "'db sys \<Rightarrow> 'db env \<Rightarrow> context_write list \<Rightarrow> vnode_state \<Rightarrow>
    (command_error option \<times> context_write list \<times> vnode_state) option" where
  "run_mutators sy e [] st = Some (None, [], st)"
| "run_mutators sy e (w # ws) st =
     (case storage_get sy st e (cwr_key w) of
        Panic \<Rightarrow> None
      | Err _ \<Rightarrow> Some (Some StorageError, w # ws, st)
      | Ok old \<Rightarrow>
          (case bvv_event (vs_clocks st) (this_node e) of (version, clocks) \<Rightarrow>
             (let st = st\<lparr>vs_clocks := clocks\<rparr>
              in case cwr_mutator_fn w of
                   None \<Rightarrow> None
                 | Some mutator \<Rightarrow>
                     (let w = w\<lparr>cwr_version := version, cwr_mutator_fn := None\<rparr>
                      in case mutator (this_node e) version old of
                           Panic \<Rightarrow> None
                         | Err err \<Rightarrow> Some (Some err, w # ws, st)
                         | Ok (cube, resp) \<Rightarrow>
                             map_option (\<lambda>(error, ws, st). (error, w\<lparr>cwr_cube := cube, cwr_response := resp\<rparr> # ws, st))
                               (run_mutators sy e ws st)))))"

definition do_flush :: "'db sys \<Rightarrow> consistency_level \<Rightarrow> ctx \<Rightarrow> vnode \<Rightarrow> 'db env \<Rightarrow>
    ((unit, command_error) res \<times> ctx \<times> vnode \<times> 'db env) option" where
  "do_flush sy consistency c v e =
     (if vd_status v \<noteq> Ready then
        map_option (\<lambda>e. (Ok (), ctx_new 0, v, e)) (respond_cant_coordinate sy (vd_status v) c v e)
      else do {
        (error, writes, st) \<leftarrow> run_mutators sy e (cx_writes c) (vd_state v);
        let c = c\<lparr>cx_writes := writes\<rparr>;
        let v = v\<lparr>vd_state := st\<rparr>;
        case error of
          Some err \<Rightarrow> Some (Err err, c, v, e)
        | None \<Rightarrow> do {
            let (cookie, e) = gen_cookie sy e;
            nodes \<leftarrow> nodes_for_vnode (ev_dht e) (vd_num v) True True;
            (stored, e) \<leftarrow> storage_set_local sy st (map (\<lambda>w. (cwr_version w, cwr_key w, cwr_cube w)) writes) e;
            case stored of
              Ok _ \<Rightarrow> do {
                let msg_writes = map (\<lambda>w. (cwr_key w, cwr_cube w, cwr_reply_result w)) writes;
                let c = c\<lparr>cx_writes := map (\<lambda>w. w\<lparr>cwr_cube := cube_default\<rparr>) writes\<rparr>;
                reqs \<leftarrow> ifm_insert (vd_requests v) cookie (req_new c (length nodes) consistency) (request_deadline sy);
                let v = v\<lparr>vd_requests := reqs\<rparr>;
                let msg = RemoteSet \<lparr>mrs_vnode = vd_num v, mrs_cookie = cookie, mrs_writes = msg_writes,
                                     mrs_reply = (consistency \<noteq> One)\<rparr>;
                (finished, v, e) \<leftarrow> send_each sy msg (\<lambda>err. process_set cookie (Err err)) nodes v e;
                if finished then Some (Ok (), ctx_new 0, v, e)
                else do {
                  (_, v, e) \<leftarrow> process_set cookie (Ok (map (\<lambda>(_, cube, _). Some cube) msg_writes)) v e;
                  Some (Ok (), ctx_new 0, v, e)
                }
              }
            | Err err \<Rightarrow> Some (Err err, c, v, e)
            | Panic \<Rightarrow> None
          }
      })"

section \<open>Replica handlers\<close>

definition handler_get_remote_ack :: "msg_remote_get_ack \<Rightarrow> vnode \<Rightarrow> 'db env \<Rightarrow> (vnode \<times> 'db env) option" where
  "handler_get_remote_ack msg v e = map_option snd (process_get (mrga_cookie msg) (mrga_result msg) v e)"

definition handler_set_remote_ack :: "msg_remote_set_ack \<Rightarrow> vnode \<Rightarrow> 'db env \<Rightarrow> (vnode \<times> 'db env) option" where
  "handler_set_remote_ack msg v e = map_option snd (process_set (mrsa_cookie msg) (mrsa_result msg) v e)"

text \<open>A send whose result is dropped.\<close>

definition send_ignore :: "'db sys \<Rightarrow> node_id \<Rightarrow> fabric_msg \<Rightarrow> 'db env \<Rightarrow> 'db env option" where
  "send_ignore sy node msg e = map_option snd (send_msg sy node msg e)"

fun read_keys :: "'db sys \<Rightarrow> vnode_state \<Rightarrow> 'db env \<Rightarrow> bytes list \<Rightarrow> cube list option" where
  "read_keys sy st e [] = Some []"
| "read_keys sy st e (key # keys) =
     (case storage_get sy st e key of
        Ok cube \<Rightarrow> map_option ((#) cube) (read_keys sy st e keys)
      | _ \<Rightarrow> None)"

definition handler_get_remote :: "'db sys \<Rightarrow> node_id \<Rightarrow> msg_remote_get \<Rightarrow> vnode \<Rightarrow> 'db env \<Rightarrow> (vnode \<times> 'db env) option" where
  "handler_get_remote sy from msg v e = do {
     let ack = (\<lambda>result. RemoteGetAck
       \<lparr>mrga_vnode = mrg_vnode msg, mrga_cookie = mrg_cookie msg, mrga_result = result\<rparr>);
     if vd_status v \<in> {Ready, Zombie} then do {
       cubes \<leftarrow> read_keys sy (vd_state v) e (mrg_keys msg);
       e \<leftarrow> send_ignore sy from (ack (Ok cubes)) e;
       Some (v, e)
     }
     else map_option (Pair v) (send_ignore sy from (ack (Err BadVNodeStatus)) e)
   }"

definition handler_set_remote :: "'db sys \<Rightarrow> node_id \<Rightarrow> msg_remote_set \<Rightarrow> vnode \<Rightarrow> 'db env \<Rightarrow> (vnode \<times> 'db env) option" where
  "handler_set_remote sy from msg v e = do {
     let ack = (\<lambda>result. RemoteSetAck
       \<lparr>mrsa_vnode = mrs_vnode msg, mrsa_cookie = mrs_cookie msg, mrsa_result = result\<rparr>);
     if vd_status v \<in> {Ready, Bootstrap} then do {
       (res, st, e) \<leftarrow> storage_set_remote sy (mrs_writes msg) (vd_state v) e;
       let v = v\<lparr>vd_state := st\<rparr>;
       let result = (case res of Ok cubes \<Rightarrow> Ok cubes | _ \<Rightarrow> Err Fabric_StorageError);
       if mrs_reply msg then map_option (Pair v) (send_ignore sy from (ack result) e) else Some (v, e)
     }
     else map_option (Pair v) (send_ignore sy from (ack (Err BadVNodeStatus)) e)
   }"

section \<open>Bootstrap\<close>

definition syncs_inflight :: "vnode \<Rightarrow> nat \<times> nat" where
  "syncs_inflight v =
     foldl (\<lambda>(inc, out) (_, s). case direction s of Incomming \<Rightarrow> (inc + 1, out) | Outgoing \<Rightarrow> (inc, out + 1))
       (if vs_pending_bootstrap (vd_state v) then 1 else 0, 0) (vd_syncs v)"

definition vd_set_status :: "'db sys \<Rightarrow> vnode_status \<Rightarrow> vnode \<Rightarrow> 'db env \<Rightarrow> (vnode \<times> 'db env) option" where
  "vd_set_status sy status v e = map_option (\<lambda>(st, e). (v\<lparr>vd_state := st\<rparr>, e)) (set_status sy status (vd_state v) e)"

definition bootstrap_done :: "'db sys \<Rightarrow> vnode \<Rightarrow> 'db env \<Rightarrow> (vnode \<times> 'db env) option" where
  "bootstrap_done sy v e =
     (case run_dht sy (dht_promote_pending_node (sy_ring_codec sy) (this_node e) (vd_num v)) e of
        (Ok _, e) \<Rightarrow> vd_set_status sy Ready v e
      | (Err _, e) \<Rightarrow> vd_set_status sy Absent v e
      | (Panic, e) \<Rightarrow> None)"

text \<open>A new synchronisation is registered and started; a cookie in use is a panic.\<close>

definition add_sync :: "'db sys \<Rightarrow> cookie \<Rightarrow> synchronization \<Rightarrow> vnode \<Rightarrow> 'db env \<Rightarrow> (vnode \<times> 'db env) option" where
  "add_sync sy cookie sync v e =
     (case map_of (vd_syncs v) cookie of
        None \<Rightarrow> do {
          (sync, e) \<leftarrow> on_start sy (vd_state v) sync e;
          Some (v\<lparr>vd_syncs := AList.update cookie sync (vd_syncs v)\<rparr>, e)
        }
      | Some _ \<Rightarrow> None)"

fun first_peer :: "node_id \<Rightarrow> node_id list \<Rightarrow> node_id option" where
  "first_peer self [] = None"
| "first_peer self (node # nodes) = (if node = self then first_peer self nodes else Some node)"

definition start_bootstrap :: "'db sys \<Rightarrow> vnode \<Rightarrow> 'db env \<Rightarrow> (vnode \<times> 'db env) option" where
  "start_bootstrap sy v e =
     (if vd_status v = Bootstrap \<and> vd_syncs v = [] then do {
        let v = v\<lparr>vd_state := (vd_state v)\<lparr>vs_pending_bootstrap := False\<rparr>\<rparr>;
        let (cookie, e) = gen_cookie sy e;
        nodes \<leftarrow> nodes_for_vnode (ev_dht e) (vd_num v) False True;
        let nodes = filter (\<lambda>n. n \<in> set (sy_connections sy)) nodes;
        if nodes = [] \<or> nodes = [this_node e] then bootstrap_done sy v e
        else do {
          node \<leftarrow> first_peer (this_node e) (shuffle sy nodes);
          let (started, e) = signal_sync_start sy Incomming e;
          if started then add_sync sy cookie (new_bootstrap_receiver sy node cookie) v e
          else Some (v\<lparr>vd_state := (vd_state v)\<lparr>vs_pending_bootstrap := True\<rparr>\<rparr>, e)
        }
      }
      else None)"

definition handle_bootstrap_result :: "'db sys \<Rightarrow> sync_result \<Rightarrow> vnode \<Rightarrow> 'db env \<Rightarrow> (vnode \<times> 'db env) option" where
  "handle_bootstrap_result sy result v e =
     (case result of
        Error \<Rightarrow> start_bootstrap sy v e
      | Done \<Rightarrow> bootstrap_done sy v e
      | Continue \<Rightarrow> Some (v, e))"

definition vd_new :: "'db sys \<Rightarrow> u16 \<Rightarrow> vnode_status \<Rightarrow> 'db env \<Rightarrow> (vnode \<times> 'db env) option" where
  "vd_new sy num status e = do {
     (st, e) \<leftarrow> vs_load sy num status e;
     e \<leftarrow> vs_save sy st False e;
     let v = \<lparr>vd_state = st, vd_syncs = [], vd_requests = ifm_new\<rparr>;
     case vd_status v of
       Ready \<Rightarrow> Some (v, e)
     | Absent \<Rightarrow> Some (v, e)
     | Bootstrap \<Rightarrow> start_bootstrap sy v e
     | Zombie \<Rightarrow> None
   }"

section \<open>Synchronisation handlers\<close>

definition send_fin_error :: "'db sys \<Rightarrow> node_id \<Rightarrow> vnode_id \<Rightarrow> cookie \<Rightarrow> fabric_error \<Rightarrow> vnode \<Rightarrow> 'db env \<Rightarrow>
    (vnode \<times> 'db env) option" where
  "send_fin_error sy from num cookie err v e =
     map_option (Pair v)
       (send_ignore sy from (SyncFin \<lparr>msf_vnode = num, msf_cookie = cookie, msf_result = Err err\<rparr>) e)"

definition handler_sync_start :: "'db sys \<Rightarrow> node_id \<Rightarrow> msg_sync_start \<Rightarrow> vnode \<Rightarrow> 'db env \<Rightarrow> (vnode \<times> 'db env) option" where
  "handler_sync_start sy from msg v e =
     (let st = vd_state v; refuse = (\<lambda>err e. send_fin_error sy from (mss_vnode msg) (mss_cookie msg) err v e)
      in if \<not> (vs_status st = Ready \<or>
               vs_status st = Zombie \<and> elapsed sy (vs_last_status_change st) < ZOMBIE_TIMEOUT_MS)
         then refuse BadVNodeStatus e
         else if map_of (vd_syncs v) (mss_cookie msg) \<noteq> None then Some (v, e)
         else
           (case signal_sync_start sy Outgoing e of (started, e) \<Rightarrow>
              if \<not> started then refuse NotReady e
              else do {
                sync \<leftarrow> (case mss_target msg of
                    None \<Rightarrow> Some (new_bootstrap_sender sy st e from msg)
                  | Some target \<Rightarrow> if target = this_node e then new_sync_sender sy st e from msg else None);
                add_sync sy (mss_cookie msg) sync v e
              }))"

definition handler_sync_send :: "'db sys \<Rightarrow> node_id \<Rightarrow> msg_sync_send \<Rightarrow> vnode \<Rightarrow> 'db env \<Rightarrow> (vnode \<times> 'db env) option" where
  "handler_sync_send sy from msg v e =
     (if vd_status v \<notin> {Ready, Bootstrap}
      then send_fin_error sy from (msd_vnode msg) (msd_cookie msg) BadVNodeStatus v e
      else
        (case map_of (vd_syncs v) (msd_cookie msg) of
           Some sync \<Rightarrow> do {
             (sync, st, e) \<leftarrow> on_msg_send sy msg sync (vd_state v) e;
             Some (v\<lparr>vd_state := st, vd_syncs := AList.update (msd_cookie msg) sync (vd_syncs v)\<rparr>, e)
           }
         | None \<Rightarrow> send_fin_error sy from (msd_vnode msg) (msd_cookie msg) CookieNotFound v e))"

definition handler_sync_ack :: "'db sys \<Rightarrow> node_id \<Rightarrow> msg_sync_ack \<Rightarrow> vnode \<Rightarrow> 'db env \<Rightarrow> (vnode \<times> 'db env) option" where
  "handler_sync_ack sy from msg v e =
     (if vd_status v \<notin> {Ready, Zombie}
      then send_fin_error sy from (msa_vnode msg) (msa_cookie msg) BadVNodeStatus v e
      else
        (case map_of (vd_syncs v) (msa_cookie msg) of
           Some sync \<Rightarrow> do {
             (sync, e) \<leftarrow> on_msg_ack sy msg sync (vd_state v) e;
             Some (v\<lparr>vd_syncs := AList.update (msa_cookie msg) sync (vd_syncs v)\<rparr>, e)
           }
         | None \<Rightarrow> send_fin_error sy from (msa_vnode msg) (msa_cookie msg) CookieNotFound v e))"

text \<open>The registered synchronisation is removed and its end is signalled.\<close>

definition remove_sync :: "cookie \<Rightarrow> vnode \<Rightarrow> 'db env \<Rightarrow> (vnode \<times> 'db env) option" where
  "remove_sync cookie v e = do {
     sync \<leftarrow> map_of (vd_syncs v) cookie;
     (st, e) \<leftarrow> on_remove sync (vd_state v) e;
     Some (v\<lparr>vd_state := st, vd_syncs := AList.delete cookie (vd_syncs v)\<rparr>, e)
   }"

definition handler_sync_fin :: "'db sys \<Rightarrow> node_id \<Rightarrow> msg_sync_fin \<Rightarrow> vnode \<Rightarrow> 'db env \<Rightarrow> (vnode \<times> 'db env) option" where
  "handler_sync_fin sy from msg v e =
     (if vd_status v \<notin> {Ready, Zombie, Bootstrap}
      then send_fin_error sy from (msf_vnode msg) (msf_cookie msg) BadVNodeStatus v e
      else
        (case map_of (vd_syncs v) (msf_cookie msg) of
           Some sync \<Rightarrow> do {
             (result, st, e) \<leftarrow> on_msg_fin sy msg sync (vd_state v) e;
             let v = v\<lparr>vd_state := st\<rparr>;
             (v, e) \<leftarrow> (if result = Continue then Some (v, e) else remove_sync (msf_cookie msg) v e);
             if vd_status v = Bootstrap then handle_bootstrap_result sy result v e else Some (v, e)
           }
         | None \<Rightarrow>
             (case msf_result msg of
                Ok _ \<Rightarrow> send_fin_error sy from (msf_vnode msg) (msf_cookie msg) CookieNotFound v e
              | _ \<Rightarrow> Some (v, e))))"

fun start_sync_with :: "'db sys \<Rightarrow> node_id list \<Rightarrow> vnode \<Rightarrow> 'db env \<Rightarrow> (bool \<times> vnode \<times> 'db env) option" where
  "start_sync_with sy [] v e = Some (False, v, e)"
| "start_sync_with sy (node # nodes) v e =
     (if node = this_node e then start_sync_with sy nodes v e
      else
        (case signal_sync_start sy Incomming e of (started, e) \<Rightarrow>
           if \<not> started then start_sync_with sy nodes v e
           else do {
             let (cookie, e) = gen_cookie sy e;
             let st = (vd_state v)\<lparr>vs_sync_nodes := List.insert node (vs_sync_nodes (vd_state v))\<rparr>;
             (v, e) \<leftarrow> add_sync sy cookie (new_sync_receiver sy st node cookie) (v\<lparr>vd_state := st\<rparr>) e;
             Some (True, v, e)
           }))"

definition do_start_sync :: "'db sys \<Rightarrow> vnode \<Rightarrow> 'db env \<Rightarrow> (bool \<times> vnode \<times> 'db env) option" where
  "do_start_sync sy v e = do {
     nodes \<leftarrow> nodes_for_vnode (ev_dht e) (vd_num v) False True;
     start_sync_with sy (shuffle sy (filter (\<lambda>n. n \<in> set (sy_connections sy)) nodes)) v e
   }"

definition start_sync_if_ready :: "'db sys \<Rightarrow> vnode \<Rightarrow> 'db env \<Rightarrow> (bool \<times> vnode \<times> 'db env) option" where
  "start_sync_if_ready sy v e = (if vd_status v = Ready then do_start_sync sy v e else Some (False, v, e))"

section \<open>Changes of the ring\<close>

text \<open>The incoming synchronisations are told to end; the cookies of those are returned.\<close>

fun cancel_syncs :: "'db sys \<Rightarrow> vnode_state \<Rightarrow> (cookie \<times> synchronization) list \<Rightarrow> 'db env \<Rightarrow>
    (cookie list \<times> (cookie \<times> synchronization) list \<times> 'db env) option" where
  "cancel_syncs sy st [] e = Some ([], [], e)"
| "cancel_syncs sy st ((cookie, sync) # syncs) e =
     (case direction sync of
        Incomming \<Rightarrow> do {
          (sync, e) \<leftarrow> on_cancel sy st sync e;
          (canceled, syncs, e) \<leftarrow> cancel_syncs sy st syncs e;
          Some (cookie # canceled, (cookie, sync) # syncs, e)
        }
      | Outgoing \<Rightarrow> do {
          (canceled, syncs, e) \<leftarrow> cancel_syncs sy st syncs e;
          Some (canceled, (cookie, sync) # syncs, e)
        })"

fun remove_syncs :: "cookie list \<Rightarrow> vnode \<Rightarrow> 'db env \<Rightarrow> (vnode \<times> 'db env) option" where
  "remove_syncs [] v e = Some (v, e)"
| "remove_syncs (cookie # cookies) v e = do {
     (v, e) \<leftarrow> remove_sync cookie v e;
     remove_syncs cookies v e
   }"

definition cancel_incomming :: "'db sys \<Rightarrow> vnode \<Rightarrow> 'db env \<Rightarrow> (vnode \<times> 'db env) option" where
  "cancel_incomming sy v e = do {
     (canceled, syncs, e) \<leftarrow> cancel_syncs sy (vd_state v) (vd_syncs v) e;
     remove_syncs canceled (v\<lparr>vd_syncs := syncs\<rparr>) e
   }"

definition vd_handler_dht_change :: "'db sys \<Rightarrow> vnode_status \<Rightarrow> vnode \<Rightarrow> 'db env \<Rightarrow> (vnode \<times> 'db env) option" where
  "vd_handler_dht_change sy x_status v e =
     (case (vd_status v, x_status) of
        (_, Bootstrap) \<Rightarrow> None
      | (_, Zombie) \<Rightarrow> None
      | (Ready, Absent) \<Rightarrow> do {
          (v, e) \<leftarrow> cancel_incomming sy v e;
          vd_set_status sy Zombie v e
        }
      | (Bootstrap, Absent) \<Rightarrow> do {
          (v, e) \<leftarrow> cancel_incomming sy v e;
          vd_set_status sy Absent v e
        }
      | (Zombie, Absent) \<Rightarrow> Some (v, e)
      | (Zombie, Ready) \<Rightarrow> vd_set_status sy Ready v e
      | (Absent, Ready) \<Rightarrow> do {
          (v, e) \<leftarrow> vd_set_status sy Bootstrap v e;
          start_bootstrap sy v e
        }
      | (Bootstrap, Ready) \<Rightarrow>
          if vs_pending_bootstrap (vd_state v) then start_bootstrap sy v e else Some (v, e)
      | (Ready, Ready) \<Rightarrow> Some (v, e)
      | (Absent, Absent) \<Rightarrow> Some (v, e))"

section \<open>The timer\<close>

fun tick_syncs :: "'db sys \<Rightarrow> vnode_state \<Rightarrow> (cookie \<times> synchronization) list \<Rightarrow> 'db env \<Rightarrow>
    ((cookie \<times> sync_result) list \<times> (cookie \<times> synchronization) list \<times> 'db env) option" where
  "tick_syncs sy st [] e = Some ([], [], e)"
| "tick_syncs sy st ((cookie, sync) # syncs) e = do {
     (result, sync, e) \<leftarrow> on_tick sy st sync e;
     (terminated, syncs, e) \<leftarrow> tick_syncs sy st syncs e;
     Some (if result = Continue then terminated else (cookie, result) # terminated, (cookie, sync) # syncs, e)
   }"

fun end_syncs :: "'db sys \<Rightarrow> (cookie \<times> sync_result) list \<Rightarrow> vnode \<Rightarrow> 'db env \<Rightarrow> (vnode \<times> 'db env) option" where
  "end_syncs sy [] v e = Some (v, e)"
| "end_syncs sy ((cookie, result) # terminated) v e = do {
     (v, e) \<leftarrow> remove_sync cookie v e;
     (v, e) \<leftarrow> (if vd_status v = Bootstrap then handle_bootstrap_result sy result v e else Some (v, e));
     end_syncs sy terminated v e
   }"

lemma ifm_pop_expired_heap:
  "ifm_pop_expired m now = (Some p, m') \<Longrightarrow> length (ifm_heap m') < length (ifm_heap m)"
proof (induction m now rule: ifm_pop_expired.induct)
  case (1 m now)
  then show ?case
    by (subst (asm) (2) ifm_pop_expired.simps,
        auto simp: Let_def split: option.splits if_splits dest!: heap_pop_length)
       (use less_trans in blast)
qed

function expire_requests :: "instant \<Rightarrow> (cookie, req_state, instant) in_flight_map \<Rightarrow> 'db env \<Rightarrow>
    (cookie, req_state, instant) in_flight_map \<times> 'db env" where
  "expire_requests now reqs e =
     (case ifm_pop_expired reqs now of
        (None, reqs) \<Rightarrow> (reqs, e)
      | (Some (cookie, r), reqs) \<Rightarrow>
          expire_requests now reqs (respond_error (ctx_clear (rq_context r)) Timeout e))"
  by pat_completeness auto
termination
  by (relation "measure (\<lambda>(_, reqs, _). length (ifm_heap reqs))") (auto dest: ifm_pop_expired_heap sym)

declare expire_requests.simps [simp del]

definition vd_handler_tick :: "'db sys \<Rightarrow> vnode \<Rightarrow> 'db env \<Rightarrow> (vnode \<times> 'db env) option" where
  "vd_handler_tick sy v e = do {
     (terminated, syncs, e) \<leftarrow> tick_syncs sy (vd_state v) (vd_syncs v) e;
     (v, e) \<leftarrow> end_syncs sy terminated (v\<lparr>vd_syncs := syncs\<rparr>) e;
     let (reqs, e) = expire_requests (sy_now sy) (vd_requests v) e;
     let v = v\<lparr>vd_requests := reqs\<rparr>;
     if vs_pending_bootstrap (vd_state v) then start_bootstrap sy v e
     else if vd_status v = Zombie \<and> ifm_map (vd_requests v) = [] \<and> vd_syncs v = [] \<and>
             elapsed sy (vs_last_status_change (vd_state v)) > ZOMBIE_TIMEOUT_MS
     then vd_set_status sy Absent v e
     else Some (v, e)
   }"

end
