(* ===== verification/VNode_Status.thy ===== *)
theory VNode_Status
  imports VNode
begin

text \<open>
  The discipline a vnode keeps: which synchronisations it may run in which status, and how the
  node's counters of running synchronisations follow them. Every handler of \<^verbatim>\<open>vnode.rs\<close> is shown to
  keep it; the assertions of \<^verbatim>\<open>set_status\<close> and \<^verbatim>\<open>start_bootstrap\<close> are consequences.
\<close>

section \<open>Steps that send no reply\<close>

fun is_reply :: "effect \<Rightarrow> bool" where
  "is_reply (Reply c) = True"
| "is_reply _ = False"

definition replies :: "'db env \<Rightarrow> effect list" where
  "replies e = filter is_reply (ev_effects e)"

definition sends :: "'db env \<Rightarrow> 'db env \<Rightarrow> bool" where
  "sends e e' \<longleftrightarrow> quiet e e' \<and> replies e' = replies e"

lemma sends_refl [simp, intro]: "sends e e"
  by (simp add: sends_def)

lemma sends_trans [trans]: "sends a b \<Longrightarrow> sends b c \<Longrightarrow> sends a c"
  using quiet_trans by (auto simp: sends_def)

lemma send_msg_sends: "send_msg sy node msg e = Some (res, e') \<Longrightarrow> sends e e'"
  by (auto simp: send_msg_def sends_def replies_def quiet_effects split: if_splits)

section \<open>What a synchronisation never changes\<close>

datatype sync_kind = Kind (kd_direction: sync_direction) (kd_bootstrap: bool) (kd_peer: node_id) (kd_cookie: cookie)

fun bootstraps :: "synchronization \<Rightarrow> bool" where
  "bootstraps (SyncSender _ _) = False"
| "bootstraps (SyncReceiver _ _) = False"
| "bootstraps (BootstrapSender _) = True"
| "bootstraps (BootstrapReceiver _) = True"

definition kind_of :: "synchronization \<Rightarrow> sync_kind" where
  "kind_of s = Kind (direction s) (bootstraps s) (sync_peer s) (sync_cookie s)"

lemma kind_of_touch [simp]: "kind_of (sync_touch now s) = kind_of s"
  by (cases s) (simp_all add: kind_of_def)

lemma receiver_send_start_keeps:
  "receiver_send_start sy st target cs r e = Some (res, r', e') \<Longrightarrow>
   sr_peer r' = sr_peer r \<and> sr_cookie r' = sr_cookie r \<and> sends e e'"
  by (auto simp: receiver_send_start_def Let_def bind_eq_Some_conv dest: send_msg_sends)

lemma send_start_keeps: "send_start sy st s e = Some (res, s', e') \<Longrightarrow> kind_of s' = kind_of s \<and> sends e e'"
  by (auto simp: send_start_def kind_of_def split: synchronization.splits dest!: receiver_send_start_keeps)

lemma send_fin_sends: "send_fin sy st peer cookie result e = Some (res, e') \<Longrightarrow> sends e e'"
  by (simp add: send_fin_def send_msg_sends)

lemma send_error_fin_keeps:
  "send_error_fin sy st error s e = Some (res, s', e') \<Longrightarrow> kind_of s' = kind_of s \<and> sends e e'"
  by (auto simp: send_error_fin_def bind_eq_Some_conv dest: send_fin_sends)

definition same_sender :: "sync_sender \<Rightarrow> sync_sender \<Rightarrow> bool" where
  "same_sender s s' \<longleftrightarrow> ss_peer s' = ss_peer s \<and> ss_cookie s' = ss_cookie s"

lemma sender_success_fin_keeps:
  "sender_success_fin sy st s e = Some (res, s', e') \<Longrightarrow> same_sender s s' \<and> sends e e'"
  by (auto simp: sender_success_fin_def same_sender_def bind_eq_Some_conv dest: send_fin_sends)

lemma resend_expired_keeps:
  assumes "resend_expired sy s e = Some (res, s', e')"
  shows "same_sender s s' \<and> sends e e'"
proof -
  have "case y of (res, s', e') \<Rightarrow> same_sender s s' \<and> sends e e'" if "resend_expired sy s e = Some y" for y
    using that
  proof (induction rule: resend_expired.raw_induct [rotated, consumes 1, case_names step])
    case (step f sy s e y)
    from step(2) show ?case
      by (auto simp: same_sender_def bind_eq_Some_conv split: prod.splits option.splits if_splits
          dest!: step(1) send_msg_sends intro: sends_trans)
  qed
  then show ?thesis
    using assms by blast
qed

lemma send_fresh_keeps: "send_fresh sy st s e = Some (res, s', e') \<Longrightarrow> same_sender s s' \<and> sends e e'"
proof (induction sy st s e arbitrary: res s' e' rule: send_fresh.induct)
  case (1 sy st s e)
  note IH = 1(1) [OF _ sym refl refl refl refl refl _ refl, simplified]
  from 1(2) show ?case
    by (subst (asm) send_fresh.simps)
       (auto simp: same_sender_def Let_def split: if_splits prod.splits res.splits option.splits
         dest: IH send_msg_sends intro: sends_trans)
qed

lemma sender_send_next_keeps:
  assumes "sender_send_next sy st variant s e = Some (res, sync, e')" and "variant \<in> range SyncSender \<union> {BootstrapSender}"
  shows "kind_of sync = kind_of (variant s) \<and> sends e e'"
proof -
  have kind: "same_sender a b \<Longrightarrow> kind_of (variant b) = kind_of (variant a)" for a b
    using assms(2) by (auto simp: kind_of_def same_sender_def)
  from assms(1) obtain res1 s1 e1 where s1: "resend_expired sy s e = Some (res1, s1, e1)"
    by (auto simp: sender_send_next_def bind_eq_Some_conv)
  note keeps1 = resend_expired_keeps [OF s1]
  show ?thesis
  proof (cases "res1 = Continue")
    case False
    then show ?thesis
      using assms(1) s1 keeps1 kind by (auto simp: sender_send_next_def)
  next
    case True
    with assms(1) s1 obtain res2 s2 e2 where s2: "send_fresh sy st s1 e1 = Some (res2, s2, e2)"
      by (auto simp: sender_send_next_def bind_eq_Some_conv)
    note keeps2 = send_fresh_keeps [OF s2]
    have same: "same_sender s s2" "sends e e2"
      using keeps1 keeps2 sends_trans by (auto simp: same_sender_def)
    have "kind_of sync = kind_of (variant s2) \<and> sends e2 e'"
      using assms(1) s1 s2 True kind
      by (auto simp: sender_send_next_def split: if_splits res.splits
          dest!: send_error_fin_keeps sender_success_fin_keeps)
    then show ?thesis
      using same kind sends_trans by auto
  qed
qed

lemma send_next_keeps: "send_next sy st s e = Some (res, s', e') \<Longrightarrow> kind_of s' = kind_of s \<and> sends e e'"
  by (auto simp: send_next_def split: synchronization.splits dest!: sender_send_next_keeps)

lemma on_cancel_keeps: "on_cancel sy st s e = Some (s', e') \<Longrightarrow> kind_of s' = kind_of s \<and> sends e e'"
  by (auto simp: on_cancel_def split: sync_direction.splits dest: send_error_fin_keeps)

lemma on_tick_keeps: "on_tick sy st s e = Some (res, s', e') \<Longrightarrow> kind_of s' = kind_of s \<and> sends e e'"
  by (auto simp: on_tick_def sender_tick_def receiver_tick_def split: synchronization.splits if_splits
      dest!: send_next_keeps send_start_keeps)

lemma on_start_keeps: "on_start sy st s e = Some (s', e') \<Longrightarrow> kind_of s' = kind_of s \<and> sends e e'"
  by (auto simp: on_start_def split: sync_direction.splits dest!: send_next_keeps send_start_keeps)

lemma on_msg_ack_keeps: "on_msg_ack sy msg s st e = Some (s', e') \<Longrightarrow> kind_of s' = kind_of s \<and> sends e e'"
  by (auto simp: on_msg_ack_def sender_ack_def kind_of_def split: synchronization.splits dest!: send_next_keeps)

section \<open>Steps that start and end no synchronisation\<close>

definition calm :: "'db env \<Rightarrow> 'db env \<Rightarrow> bool" where
  "calm e e' \<longleftrightarrow> ev_incomming_syncs e' = ev_incomming_syncs e \<and> ev_outgoing_syncs e' = ev_outgoing_syncs e"

lemma calm_refl [simp, intro]: "calm e e"
  by (simp add: calm_def)

lemma calm_trans [trans]: "calm a b \<Longrightarrow> calm b c \<Longrightarrow> calm a c"
  by (simp add: calm_def)

lemma quiet_calm: "quiet e e' \<Longrightarrow> calm e e'"
  by (simp add: calm_def quietD)

lemma sends_calm: "sends e e' \<Longrightarrow> calm e e'"
  by (simp add: sends_def quiet_calm)

lemma send_msg_calm: "send_msg sy node msg e = Some (res, e') \<Longrightarrow> calm e e'"
  by (rule sends_calm [OF send_msg_sends])

lemma vs_save_calm: "vs_save sy st shutdown e = Some e' \<Longrightarrow> calm e e'"
  by (auto simp: vs_save_def calm_def split: prod.splits res.splits)

text \<open>A change of status clears the mark of a pending bootstrap; the clocks are all else it may change.\<close>

lemma set_status_keeps:
  assumes "set_status sy new st e = Some (st', e')"
  shows "calm e e'" "vs_status st' = new" "vs_num st' = vs_num st" "vs_sync_nodes st' = vs_sync_nodes st"
    "new \<noteq> vs_status st \<Longrightarrow> \<not> vs_pending_bootstrap st'" "new = vs_status st \<Longrightarrow> st' = st"
    "new \<noteq> vs_status st \<Longrightarrow> new \<in> {Bootstrap, Absent} \<Longrightarrow> vs_sync_nodes st = []"
  using assms
  by (auto simp: set_status_def vs_clear_def Let_def bind_eq_Some_conv calm_def split: if_splits vnode_status.splits
      dest!: vs_save_calm)

definition same_syncs :: "vnode_state \<Rightarrow> vnode_state \<Rightarrow> bool" where
  "same_syncs st st' \<longleftrightarrow> vs_status st' = vs_status st \<and> vs_num st' = vs_num st \<and>
     vs_pending_bootstrap st' = vs_pending_bootstrap st \<and> vs_sync_nodes st' = vs_sync_nodes st"

lemma same_syncs_refl [simp]: "same_syncs st st"
  by (simp add: same_syncs_def)

lemma remote_batch_keeps:
  "remote_batch sy e ws st b rs = Some (st', x) \<Longrightarrow> same_syncs st st'"
proof (induction ws arbitrary: st b rs)
  case (Cons w ws)
  have "same_syncs (st\<lparr>vs_clocks := c\<rparr>) st' = same_syncs st st'" for c
    by (simp add: same_syncs_def)
  then show ?case
    using Cons.prems
    by (cases w) (auto simp: Let_def split: prod.splits res.splits option.splits if_splits dest!: Cons.IH)
qed simp

lemma storage_set_remote_keeps:
  "storage_set_remote sy ws st e = Some (res, st', e') \<Longrightarrow> same_syncs st st' \<and> calm e e'"
  by (auto simp: storage_set_remote_def calm_def bind_eq_Some_conv split: option.splits prod.splits res.splits
      dest!: remote_batch_keeps)

lemma run_dht_calm: "run_dht sy f e = (res, e') \<Longrightarrow> calm e e'"
  by (auto simp: run_dht_def calm_def split: prod.splits)

lemma on_msg_fin_keeps: "on_msg_fin sy msg s st e = Some (res, st', e') \<Longrightarrow> same_syncs st st' \<and> calm e e'"
  by (auto simp: on_msg_fin_def same_syncs_def Let_def bind_eq_Some_conv
      split: sync_direction.splits res.splits fabric_error.splits
      dest!: vs_save_calm send_msg_calm intro: calm_trans)

lemma on_msg_send_keeps:
  "on_msg_send sy msg s st e = Some (s', st', e') \<Longrightarrow> kind_of s' = kind_of s \<and> same_syncs st st' \<and> calm e e'"
  by (auto simp: on_msg_send_def receiver_msg_send_def kind_of_def bind_eq_Some_conv
      split: synchronization.splits if_splits
      dest!: storage_set_remote_keeps send_msg_calm intro: calm_trans)

section \<open>The invariant of a vnode\<close>

definition kinds :: "vnode \<Rightarrow> (cookie \<times> sync_kind) list" where
  "kinds v = map (apsnd kind_of) (vd_syncs v)"

text \<open>The synchronisations each status allows.\<close>

fun allowed :: "vnode_status \<Rightarrow> sync_kind \<Rightarrow> bool" where
  "allowed Ready k \<longleftrightarrow> \<not> (kd_direction k = Incomming \<and> kd_bootstrap k)"
| "allowed Bootstrap k \<longleftrightarrow> kd_direction k = Incomming \<and> kd_bootstrap k"
| "allowed Zombie k \<longleftrightarrow> kd_direction k = Outgoing"
| "allowed Absent k \<longleftrightarrow> False"

definition syncs_ok :: "vnode_state \<Rightarrow> (cookie \<times> sync_kind) list \<Rightarrow> bool" where
  "syncs_ok st ks \<longleftrightarrow>
     lm_wf ks \<and>
     (\<forall>(cookie, k)\<in>set ks. kd_cookie k = cookie \<and> allowed (vs_status st) k) \<and>
     (vs_status st = Bootstrap \<longrightarrow> length ks \<le> 1) \<and>
     (vs_pending_bootstrap st \<longrightarrow> vs_status st = Bootstrap \<and> ks = []) \<and>
     (\<forall>n\<in>set (vs_sync_nodes st). \<exists>k\<in>snd ` set ks. kd_direction k = Incomming \<and> \<not> kd_bootstrap k \<and> kd_peer k = n)"

definition vnode_ok :: "vnode \<Rightarrow> bool" where
  "vnode_ok v \<longleftrightarrow> syncs_ok (vd_state v) (kinds v)"

definition active :: "sync_direction \<Rightarrow> vnode \<Rightarrow> nat" where
  "active dir v = length (filter (\<lambda>(_, k). kd_direction k = dir) (kinds v))"

text \<open>
  A step of one vnode: it keeps the invariant and its number, and the counters of the node move with its
  synchronisations and not above their limits.
\<close>

definition tracks :: "'db sys \<Rightarrow> vnode \<Rightarrow> 'db env \<Rightarrow> vnode \<Rightarrow> 'db env \<Rightarrow> bool" where
  "tracks sy v e v' e' \<longleftrightarrow>
     vnode_ok v' \<and> vd_num v' = vd_num v \<and>
     unat (ev_incomming_syncs e') + active Incomming v = unat (ev_incomming_syncs e) + active Incomming v' \<and>
     unat (ev_outgoing_syncs e') + active Outgoing v = unat (ev_outgoing_syncs e) + active Outgoing v' \<and>
     (ev_incomming_syncs e \<le> cf_sync_incomming_max (sy_config sy) \<longrightarrow>
        ev_incomming_syncs e' \<le> cf_sync_incomming_max (sy_config sy)) \<and>
     (ev_outgoing_syncs e \<le> cf_sync_outgoing_max (sy_config sy) \<longrightarrow>
        ev_outgoing_syncs e' \<le> cf_sync_outgoing_max (sy_config sy))"

lemma tracks_ok: "tracks sy v e v' e' \<Longrightarrow> vnode_ok v'"
  by (simp add: tracks_def)

lemma tracks_trans [trans]: "tracks sy a e b f \<Longrightarrow> tracks sy b f c g \<Longrightarrow> tracks sy a e c g"
  by (simp add: tracks_def)

lemma tracks_calm:
  assumes "vnode_ok v" "calm e e'" "same_syncs (vd_state v) (vd_state v')" "kinds v' = kinds v"
  shows "tracks sy v e v' e'"
  using assms by (simp add: tracks_def calm_def same_syncs_def vnode_ok_def syncs_ok_def active_def)

lemma tracks_refl: "vnode_ok v \<Longrightarrow> calm e e' \<Longrightarrow> tracks sy v e v e'"
  by (simp add: tracks_calm)

lemma kinds_update:
  assumes "map_of (vd_syncs v) cookie = Some s" "kind_of s' = kind_of s"
  shows "map (apsnd kind_of) (AList.update cookie s' (vd_syncs v)) = kinds v"
proof -
  have "map_of m cookie = Some s \<Longrightarrow> map (apsnd kind_of) (AList.update cookie s' m) = map (apsnd kind_of) m" for m
    using assms(2) by (induction m) (auto split: if_splits)
  then show ?thesis
    using assms(1) by (simp add: kinds_def)
qed

lemma kinds_sel [simp]: "kinds (v\<lparr>vd_state := st\<rparr>) = kinds v" "kinds (v\<lparr>vd_requests := reqs\<rparr>) = kinds v"
  "kinds (v\<lparr>vd_syncs := ss\<rparr>) = map (apsnd kind_of) ss"
  by (simp_all add: kinds_def)

lemma map_of_kinds: "map_of (kinds v) cookie = map_option kind_of (map_of (vd_syncs v) cookie)"
  unfolding kinds_def by (induction "vd_syncs v" arbitrary: v rule: list.induct) (auto simp: apsnd_def map_prod_def map_of_map)

lemma kinds_delete: "map (apsnd kind_of) (AList.delete cookie m) = AList.delete cookie (map (apsnd kind_of) m)"
  by (induction m) auto

lemma kinds_fresh: "map_of m cookie = None \<Longrightarrow> map (apsnd kind_of) (AList.update cookie s m) = map (apsnd kind_of) m @ [(cookie, kind_of s)]"
  by (induction m) (auto split: if_splits)

lemma length_filter_delete:
  assumes "lm_wf ks" "map_of ks c = Some k"
  shows "length (filter P ks) = length (filter P (AList.delete c ks)) + (if P (c, k) then 1 else 0)"
  using assms
proof (induction ks)
  case (Cons p ks)
  show ?case
  proof (cases "fst p = c")
    case True
    then have "AList.delete c ks = ks"
      using Cons.prems by (auto simp: delete_id)
    then show ?thesis
      using True Cons.prems by auto
  next
    case False
    then show ?thesis
      using Cons by auto
  qed
qed simp

lemma unat_inc: "x < (y :: 'a :: len word) \<Longrightarrow> unat (x + 1) = Suc (unat x)"
  using unsigned_less [of y, where ?'a = nat] by (simp add: word_less_nat_alt unat_word_ariths del: unsigned_less)

lemma unat_dec: "x \<noteq> 0 \<Longrightarrow> unat (x - 1 :: 'a :: len word) = unat x - 1"
  by (simp add: unat_minus_one)

text \<open>The end of a synchronisation.\<close>

lemma remove_sync_tracks:
  assumes ok: "vnode_ok v" and run: "remove_sync cookie v e = Some (v', e')"
  shows "tracks sy v e v' e'" "vd_status v' = vd_status v" "kinds v' = AList.delete cookie (kinds v)"
proof -
  from run obtain s st e1 where s: "map_of (vd_syncs v) cookie = Some s" and r: "on_remove s (vd_state v) e = Some (st, e1)"
    and v': "v' = v\<lparr>vd_state := st, vd_syncs := AList.delete cookie (vd_syncs v)\<rparr>" "e' = e1"
    by (auto simp: remove_sync_def bind_eq_Some_conv)
  show kinds: "kinds v' = AList.delete cookie (kinds v)"
    by (simp add: v'(1) kinds_delete) (simp add: kinds_def)
  from r have st: "vs_status st = vd_status v" "vs_num st = vd_num v"
      "vs_pending_bootstrap st = vs_pending_bootstrap (vd_state v)"
      "vs_sync_nodes st = (if kd_direction (kind_of s) = Incomming \<and> \<not> kd_bootstrap (kind_of s)
        then removeAll (kd_peer (kind_of s)) (vs_sync_nodes (vd_state v)) else vs_sync_nodes (vd_state v))"
    and e1: "signal_sync_end (direction s) e = Some e1"
    by (auto simp: on_remove_def kind_of_def Let_def bind_eq_Some_conv split: synchronization.splits)
  show "vd_status v' = vd_status v"
    by (simp add: v' st)
  have k: "map_of (kinds v) cookie = Some (kind_of s)"
    using s by (simp add: map_of_kinds)
  note ok' = ok [unfolded vnode_ok_def syncs_ok_def]
  have nodes: "\<exists>k\<in>snd ` set (kinds v'). kd_direction k = Incomming \<and> \<not> kd_bootstrap k \<and> kd_peer k = n"
    if "n \<in> set (vs_sync_nodes st)" for n
  proof -
    have "n \<in> set (vs_sync_nodes (vd_state v))"
      using that st(4) by (auto split: if_splits)
    with ok' obtain c' k' where w: "(c', k') \<in> set (kinds v)" "kd_direction k' = Incomming" "\<not> kd_bootstrap k'" "kd_peer k' = n"
      by fastforce
    have "c' \<noteq> cookie"
    proof
      assume "c' = cookie"
      then have "k' = kind_of s"
        using w(1) k ok' by simp
      then show False
        using that st(4) w by simp
    qed
    then have "(c', k') \<in> set (kinds v')"
      using w(1) by (simp add: kinds AList.delete_eq)
    then show ?thesis
      using w by force
  qed
  have sub: "set (kinds v') \<subseteq> set (kinds v)" "length (kinds v') \<le> length (kinds v)" "lm_wf (kinds v')"
    using ok' by (auto simp: kinds AList.delete_eq distinct_map_filter)
  have st': "vd_state v' = st"
    by (simp add: v')
  have "kinds v \<noteq> []"
    using k by auto
  then have "vnode_ok v'"
    unfolding vnode_ok_def syncs_ok_def st' st(1-3)
  proof (intro conjI)
    show "\<forall>(cookie, k)\<in>set (kinds v'). kd_cookie k = cookie \<and> allowed (vd_status v) k"
      using ok' sub(1) by blast
    show "\<forall>n\<in>set (vs_sync_nodes st). \<exists>k\<in>snd ` set (kinds v'). kd_direction k = Incomming \<and> \<not> kd_bootstrap k \<and> kd_peer k = n"
      using nodes by blast
    show "vd_status v = Bootstrap \<longrightarrow> length (kinds v') \<le> 1"
      using ok' sub(2) le_trans by blast
  qed (use ok' sub(3) in simp_all)
  moreover have "active dir v = active dir v' + (if direction s = dir then 1 else 0)" for dir
    using length_filter_delete [OF _ k] ok' by (simp add: active_def kinds kind_of_def)
  ultimately show "tracks sy v e v' e'"
    using e1 by (auto simp: tracks_def v' st signal_sync_end_def unat_dec word_le_nat_alt unat_gt_0
        split: sync_direction.splits if_splits)
qed

text \<open>
  The start of a synchronisation: the node's counter was raised, and the vnode registers it, perhaps
  with its peer among those it synchronises with.
\<close>

lemma add_sync_tracks:
  assumes ok: "vnode_ok v" and start: "signal_sync_start sy (direction s) e = (True, e1)" "calm e1 e2"
    and run: "add_sync sy cookie s (v\<lparr>vd_state := st\<rparr>) e2 = Some (v', e')"
    and s: "sync_cookie s = cookie" "allowed (vd_status v) (kind_of s)" "vd_status v = Bootstrap \<Longrightarrow> vd_syncs v = []"
    and st: "vs_status st = vd_status v" "vs_num st = vd_num v" "\<not> vs_pending_bootstrap st"
      "\<And>n. n \<in> set (vs_sync_nodes st) \<Longrightarrow> n \<in> set (vs_sync_nodes (vd_state v)) \<or>
         direction s = Incomming \<and> \<not> bootstraps s \<and> sync_peer s = n"
  shows "tracks sy v e v' e'"
proof -
  from run obtain s' where s': "map_of (vd_syncs v) cookie = None" "on_start sy st s e2 = Some (s', e')"
    and v': "v' = v\<lparr>vd_state := st, vd_syncs := AList.update cookie s' (vd_syncs v)\<rparr>"
    by (auto simp: add_sync_def bind_eq_Some_conv split: option.splits)
  have st': "vd_state v' = st"
    by (simp add: v')
  note keeps = on_start_keeps [OF s'(2)]
  have kinds: "kinds v' = kinds v @ [(cookie, kind_of s)]"
    using s'(1) keeps by (simp add: v' kinds_fresh) (simp add: kinds_def)
  note ok' = ok [unfolded vnode_ok_def syncs_ok_def]
  have "cookie \<notin> fst ` set (kinds v)"
    using s'(1) by (simp add: kinds_def map_of_eq_None_iff image_image)
  have "vnode_ok v'"
    unfolding vnode_ok_def syncs_ok_def
  proof (intro conjI)
    show "lm_wf (kinds v')"
      using ok' \<open>cookie \<notin> fst ` set (kinds v)\<close> by (auto simp: kinds)
    show "\<forall>(c, k)\<in>set (kinds v'). kd_cookie k = c \<and> allowed (vd_status v') k"
      using ok' s(1,2) by (simp add: kinds st' st) (simp add: kind_of_def)
    show "vd_status v' = Bootstrap \<longrightarrow> length (kinds v') \<le> 1"
      using s(3) by (simp add: kinds st' st) (simp add: kinds_def)
    show "vs_pending_bootstrap (vd_state v') \<longrightarrow> vd_status v' = Bootstrap \<and> kinds v' = []"
      by (simp add: st' st)
    show "\<forall>n\<in>set (vs_sync_nodes (vd_state v')). \<exists>k\<in>snd ` set (kinds v').
        kd_direction k = Incomming \<and> \<not> kd_bootstrap k \<and> kd_peer k = n"
    proof
      fix n assume "n \<in> set (vs_sync_nodes (vd_state v'))"
      then have "n \<in> set (vs_sync_nodes (vd_state v)) \<or> direction s = Incomming \<and> \<not> bootstraps s \<and> sync_peer s = n"
        using st(4) by (simp add: st')
      then show "\<exists>k\<in>snd ` set (kinds v'). kd_direction k = Incomming \<and> \<not> kd_bootstrap k \<and> kd_peer k = n"
        using ok' by (auto simp: kinds kind_of_def)
    qed
  qed
  moreover have "active dir v' = active dir v + (if direction s = dir then 1 else 0)" for dir
    by (simp add: active_def kinds kind_of_def)
  moreover have "calm e1 e'"
    using start(2) keeps sends_calm calm_trans by blast
  ultimately show ?thesis
    using start(1)
    by (auto simp: tracks_def calm_def st' st signal_sync_start_def unat_inc inc_le
        split: sync_direction.splits if_splits)
qed

section \<open>Changes of status\<close>

lemma vd_set_status_tracks:
  assumes ok: "vnode_ok v" and run: "vd_set_status sy new v e = Some (v', e')"
    and fits: "\<And>c k. (c, k) \<in> set (kinds v) \<Longrightarrow> allowed new k" "new = Bootstrap \<Longrightarrow> kinds v = []"
  shows "tracks sy v e v' e'"
proof -
  from run obtain st where st: "set_status sy new (vd_state v) e = Some (st, e')" "v' = v\<lparr>vd_state := st\<rparr>"
    by (auto simp: vd_set_status_def)
  note keeps = set_status_keeps [OF st(1)]
  show ?thesis
  proof (cases "new = vd_status v")
    case True
    then show ?thesis
      using keeps(1,6) st(2) ok by (simp add: tracks_refl)
  next
    case False
    have "syncs_ok st (kinds v)"
      using ok keeps(2,4) keeps(5) [OF False] fits unfolding vnode_ok_def syncs_ok_def by auto
    then show ?thesis
      using keeps(1,3) by (simp add: tracks_def vnode_ok_def st(2) calm_def active_def)
  qed
qed

lemma bootstrap_done_tracks:
  assumes "vnode_ok v" "kinds v = []" "bootstrap_done sy v e = Some (v', e')"
  shows "tracks sy v e v' e'"
proof -
  obtain res e1 where d: "run_dht sy (dht_promote_pending_node (sy_ring_codec sy) (this_node e) (vd_num v)) e = (res, e1)"
    by (metis surj_pair)
  with assms(3) obtain status where "status \<noteq> Bootstrap" "vd_set_status sy status v e1 = Some (v', e')"
    by (cases res) (auto simp: bootstrap_done_def)
  then have "tracks sy v e1 v' e'"
    using assms(1,2) by (intro vd_set_status_tracks) auto
  then show ?thesis
    using tracks_refl [OF assms(1) run_dht_calm [OF d]] by (rule tracks_trans [rotated])
qed

lemma start_bootstrap_tracks:
  assumes ok: "vnode_ok v" and run: "start_bootstrap sy v e = Some (v', e')"
  shows "tracks sy v e v' e'"
proof -
  let ?v = "\<lambda>b. v\<lparr>vd_state := (vd_state v)\<lparr>vs_pending_bootstrap := b\<rparr>\<rparr>"
  obtain cookie e1 where g: "gen_cookie sy e = (cookie, e1)"
    by (metis surj_pair)
  have e1: "calm e e1"
    using g by (auto simp: gen_cookie_def calm_def)
  have b: "vd_status v = Bootstrap" "vd_syncs v = []"
    using run by (auto simp: start_bootstrap_def split: if_splits)
  then have empty: "kinds v = []"
    by (simp add: kinds_def)
  have ok_b: "vnode_ok (?v x)" for x
    using ok b empty by (simp add: vnode_ok_def syncs_ok_def)
  have mark: "tracks sy v e (?v x) e2" if "calm e e2" for x e2
    using ok_b that by (simp add: tracks_def calm_def active_def)
  from run b g obtain nodes where nodes: "nodes_for_vnode (ev_dht e1) (vd_num v) False True = Some nodes"
    by (auto simp: start_bootstrap_def Let_def bind_eq_Some_conv)
  let ?nodes = "filter (\<lambda>n. n \<in> set (sy_connections sy)) nodes"
  show ?thesis
  proof (cases "?nodes = [] \<or> ?nodes = [this_node e1]")
    case True
    then have "bootstrap_done sy (?v False) e1 = Some (v', e')"
      using run b g nodes by (simp add: start_bootstrap_def Let_def)
    then have "tracks sy (?v False) e1 v' e'"
      using ok_b empty by (intro bootstrap_done_tracks) auto
    with mark [OF e1] show ?thesis
      by (rule tracks_trans)
  next
    case False
    then obtain node where node: "first_peer (this_node e1) (shuffle sy ?nodes) = Some node"
      using run b g nodes by (auto simp: start_bootstrap_def Let_def bind_eq_Some_conv)
    obtain started e2 where sig: "signal_sync_start sy Incomming e1 = (started, e2)"
      by (metis surj_pair)
    note run' = run [unfolded start_bootstrap_def Let_def] b g nodes False node sig
    show ?thesis
    proof (cases started)
      case True
      then have "add_sync sy cookie (new_bootstrap_receiver sy node cookie) (?v False) e2 = Some (v', e')"
        using run' by simp
      then have "tracks sy v e1 v' e'"
        using True sig b ok
        by (intro add_sync_tracks [where s = "new_bootstrap_receiver sy node cookie" and
              st = "(vd_state v)\<lparr>vs_pending_bootstrap := False\<rparr>"])
           (auto simp: new_bootstrap_receiver_def receiver_new_def kind_of_def)
      then show ?thesis
        using tracks_refl [OF ok e1] by (rule tracks_trans [rotated])
    next
      case False
      then have "v' = ?v True" "e' = e2" "e2 = e1"
        using run' by (auto simp: signal_sync_start_def split: if_splits)
      then show ?thesis
        using mark [OF e1] by simp
    qed
  qed
qed

section \<open>Requests\<close>

text \<open>An idle step leaves the synchronisations alone.\<close>

definition idle :: "vnode \<Rightarrow> 'db env \<Rightarrow> vnode \<Rightarrow> 'db env \<Rightarrow> bool" where
  "idle v e v' e' \<longleftrightarrow> calm e e' \<and> same_syncs (vd_state v) (vd_state v') \<and> vd_syncs v' = vd_syncs v"

lemma idle_refl [simp]: "idle v e v e"
  by (simp add: idle_def)

lemma idle_trans [trans]: "idle a e b f \<Longrightarrow> idle b f c g \<Longrightarrow> idle a e c g"
  by (auto simp: idle_def same_syncs_def intro: calm_trans)

lemma idle_calm: "calm e e' \<Longrightarrow> idle v e v e'"
  by (simp add: idle_def)

lemma idle_tracks: "vnode_ok v \<Longrightarrow> idle v e v' e' \<Longrightarrow> tracks sy v e v' e'"
  by (rule tracks_calm) (simp_all add: idle_def kinds_def)

lemma process_reply_idle: "process_reply update render cookie response v e = Some (b, v', e') \<Longrightarrow> idle v e v' e'"
  by (auto simp: process_reply_def idle_def Let_def quiet_calm split: option.splits if_splits)

lemma process_idle:
  "process_get cookie r v e = Some (b, v', e') \<Longrightarrow> idle v e v' e'"
  "process_set cookie s v e = Some (b, v', e') \<Longrightarrow> idle v e v' e'"
  by (simp_all add: process_get_def process_set_def process_reply_idle)

lemma send_each_idle:
  assumes "\<And>err v e b v' e'. process err v e = Some (b, v', e') \<Longrightarrow> idle v e v' e'"
  shows "send_each sy msg process nodes v e = Some (b, v', e') \<Longrightarrow> idle v e v' e'"
proof (induction nodes arbitrary: v e)
  case (Cons node nodes)
  show ?case
  proof (cases "node = this_node e")
    case True
    then show ?thesis
      using Cons by simp
  next
    case False
    with Cons.prems obtain res e1 where send: "send_msg sy node msg e = Some (res, e1)"
      by (auto simp: bind_eq_Some_conv)
    have "idle v e v e1"
      using send_msg_calm [OF send] by (rule idle_calm)
    moreover have "idle v e1 v' e'"
      using Cons.prems False send Cons.IH
      by (auto simp: bind_eq_Some_conv split: res.splits if_splits dest: assms intro: idle_trans)
    ultimately show ?thesis
      by (rule idle_trans)
  qed
qed simp

lemma gen_cookie_calm: "gen_cookie sy e = (cookie, e') \<Longrightarrow> calm e e'"
  by (auto simp: gen_cookie_def calm_def)

lemma requests_idle: "idle (v\<lparr>vd_requests := reqs\<rparr>) e v' e' \<Longrightarrow> idle v e v' e'"
  by (simp add: idle_def)

lemma do_get_idle:
  assumes "do_get sy keys consistency render c v e = Some (res, c', v', e')"
  shows "idle v e v' e'"
proof -
  obtain cookie e1 where g: "gen_cookie sy e = (cookie, e1)"
    by (metis surj_pair)
  have "idle v e v e1"
    using gen_cookie_calm [OF g] by (rule idle_calm)
  moreover have "(v' = v \<and> e' = e) \<or> idle v e1 v' e'"
    using assms
    by (auto simp: do_get_def g Let_def bind_eq_Some_conv split: if_splits
        dest!: process_idle send_each_idle [rotated] dest: requests_idle
        intro: requests_idle idle_trans)
  ultimately show ?thesis
    using idle_trans by auto
qed

lemma run_mutators_keeps: "run_mutators sy e ws st = Some (error, ws', st') \<Longrightarrow> same_syncs st st'"
proof (induction ws arbitrary: st error ws')
  case (Cons w ws)
  have "same_syncs (st\<lparr>vs_clocks := c\<rparr>) st' = same_syncs st st'" for c
    by (simp add: same_syncs_def)
  then show ?case
    using Cons.prems
    by (auto simp: Let_def same_syncs_def [of st "st\<lparr>vs_clocks := _\<rparr>"] split: res.splits prod.splits option.splits
        dest!: Cons.IH)
qed simp

lemma storage_set_local_calm: "storage_set_local sy st ws e = Some (res, e') \<Longrightarrow> calm e e'"
  by (auto simp: storage_set_local_def calm_def split: option.splits prod.splits res.splits)

lemma respond_cant_coordinate_calm: "respond_cant_coordinate sy status c v e = Some e' \<Longrightarrow> calm e e'"
  by (cases status)
     (auto simp: respond_cant_coordinate_def Let_def bind_eq_Some_conv respond_moved_def respond_ask_def quiet_calm
       split: list.splits option.splits)

lemma do_flush_idle:
  assumes "do_flush sy consistency c v e = Some (res, c', v', e')"
  shows "idle v e v' e'"
proof (cases "vd_status v = Ready")
  case False
  then show ?thesis
    using assms by (auto simp: do_flush_def intro: idle_calm respond_cant_coordinate_calm)
next
  case True
  with assms obtain error ws st where m: "run_mutators sy e (cx_writes c) (vd_state v) = Some (error, ws, st)"
    by (auto simp: do_flush_def bind_eq_Some_conv)
  let ?v = "v\<lparr>vd_state := st\<rparr>"
  have clocks: "idle v e ?v e"
    using run_mutators_keeps [OF m] by (simp add: idle_def)
  show ?thesis
  proof (cases error)
    case (Some err)
    then show ?thesis
      using assms True m clocks by (auto simp: do_flush_def)
  next
    case None
    obtain cookie e1 where g: "gen_cookie sy e = (cookie, e1)"
      by (metis surj_pair)
    from assms True m None g obtain stored e2 where set:
        "storage_set_local sy st (map (\<lambda>w. (cwr_version w, cwr_key w, cwr_cube w)) ws) e1 = Some (stored, e2)"
      by (auto simp: do_flush_def Let_def bind_eq_Some_conv)
    have "idle ?v e ?v e2"
      using gen_cookie_calm [OF g] storage_set_local_calm [OF set] idle_calm calm_trans by blast
    moreover have "idle ?v e2 v' e'"
      using assms True m None g set
      by (cases stored) (auto simp: do_flush_def Let_def bind_eq_Some_conv split: if_splits
          dest!: process_idle send_each_idle [rotated] dest: requests_idle
          intro: requests_idle idle_trans)
    ultimately show ?thesis
      using clocks idle_trans by blast
  qed
qed

lemma send_ignore_calm: "send_ignore sy node msg e = Some e' \<Longrightarrow> calm e e'"
  by (auto simp: send_ignore_def intro: send_msg_calm)

lemma send_fin_error_idle: "send_fin_error sy from num cookie err v e = Some (v', e') \<Longrightarrow> idle v e v' e'"
  by (auto simp: send_fin_error_def intro: idle_calm send_ignore_calm)

lemma handler_get_remote_idle: "handler_get_remote sy from msg v e = Some (v', e') \<Longrightarrow> idle v e v' e'"
  by (auto simp: handler_get_remote_def Let_def bind_eq_Some_conv split: if_splits intro: idle_calm send_ignore_calm)

lemma handler_set_remote_idle: "handler_set_remote sy from msg v e = Some (v', e') \<Longrightarrow> idle v e v' e'"
  by (auto simp: handler_set_remote_def Let_def bind_eq_Some_conv idle_def split: if_splits
      dest!: storage_set_remote_keeps send_ignore_calm intro: calm_trans)

lemma handler_ack_idle:
  "handler_get_remote_ack ga v e = Some (v', e') \<Longrightarrow> idle v e v' e'"
  "handler_set_remote_ack sa v e = Some (v', e') \<Longrightarrow> idle v e v' e'"
  by (auto simp: handler_get_remote_ack_def handler_set_remote_ack_def dest: process_idle)

lemmas idle_handlers =
  do_get_idle do_flush_idle handler_get_remote_idle handler_set_remote_idle handler_ack_idle send_fin_error_idle

section \<open>Synchronisation handlers\<close>

lemma signal_sync_start_refused: "signal_sync_start sy dir e = (False, e') \<Longrightarrow> e' = e"
  by (auto simp: signal_sync_start_def split: sync_direction.splits if_splits)

lemma handler_sync_start_tracks:
  assumes ok: "vnode_ok v" and run: "handler_sync_start sy from msg v e = Some (v', e')"
  shows "tracks sy v e v' e'"
proof -
  obtain started e1 where sig: "signal_sync_start sy Outgoing e = (started, e1)"
    by (metis surj_pair)
  consider "idle v e v' e'"
    | s where "vd_status v \<in> {Ready, Zombie}" "started" "direction s = Outgoing" "sync_cookie s = mss_cookie msg"
      "add_sync sy (mss_cookie msg) s v e1 = Some (v', e')"
  proof (cases "vd_status v \<in> {Ready, Zombie} \<and> map_of (vd_syncs v) (mss_cookie msg) = None \<and> started \<and>
      \<not> (vd_status v = Zombie \<and> \<not> elapsed sy (vs_last_status_change (vd_state v)) < ZOMBIE_TIMEOUT_MS)")
    case True
    then obtain s where s: "(case mss_target msg of
          None \<Rightarrow> Some (new_bootstrap_sender sy (vd_state v) e1 from msg)
        | Some target \<Rightarrow> if target = this_node e1 then new_sync_sender sy (vd_state v) e1 from msg else None) = Some s"
        "add_sync sy (mss_cookie msg) s v e1 = Some (v', e')"
      using run sig by (auto simp: handler_sync_start_def Let_def bind_eq_Some_conv)
    then have "direction s = Outgoing" "sync_cookie s = mss_cookie msg"
      by (auto simp: new_bootstrap_sender_def new_sync_sender_def sender_new_def Let_def split: option.splits if_splits)
    with True s(2) that(2) show ?thesis
      by blast
  next
    case False
    then have "idle v e v' e'"
      using run sig
      by (auto simp: handler_sync_start_def Let_def split: if_splits
          dest: send_fin_error_idle signal_sync_start_refused)
    then show ?thesis
      by (rule that(1))
  qed
  then show ?thesis
  proof cases
    case 1
    with ok show ?thesis
      by (rule idle_tracks)
  next
    case (2 s)
    then show ?thesis
      using ok sig
      by (intro add_sync_tracks [where s = s and st = "vd_state v"])
         (auto simp: kind_of_def vnode_ok_def syncs_ok_def)
  qed
qed

lemma tracks_replace:
  assumes "vnode_ok v" "map_of (vd_syncs v) cookie = Some s" "kind_of s' = kind_of s" "same_syncs (vd_state v) st" "calm e e'"
  shows "tracks sy v e (v\<lparr>vd_state := st, vd_syncs := AList.update cookie s' (vd_syncs v)\<rparr>) e'"
  by (rule tracks_calm) (use assms kinds_update in simp_all)

lemma handler_sync_send_tracks:
  assumes "vnode_ok v" "handler_sync_send sy from msg v e = Some (v', e')"
  shows "tracks sy v e v' e'"
  using assms
  by (auto simp: handler_sync_send_def bind_eq_Some_conv split: if_splits option.splits
      dest!: on_msg_send_keeps send_fin_error_idle intro: idle_tracks tracks_replace)

lemma handler_sync_ack_tracks:
  assumes ok: "vnode_ok v" and run: "handler_sync_ack sy from msg v e = Some (v', e')"
  shows "tracks sy v e v' e'"
proof (cases "vd_status v \<in> {Ready, Zombie} \<and> map_of (vd_syncs v) (msa_cookie msg) \<noteq> None")
  case True
  then obtain s s' where s: "map_of (vd_syncs v) (msa_cookie msg) = Some s"
    "on_msg_ack sy msg s (vd_state v) e = Some (s', e')"
    "v' = v\<lparr>vd_syncs := AList.update (msa_cookie msg) s' (vd_syncs v)\<rparr>"
    using run by (auto simp: handler_sync_ack_def bind_eq_Some_conv)
  show ?thesis
    using tracks_replace [OF ok s(1), of s' "vd_state v" e e' sy] on_msg_ack_keeps [OF s(2)] s(3)
    by (simp add: sends_calm)
next
  case False
  then have "idle v e v' e'"
    using run by (auto simp: handler_sync_ack_def split: if_splits option.splits dest: send_fin_error_idle)
  with ok show ?thesis
    by (rule idle_tracks)
qed

lemma handle_bootstrap_result_tracks:
  assumes "vnode_ok v" "handle_bootstrap_result sy result v e = Some (v', e')" "result = Done \<Longrightarrow> kinds v = []"
  shows "tracks sy v e v' e'"
  using assms
  by (auto simp: handle_bootstrap_result_def split: sync_result.splits
      intro: start_bootstrap_tracks bootstrap_done_tracks tracks_refl)

text \<open>A bootstrapping vnode has one synchronisation, so removing one leaves none.\<close>

lemma bootstrap_removed:
  assumes "vnode_ok v" "vd_status v = Bootstrap" "map_of (vd_syncs v) cookie = Some s"
  shows "AList.delete cookie (kinds v) = []"
proof -
  have "length (kinds v) \<le> 1" "map_of (kinds v) cookie = Some (kind_of s)"
    using assms by (auto simp: vnode_ok_def syncs_ok_def map_of_kinds)
  then show ?thesis
    by (cases "kinds v") (auto split: if_splits)
qed

lemma handler_sync_fin_tracks:
  assumes ok: "vnode_ok v" and run: "handler_sync_fin sy from msg v e = Some (v', e')"
  shows "tracks sy v e v' e'"
proof (cases "vd_status v \<in> {Ready, Zombie, Bootstrap} \<and> map_of (vd_syncs v) (msf_cookie msg) \<noteq> None")
  case False
  then have "idle v e v' e'"
    using run by (auto simp: handler_sync_fin_def split: if_splits option.splits res.splits dest: send_fin_error_idle)
  with ok show ?thesis
    by (rule idle_tracks)
next
  case True
  then obtain s where s: "map_of (vd_syncs v) (msf_cookie msg) = Some s"
    by auto
  with True run obtain result st e1 where fin: "on_msg_fin sy msg s (vd_state v) e = Some (result, st, e1)"
    by (auto simp: handler_sync_fin_def bind_eq_Some_conv)
  let ?v = "v\<lparr>vd_state := st\<rparr>"
  have t1: "tracks sy v e ?v e1"
    using on_msg_fin_keeps [OF fin] ok by (intro tracks_calm) auto
  show ?thesis
  proof (cases "result = Continue")
    case True
    then show ?thesis
      using run fin s t1 \<open>_ \<and> map_of (vd_syncs v) (msf_cookie msg) \<noteq> None\<close>
      by (auto simp: handler_sync_fin_def handle_bootstrap_result_def Let_def split: if_splits)
  next
    case False
    with run fin s True obtain v2 e2 where rm: "remove_sync (msf_cookie msg) ?v e1 = Some (v2, e2)"
      and rest: "(if vd_status v2 = Bootstrap then handle_bootstrap_result sy result v2 e2 else Some (v2, e2)) = Some (v', e')"
      by (auto simp: handler_sync_fin_def bind_eq_Some_conv split: if_splits)
    note t2 = remove_sync_tracks [OF tracks_ok [OF t1] rm]
    have "tracks sy v2 e2 v' e'"
    proof (cases "vd_status v2 = Bootstrap")
      case True
      then have "kinds v2 = []"
        using bootstrap_removed [OF tracks_ok [OF t1], of "msf_cookie msg" s] t2(2,3) s by simp
      then show ?thesis
        using rest True tracks_ok [OF t2(1)] by (auto intro: handle_bootstrap_result_tracks)
    next
      case False
      then show ?thesis
        using rest tracks_ok [OF t2(1)] by (auto intro: tracks_refl)
    qed
    with t1 t2(1) show ?thesis
      by (blast intro: tracks_trans)
  qed
qed

lemma start_sync_with_tracks:
  assumes "vnode_ok v" "vd_status v = Ready" "start_sync_with sy nodes v e = Some (started, v', e')"
  shows "tracks sy v e v' e'"
  using assms(3)
proof (induction nodes arbitrary: e)
  case Nil
  then show ?case
    using assms(1) by (simp add: tracks_refl)
next
  case (Cons node nodes)
  obtain ok e1 where sig: "signal_sync_start sy Incomming e = (ok, e1)"
    by (metis surj_pair)
  show ?case
  proof (cases "node = this_node e \<or> \<not> ok")
    case True
    then have "start_sync_with sy nodes v e = Some (started, v', e')"
      using Cons.prems sig signal_sync_start_refused [of sy Incomming e e1] by (auto split: if_splits)
    then show ?thesis
      by (rule Cons.IH)
  next
    case False
    obtain cookie e2 where g: "gen_cookie sy e1 = (cookie, e2)"
      by (metis surj_pair)
    let ?st = "(vd_state v)\<lparr>vs_sync_nodes := List.insert node (vs_sync_nodes (vd_state v))\<rparr>"
    have "add_sync sy cookie (new_sync_receiver sy ?st node cookie) (v\<lparr>vd_state := ?st\<rparr>) e2 = Some (v', e')"
      using Cons.prems False sig g by (auto simp: Let_def bind_eq_Some_conv)
    then show ?thesis
      using assms(1,2) False sig gen_cookie_calm [OF g]
      by (intro add_sync_tracks [where s = "new_sync_receiver sy ?st node cookie" and st = ?st])
         (auto simp: new_sync_receiver_def receiver_new_def kind_of_def vnode_ok_def syncs_ok_def)
  qed
qed

lemma start_sync_if_ready_tracks:
  assumes "vnode_ok v" "start_sync_if_ready sy v e = Some (started, v', e')"
  shows "tracks sy v e v' e'"
  using assms
  by (auto simp: start_sync_if_ready_def do_start_sync_def bind_eq_Some_conv tracks_refl split: if_splits
      intro: start_sync_with_tracks)

section \<open>Changes of the ring\<close>

lemma cancel_syncs_keeps:
  assumes "cancel_syncs sy st ss e = Some (canceled, ss', e')"
  shows "calm e e'" "map (apsnd kind_of) ss' = map (apsnd kind_of) ss"
    "canceled = map fst (filter (\<lambda>(_, s). direction s = Incomming) ss)"
proof -
  have "calm e e' \<and> map (apsnd kind_of) ss' = map (apsnd kind_of) ss \<and>
      canceled = map fst (filter (\<lambda>(_, s). direction s = Incomming) ss)"
    using assms
  proof (induction ss arbitrary: e canceled ss')
    case (Cons p ss)
    obtain cookie s where p: "p = (cookie, s)"
      by (cases p)
    show ?case
      using Cons.prems
      by (auto simp: p bind_eq_Some_conv split: sync_direction.splits
          dest!: Cons.IH on_cancel_keeps dest: sends_calm calm_trans)
  qed simp
  then show "calm e e'" "map (apsnd kind_of) ss' = map (apsnd kind_of) ss"
    "canceled = map fst (filter (\<lambda>(_, s). direction s = Incomming) ss)"
    by simp_all
qed

lemma remove_syncs_tracks:
  assumes "vnode_ok v" "remove_syncs cookies v e = Some (v', e')"
  shows "tracks sy v e v' e' \<and> vd_status v' = vd_status v \<and>
    set (kinds v') = {p \<in> set (kinds v). fst p \<notin> set cookies}"
  using assms
proof (induction cookies arbitrary: v e)
  case (Cons cookie cookies)
  then obtain v1 e1 where rm: "remove_sync cookie v e = Some (v1, e1)" "remove_syncs cookies v1 e1 = Some (v', e')"
    by (auto simp: bind_eq_Some_conv)
  note t = remove_sync_tracks [OF Cons.prems(1) rm(1)]
  show ?case
    using Cons.IH [OF tracks_ok [OF t(1)] rm(2)] tracks_trans [OF t(1)] t(2,3) by (auto simp: AList.delete_eq)
qed (auto intro: tracks_refl)

lemma cancel_incomming_tracks:
  assumes ok: "vnode_ok v" and run: "cancel_incomming sy v e = Some (v', e')"
  shows "tracks sy v e v' e'" "vd_status v' = vd_status v"
    "set (kinds v') = {p \<in> set (kinds v). kd_direction (snd p) = Outgoing}"
proof -
  from run obtain canceled ss e1 where c: "cancel_syncs sy (vd_state v) (vd_syncs v) e = Some (canceled, ss, e1)"
    and r: "remove_syncs canceled (v\<lparr>vd_syncs := ss\<rparr>) e1 = Some (v', e')"
    by (auto simp: cancel_incomming_def bind_eq_Some_conv)
  note keeps = cancel_syncs_keeps [OF c]
  have kinds: "kinds (v\<lparr>vd_syncs := ss\<rparr>) = kinds v"
    using keeps(2) by (simp add: kinds_def)
  have t1: "tracks sy v e (v\<lparr>vd_syncs := ss\<rparr>) e1"
    using ok keeps(1) kinds by (intro tracks_calm) simp_all
  note t2 = remove_syncs_tracks [OF tracks_ok [OF t1] r, of sy]
  show "tracks sy v e v' e'" "vd_status v' = vd_status v"
    using t1 t2 tracks_trans by auto
  have canceled: "set canceled = {c. \<exists>k. (c, k) \<in> set (kinds v) \<and> kd_direction k = Incomming}"
    by (force simp: keeps(3) kinds_def kind_of_def)
  have "fst p \<notin> set canceled \<longleftrightarrow> kd_direction (snd p) = Outgoing" if "p \<in> set (kinds v)" for p
  proof -
    have uniq: "k = snd p" if "(fst p, k) \<in> set (kinds v)" for k
      using that \<open>p \<in> set (kinds v)\<close> ok
      by (metis (no_types, lifting) eq_key_imp_eq_value prod.collapse syncs_ok_def vnode_ok_def)
    show ?thesis
      using that uniq sync_direction.exhaust by (cases "kd_direction (snd p)") (force simp: canceled)+
  qed
  then show "set (kinds v') = {p \<in> set (kinds v). kd_direction (snd p) = Outgoing}"
    using t2 unfolding kinds by blast
qed

lemma no_syncs: "vnode_ok v \<Longrightarrow> vd_status v = Absent \<Longrightarrow> kinds v = []"
  unfolding vnode_ok_def syncs_ok_def by (cases "kinds v") auto

lemma vd_handler_dht_change_tracks:
  assumes ok: "vnode_ok v" and run: "vd_handler_dht_change sy x v e = Some (v', e')"
  shows "tracks sy v e v' e'"
proof -
  have cancel: "tracks sy v e v' e'"
    if "cancel_incomming sy v e = Some (v1, e1)" "vd_set_status sy new v1 e1 = Some (v', e')"
      "\<And>k. allowed (vd_status v) k \<Longrightarrow> kd_direction k = Outgoing \<Longrightarrow> allowed new k" "new \<noteq> Bootstrap" for new v1 e1
  proof -
    note c = cancel_incomming_tracks [OF ok that(1)]
    have "allowed new k" if k: "(c, k) \<in> set (kinds v1)" for c k
      using ok k c(3) \<open>\<And>k. allowed (vd_status v) k \<Longrightarrow> kd_direction k = Outgoing \<Longrightarrow> allowed new k\<close>
      unfolding vnode_ok_def syncs_ok_def by fastforce
    then have "tracks sy v1 e1 v' e'"
      using that(4) by (intro vd_set_status_tracks [OF tracks_ok [OF c(1)] that(2)]) auto
    with c(1) show ?thesis
      by (rule tracks_trans)
  qed
  have boot: "tracks sy v e v' e'"
    if "vd_status v = Absent" "vd_set_status sy Bootstrap v e = Some (v1, e1)" "start_bootstrap sy v1 e1 = Some (v', e')" for v1 e1
  proof -
    have "tracks sy v e v1 e1"
      using no_syncs [OF ok that(1)] by (intro vd_set_status_tracks [OF ok that(2)]) auto
    then show ?thesis
      using start_bootstrap_tracks [OF tracks_ok that(3)] tracks_trans by blast
  qed
  have zombie: "allowed Ready k" if "allowed Zombie k" for k
    using that by simp
  have revive: "tracks sy v e v' e'" if "vd_status v = Zombie" "vd_set_status sy Ready v e = Some (v', e')"
    using that ok zombie by (intro vd_set_status_tracks [OF ok that(2)]) (auto simp: vnode_ok_def syncs_ok_def)
  show ?thesis
    using run ok
    by (cases "vd_status v"; cases x)
       (auto simp: vd_handler_dht_change_def bind_eq_Some_conv tracks_refl split: if_splits
         intro: cancel boot revive start_bootstrap_tracks)
qed

section \<open>The timer and the start\<close>

lemma tick_syncs_keeps:
  "tick_syncs sy st ss e = Some (terminated, ss', e') \<Longrightarrow>
   calm e e' \<and> map (apsnd kind_of) ss' = map (apsnd kind_of) ss"
proof (induction ss arbitrary: e terminated ss')
  case (Cons p ss)
  then show ?case
    by (cases p) (auto simp: bind_eq_Some_conv dest!: Cons.IH on_tick_keeps dest: sends_calm calm_trans)
qed simp

lemma end_syncs_tracks:
  "vnode_ok v \<Longrightarrow> end_syncs sy terminated v e = Some (v', e') \<Longrightarrow> tracks sy v e v' e'"
proof (induction terminated arbitrary: v e)
  case (Cons p terminated)
  obtain cookie result where p: "p = (cookie, result)"
    by (cases p)
  with Cons.prems(2) obtain v1 e1 v2 e2 where rm: "remove_sync cookie v e = Some (v1, e1)"
    and b: "(if vd_status v1 = Bootstrap then handle_bootstrap_result sy result v1 e1 else Some (v1, e1)) = Some (v2, e2)"
    and rest: "end_syncs sy terminated v2 e2 = Some (v', e')"
    by (auto simp: bind_eq_Some_conv)
  note t1 = remove_sync_tracks [OF Cons.prems(1) rm]
  from rm obtain s where s: "map_of (vd_syncs v) cookie = Some s"
    by (auto simp: remove_sync_def bind_eq_Some_conv)
  have "tracks sy v1 e1 v2 e2"
  proof (cases "vd_status v1 = Bootstrap")
    case True
    then have "kinds v1 = []"
      using bootstrap_removed [OF Cons.prems(1) _ s] t1(2,3) by simp
    then show ?thesis
      using b True tracks_ok [OF t1(1)] by (auto intro: handle_bootstrap_result_tracks)
  next
    case False
    then show ?thesis
      using b tracks_ok [OF t1(1)] by (auto intro: tracks_refl)
  qed
  with t1(1) have "tracks sy v e v2 e2"
    by (rule tracks_trans)
  then show ?case
    using Cons.IH [OF tracks_ok rest] tracks_trans by blast
qed (auto intro: tracks_refl)

lemma expire_requests_calm: "expire_requests now reqs e = (reqs', e') \<Longrightarrow> calm e e'"
proof (induction now reqs e rule: expire_requests.induct)
  case (1 now reqs e)
  show ?case
    using 1(2) by (subst (asm) expire_requests.simps)
      (auto split: prod.splits option.splits dest: 1(1) [rotated 3] sym intro: calm_trans [OF quiet_calm])
qed

lemma vd_handler_tick_tracks:
  assumes ok: "vnode_ok v" and run: "vd_handler_tick sy v e = Some (v', e')"
  shows "tracks sy v e v' e'"
proof -
  from run obtain terminated ss e1 v2 e2 where t: "tick_syncs sy (vd_state v) (vd_syncs v) e = Some (terminated, ss, e1)"
    and x: "end_syncs sy terminated (v\<lparr>vd_syncs := ss\<rparr>) e1 = Some (v2, e2)"
    by (auto simp: vd_handler_tick_def bind_eq_Some_conv)
  obtain reqs e3 where r: "expire_requests (sy_now sy) (vd_requests v2) e2 = (reqs, e3)"
    by (metis surj_pair)
  let ?v = "v2\<lparr>vd_requests := reqs\<rparr>"
  have "tracks sy v e (v\<lparr>vd_syncs := ss\<rparr>) e1"
    using tick_syncs_keeps [OF t] ok by (intro tracks_calm) (simp_all add: kinds_def)
  then have t2: "tracks sy v e v2 e2"
    using end_syncs_tracks [OF tracks_ok x] tracks_trans by blast
  then have "tracks sy v2 e2 ?v e3"
    using expire_requests_calm [OF r] tracks_ok by (intro tracks_calm) auto
  with t2 have t3: "tracks sy v e ?v e3"
    by (rule tracks_trans)
  have "tracks sy ?v e3 v' e'"
  proof (cases "vd_syncs v2 = [] \<and> vd_set_status sy Absent ?v e3 = Some (v', e')")
    case True
    then show ?thesis
      by (intro vd_set_status_tracks [OF tracks_ok [OF t3]]) (auto simp: kinds_def)
  next
    case False
    then show ?thesis
      using run t x r tracks_ok [OF t3]
      by (auto simp: vd_handler_tick_def Let_def tracks_refl split: if_splits intro: start_bootstrap_tracks)
  qed
  with t3 show ?thesis
    by (rule tracks_trans)
qed

definition fresh_state :: "u16 \<Rightarrow> vnode_status \<Rightarrow> vnode_state \<Rightarrow> bool" where
  "fresh_state num status st \<longleftrightarrow>
     vs_num st = num \<and> vs_status st = status \<and> \<not> vs_pending_bootstrap st \<and> vs_sync_nodes st = []"

lemma new_empty_fresh: "new_empty sy num status e = Some (st, e') \<Longrightarrow> fresh_state num status st \<and> calm e e' \<and> ev_effects e' = ev_effects e"
  by (auto simp: new_empty_def fresh_state_def calm_def split: prod.splits res.splits)

lemma vs_load_fresh:
  assumes "vs_load sy num status e = Some (st, e')"
  shows "fresh_state num status st \<and> calm e e' \<and> ev_effects e' = ev_effects e"
proof -
  from assms obtain saved where get: "st_get (sy_rocks sy) meta_num (ev_db e) (show_nat (unat num)) = Ok saved"
    by (auto simp: vs_load_def split: res.splits)
  with assms obtain opt where opt: "(case saved of None \<Rightarrow> Some None | Some bytes \<Rightarrow> map_option Some (sy_de_saved sy bytes)) = Some opt"
    by (auto simp: vs_load_def bind_eq_Some_conv)
  note run = assms [unfolded vs_load_def get res.case opt bind.bind_lunit]
  show ?thesis
  proof (cases opt)
    case None
    then show ?thesis
      using run by (simp add: new_empty_fresh)
  next
    case (Some p)
    obtain clocks clean where p: "p = (clocks, clean)"
      by (cases p)
    show ?thesis
    proof (cases "status = Absent")
      case True
      then show ?thesis
        using run Some p by (simp add: new_empty_fresh)
    next
      case False
      then have "e' = e \<and> (\<exists>cs. st = \<lparr>vs_num = num, vs_status = status, vs_last_status_change = sy_now sy,
          vs_clocks = cs, vs_pending_bootstrap = False, vs_sync_nodes = []\<rparr>)"
        using run Some p by (auto simp: Let_def recover_dots_def split: if_splits)
      then show ?thesis
        by (auto simp: fresh_state_def)
    qed
  qed
qed

lemma vd_new_tracks:
  assumes "vd_new sy num status e = Some (v', e')"
  obtains v where "kinds v = []" "vd_num v = num" "tracks sy v e v' e'"
proof -
  from assms obtain st e1 e2 where load: "vs_load sy num status e = Some (st, e1)" and save: "vs_save sy st False e1 = Some e2"
    by (auto simp: vd_new_def bind_eq_Some_conv)
  let ?v = "\<lparr>vd_state = st, vd_syncs = [], vd_requests = ifm_new\<rparr>"
  note l = vs_load_fresh [OF load, unfolded fresh_state_def]
  have ok: "vnode_ok ?v"
    using l by (simp add: vnode_ok_def syncs_ok_def kinds_def)
  have t: "tracks sy ?v e ?v e2"
    using ok l vs_save_calm [OF save] calm_trans by (blast intro: tracks_refl)
  have "tracks sy ?v e2 v' e'"
    using assms load save ok
    by (cases "vs_status st") (auto simp: vd_new_def bind_eq_Some_conv tracks_refl intro: start_bootstrap_tracks)
  with t have "tracks sy ?v e v' e'"
    by (rule tracks_trans)
  then show ?thesis
    using l by (intro that [of ?v]) (simp_all add: kinds_def)
qed

end
