(* ===== verification/Database.thy ===== *)
theory Database
  imports VNode
begin

text \<open>
  \<^verbatim>\<open>database.rs\<close>: a node of the cluster, that is its vnodes and the state they share, with the
  handlers of its workers and the reads and writes of the command layer. A worker runs one
  handler; the locks of the vnodes and the worker threads are not modelled, so a handler is one
  step on the whole state.
\<close>

record 'db database =
  db_vnodes :: "(vnode_id \<times> vnode) list"
  db_env :: "'db env"

text \<open>The macro \<^verbatim>\<open>vnode!\<close>: an operation on one vnode, which must exist.\<close>

definition with_vnode :: "vnode_id \<Rightarrow> (vnode \<Rightarrow> 'db env \<Rightarrow> ('r \<times> vnode \<times> 'db env) option) \<Rightarrow> 'db database \<Rightarrow>
    ('r \<times> 'db database) option" where
  "with_vnode k f d = do {
     v \<leftarrow> map_of (db_vnodes d) k;
     (r, v, e) \<leftarrow> f v (db_env d);
     Some (r, d\<lparr>db_vnodes := AList.update k v (db_vnodes d), db_env := e\<rparr>)
   }"

definition on_vnode :: "vnode_id \<Rightarrow> (vnode \<Rightarrow> 'db env \<Rightarrow> (vnode \<times> 'db env) option) \<Rightarrow> 'db database \<Rightarrow> 'db database option" where
  "on_vnode k f d = map_option snd (with_vnode k (\<lambda>v e. map_option (Pair ()) (f v e)) d)"

text \<open>A handler on every vnode in turn.\<close>

fun each_vnode :: "(vnode_id \<Rightarrow> vnode \<Rightarrow> 'db env \<Rightarrow> (vnode \<times> 'db env) option) \<Rightarrow> vnode_id list \<Rightarrow> 'db database \<Rightarrow>
    'db database option" where
  "each_vnode f [] d = Some d"
| "each_vnode f (k # ks) d = do {
     d \<leftarrow> on_vnode k (f k) d;
     each_vnode f ks d
   }"

definition vnode_keys :: "'db database \<Rightarrow> vnode_id list" where
  "vnode_keys d = map fst (db_vnodes d)"

section \<open>Handlers\<close>

definition dht_final_status :: "vnode_id \<Rightarrow> 'db env \<Rightarrow> vnode_status option" where
  "dht_final_status k e = do {
     nodes \<leftarrow> nodes_for_vnode (ev_dht e) k True True;
     Some (if this_node e \<in> set nodes then Ready else Absent)
   }"

definition handler_dht_change :: "'db sys \<Rightarrow> 'db database \<Rightarrow> 'db database option" where
  "handler_dht_change sy d =
     (case st_set (sy_rocks sy) meta_num (ev_db (db_env d)) ''ring'' (save_ring (sy_ring_codec sy) (ev_dht (db_env d))) of
        (Panic, _) \<Rightarrow> None
      | (_, db) \<Rightarrow>
          each_vnode (\<lambda>k v e. do {
              status \<leftarrow> dht_final_status k e;
              vd_handler_dht_change sy status v e
            }) (vnode_keys d) (d\<lparr>db_env := (db_env d)\<lparr>ev_db := db\<rparr>\<rparr>))"

definition incomming_syncs :: "'db database \<Rightarrow> nat" where
  "incomming_syncs d = sum_list (map (\<lambda>(_, v). fst (syncs_inflight v)) (db_vnodes d))"

text \<open>Synchronisations are started from a random vnode on until enough are running.\<close>

fun auto_sync :: "'db sys \<Rightarrow> u16 list \<Rightarrow> nat \<Rightarrow> 'db database \<Rightarrow> 'db database option" where
  "auto_sync sy [] running d = Some d"
| "auto_sync sy (k # ks) running d = do {
     (started, d) \<leftarrow> with_vnode k (start_sync_if_ready sy) d;
     let running = (if started then running + 1 else running);
     if unat (cf_sync_incomming_max (sy_config sy)) \<le> running then Some d
     else auto_sync sy ks running d
   }"

definition handler_tick :: "'db sys \<Rightarrow> 'db database \<Rightarrow> 'db database option" where
  "handler_tick sy d =
     (case dht_handler_tick (sy_coin sy) (sy_now sy) (ev_dht (db_env d)) of (dht, es) \<Rightarrow> do {
        let e = db_env d;
        d \<leftarrow> each_vnode (\<lambda>_. vd_handler_tick sy) (vnode_keys d)
               (d\<lparr>db_env := e\<lparr>ev_dht := dht, ev_effects := ev_effects e @ dht_effects sy es\<rparr>\<rparr>);
        let running = incomming_syncs d;
        if cf_sync_auto (sy_config sy) \<and> running < unat (cf_sync_incomming_max (sy_config sy)) then
          (let len = (of_nat (length (db_vnodes d)) :: u16)
           in if len = 0 then None
              else auto_sync sy (map (\<lambda>i. (of_nat i + sy_rnd sy mod len) mod len) [0..<unat len]) running d)
        else Some d
      })"

definition handler_fabric_msg :: "'db sys \<Rightarrow> node_id \<Rightarrow> fabric_msg \<Rightarrow> 'db database \<Rightarrow> 'db database option" where
  "handler_fabric_msg sy from msg d =
     (case msg of
        RemoteGet m \<Rightarrow> on_vnode (mrg_vnode m) (handler_get_remote sy from m) d
      | RemoteGetAck m \<Rightarrow> on_vnode (mrga_vnode m) (handler_get_remote_ack m) d
      | RemoteSet m \<Rightarrow> on_vnode (mrs_vnode m) (handler_set_remote sy from m) d
      | RemoteSetAck m \<Rightarrow> on_vnode (mrsa_vnode m) (handler_set_remote_ack m) d
      | SyncStart m \<Rightarrow> on_vnode (mss_vnode m) (handler_sync_start sy from m) d
      | SyncSend m \<Rightarrow> on_vnode (msd_vnode m) (handler_sync_send sy from m) d
      | SyncAck m \<Rightarrow> on_vnode (msa_vnode m) (handler_sync_ack sy from m) d
      | SyncFin m \<Rightarrow> on_vnode (msf_vnode m) (handler_sync_fin sy from m) d
      | _ \<Rightarrow> None)"

text \<open>The messages of the ring service (\<^verbatim>\<open>DHT::handler_fabric_msg\<close>).\<close>

definition handler_dht_msg :: "'db sys \<Rightarrow> node_id \<Rightarrow> fabric_msg \<Rightarrow> 'db database \<Rightarrow> 'db database option" where
  "handler_dht_msg sy from msg d =
     map_option (\<lambda>(dht, es). d\<lparr>db_env := (db_env d)\<lparr>ev_dht := dht, ev_effects := ev_effects (db_env d) @ dht_effects sy es\<rparr>\<rparr>)
       (on_message (sy_ring_codec sy) (ev_dht (db_env d)) from msg)"

definition db_syncs_inflight :: "'db database \<Rightarrow> nat" where
  "db_syncs_inflight d = sum_list (map (\<lambda>(_, v). fst (syncs_inflight v) + snd (syncs_inflight v)) (db_vnodes d))"

definition db_save :: "'db sys \<Rightarrow> bool \<Rightarrow> 'db database \<Rightarrow> 'db database option" where
  "db_save sy shutdown d = do {
     d \<leftarrow> each_vnode (\<lambda>_ v e. map_option (Pair v) (vs_save sy (vd_state v) shutdown e)) (vnode_keys d) d;
     if shutdown then
       (case st_set (sy_rocks sy) meta_num (ev_db (db_env d)) ''clean_shutdown'' '''' of
          (Ok _, db) \<Rightarrow> Some (d\<lparr>db_env := (db_env d)\<lparr>ev_db := db\<rparr>\<rparr>)
        | _ \<Rightarrow> None)
     else Some d
   }"

section \<open>Client reads and writes\<close>

type_synonym 'db command = "ctx \<Rightarrow> 'db database \<Rightarrow> ((unit, command_error) res \<times> ctx \<times> 'db database) option"

definition debug_assert :: "'db sys \<Rightarrow> bool \<Rightarrow> 'a option \<Rightarrow> 'a option" where
  "debug_assert sy P x = (if sy_debug_assertions sy \<and> \<not> P then None else x)"

definition on_key_vnode :: "vnode_id \<Rightarrow> (ctx \<Rightarrow> vnode \<Rightarrow> 'db env \<Rightarrow> ((unit, command_error) res \<times> ctx \<times> vnode \<times> 'db env) option) \<Rightarrow>
    'db command" where
  "on_key_vnode k f c d =
     map_option (\<lambda>((res, c), d). (res, c, d))
       (with_vnode k (\<lambda>v e. map_option (\<lambda>(res, c, v, e). ((res, c), v, e)) (f c v e)) d)"

text \<open>The vnode all keys share: \<open>Err\<close> if they do not, \<open>Ok None\<close> if there are none.\<close>

fun multi_vnode :: "'db sys \<Rightarrow> (addr, addr) dht \<Rightarrow> vnode_id option \<Rightarrow> bytes list \<Rightarrow> (vnode_id option, command_error) res" where
  "multi_vnode sy dht k [] = Ok k"
| "multi_vnode sy dht k (key # keys) =
     (case key_vnode (sy_crc16 sy) dht key of
        None \<Rightarrow> Panic
      | Some vn \<Rightarrow>
          if k = None \<or> k = Some vn then multi_vnode sy dht (Some vn) keys else Err MultiplePartitions)"

fun flush_vnode :: "'db sys \<Rightarrow> (addr, addr) dht \<Rightarrow> vnode_id option \<Rightarrow> context_write list \<Rightarrow> (vnode_id option, command_error) res" where
  "flush_vnode sy dht k [] = Ok k"
| "flush_vnode sy dht k (w # ws) =
     (case key_vnode (sy_crc16 sy) dht (cwr_key w) of
        None \<Rightarrow> Panic
      | Some vn \<Rightarrow>
          if \<not> (k = None \<or> k = Some vn) then Err MultiplePartitions
          else if cwr_key w \<in> cwr_key ` set ws then Err MultipleKeyMutations
          else flush_vnode sy dht (Some vn) ws)"

definition db_set_flush :: "'db sys \<Rightarrow> consistency_level \<Rightarrow> 'db command" where
  "db_set_flush sy consistency c d =
     debug_assert sy (cx_is_multi c \<and> cx_is_exec c)
       (case flush_vnode sy (ev_dht (db_env d)) None (cx_writes c) of
          Panic \<Rightarrow> None
        | Err err \<Rightarrow> Some (Err err, c, d)
        | Ok (Some k) \<Rightarrow> on_key_vnode k (do_flush sy consistency) c d
        | Ok None \<Rightarrow> Some (Ok (), ctx_new 0, d\<lparr>db_env := respond_resp c (RArray []) (db_env d)\<rparr>))"

definition db_set :: "'db sys \<Rightarrow> bytes \<Rightarrow> mutator_fn \<Rightarrow> consistency_level \<Rightarrow> bool \<Rightarrow> response_fn option \<Rightarrow> 'db command" where
  "db_set sy key mutator consistency reply_result response_fn c d =
     debug_assert sy (\<not> cx_is_exec c)
       (let c = c\<lparr>cx_writes := cx_writes c @
              [\<lparr>cwr_version = 0, cwr_mutator_fn = Some mutator, cwr_key = key, cwr_cube = cube_default,
                cwr_reply_result = reply_result, cwr_response = None, cwr_response_fn = response_fn\<rparr>]\<rparr>
        in if cx_is_multi c then Some (Ok (), c, d)
           else
             debug_assert sy (length (cx_writes c) = 1)
               (case key_vnode (sy_crc16 sy) (ev_dht (db_env d)) key of
                  None \<Rightarrow> None
                | Some k \<Rightarrow> on_key_vnode k (do_flush sy consistency) c d))"

definition db_get :: "'db sys \<Rightarrow> bytes \<Rightarrow> consistency_level \<Rightarrow> response_fn \<Rightarrow> 'db command" where
  "db_get sy key consistency response_fn c d =
     debug_assert sy (\<not> cx_is_multi c \<and> \<not> cx_is_exec c)
       (case key_vnode (sy_crc16 sy) (ev_dht (db_env d)) key of
          None \<Rightarrow> None
        | Some k \<Rightarrow> on_key_vnode k (do_get sy [key] consistency response_fn) c d)"

definition db_mget :: "'db sys \<Rightarrow> bytes list \<Rightarrow> consistency_level \<Rightarrow> response_fn \<Rightarrow> 'db command" where
  "db_mget sy keys consistency response_fn c d =
     debug_assert sy (cx_is_multi c \<and> cx_is_exec c)
       (case multi_vnode sy (ev_dht (db_env d)) None keys of
          Panic \<Rightarrow> None
        | Err err \<Rightarrow> Some (Err err, c, d)
        | Ok (Some k) \<Rightarrow> on_key_vnode k (do_get sy keys consistency response_fn) c d
        | Ok None \<Rightarrow> Some (Ok (), ctx_new 0, d\<lparr>db_env := respond_resp c (RArray []) (db_env d)\<rparr>))"

section \<open>Start\<close>

text \<open>
  What \<^verbatim>\<open>Database::new\<close> takes from its configuration and surroundings: the two random numbers it may
  draw, and for a node that joins the peers and the ring it received while it waited.
\<close>

record startup =
  su_data_dir_clean :: bool
  su_cluster_name :: string
  su_cmd_init :: "(u8 \<times> u16) option"
  su_listen_addr :: addr
  su_fabric_addr :: addr
  su_sync_aae :: bool
  su_sync_on_connect :: bool
  su_random_i64 :: i64
  su_random_u32 :: u32
  su_connections :: "node_id list"
  su_received :: "(addr, addr) ring"

definition meta_get :: "'db sys \<Rightarrow> bytes \<Rightarrow> 'db env \<Rightarrow> bytes option option" where
  "meta_get sy key e = (case st_get (sy_rocks sy) meta_num (ev_db e) key of Ok x \<Rightarrow> Some x | _ \<Rightarrow> None)"

definition meta_set :: "'db sys \<Rightarrow> bytes \<Rightarrow> bytes \<Rightarrow> 'db env \<Rightarrow> 'db env option" where
  "meta_set sy key x e =
     (case st_set (sy_rocks sy) meta_num (ev_db e) key x of (Ok _, db) \<Rightarrow> Some (e\<lparr>ev_db := db\<rparr>) | _ \<Rightarrow> None)"

definition meta_del :: "'db sys \<Rightarrow> bytes \<Rightarrow> 'db env \<Rightarrow> 'db env option" where
  "meta_del sy key e =
     (case st_del (sy_rocks sy) meta_num (ev_db e) key of (Ok _, db) \<Rightarrow> Some (e\<lparr>ev_db := db\<rparr>) | _ \<Rightarrow> None)"

text \<open>\<^verbatim>\<open>str::parse::<u64>\<close>: an optional plus sign, at least one digit, the value in range.\<close>

definition parse_u64 :: "bytes \<Rightarrow> u64 option" where
  "parse_u64 bs =
     (case parse_digits (case bs of c # ds \<Rightarrow> if c = CHR ''+'' then ds else bs | [] \<Rightarrow> bs) of
        Some n \<Rightarrow> if n < 2 ^ 64 then Some (of_nat n) else None
      | None \<Rightarrow> None)"

text \<open>
  The identity of the node, with the one it had before if that did not shut down cleanly: then only
  the physical half of the id is kept.
\<close>

definition choose_node :: "startup \<Rightarrow> bytes option \<Rightarrow> bytes option \<Rightarrow> (node_id option \<times> node_id) option" where
  "choose_node su meta_node meta_clean_shutdown =
     (case meta_node of
        Some s_node \<Rightarrow> do {
          prev_node \<leftarrow> parse_u64 s_node;
          if meta_clean_shutdown \<noteq> None then Some (None, prev_node)
          else Some (Some prev_node, join_u64 (fst (split_u64 prev_node)) (su_random_u32 su))
        }
      | None \<Rightarrow> Some (None, if sint (su_random_i64 su) < 0 then - su_random_i64 su else su_random_i64 su))"

definition open_dht :: "'db sys \<Rightarrow> startup \<Rightarrow> bytes option \<Rightarrow> node_id option \<Rightarrow> node_id \<Rightarrow>
    ((addr, addr) dht \<times> dht_effect list) option" where
  "open_dht sy su meta_ring old_node node =
     (let rc = sy_ring_codec sy;
          d = dht_new node (su_cluster_name su) (su_sync_aae su) (su_sync_on_connect su) (sy_now sy)
      in case su_cmd_init su of
           Some (replication_factor, parts) \<Rightarrow>
             dht_init rc (su_cluster_name su) (su_fabric_addr su) (su_listen_addr su) parts replication_factor old_node d
         | None \<Rightarrow>
             (case (case meta_ring of
                      Some ring \<Rightarrow> dht_restore rc (su_fabric_addr su) (su_listen_addr su) ring old_node d
                    | None \<Rightarrow>
                        dht_join_cluster rc (su_fabric_addr su) (su_listen_addr su) (su_connections su) old_node
                          (d\<lparr>dht_ring := su_received su\<rparr>)) of
                Ok r \<Rightarrow> Some r
              | _ \<Rightarrow> None))"

fun create_vnodes :: "'db sys \<Rightarrow> vnode_id list \<Rightarrow> vnode_id list \<Rightarrow> vnode_id list \<Rightarrow> 'db env \<Rightarrow>
    ((vnode_id \<times> vnode) list \<times> 'db env) option" where
  "create_vnodes sy ready pending [] e = Some ([], e)"
| "create_vnodes sy ready pending (i # is) e = do {
     (v, e) \<leftarrow> vd_new sy i (if i \<in> set ready then Ready else if i \<in> set pending then Bootstrap else Absent) e;
     (vs, e) \<leftarrow> create_vnodes sy ready pending is e;
     Some ((i, v) # vs, e)
   }"

text \<open>
  \<open>db\<close> is the store as it was opened. Between the two saves the fabric is created and the ring set
  up; the callback for changes of the ring is set before the vnodes are created.
\<close>

definition db_new :: "'db sys \<Rightarrow> startup \<Rightarrow> 'db \<Rightarrow> 'db database option" where
  "db_new sy su db =
     (if su_cmd_init su \<noteq> None \<and> \<not> su_data_dir_clean su then None
      else do {
        let e = \<lparr>ev_db = db, ev_dht = dht_new 0 (su_cluster_name su) False False (sy_now sy),
                 ev_incomming_syncs = 0, ev_outgoing_syncs = 0, ev_drawn = 0, ev_effects = []\<rparr>;
        meta_node \<leftarrow> meta_get sy ''node'' e;
        meta_cluster \<leftarrow> meta_get sy ''cluster'' e;
        meta_clean_shutdown \<leftarrow> meta_get sy ''clean_shutdown'' e;
        meta_ring \<leftarrow> meta_get sy ''ring'' e;
        (old_node, node) \<leftarrow> choose_node su meta_node meta_clean_shutdown;
        if meta_cluster \<noteq> None \<and> meta_cluster \<noteq> Some (su_cluster_name su) then None
        else do {
          e \<leftarrow> meta_del sy ''clean_shutdown'' e;
          e \<leftarrow> meta_set sy ''cluster'' (su_cluster_name su) e;
          e \<leftarrow> meta_set sy ''node'' (show_nat (unat node)) e;
          (dht, es) \<leftarrow> open_dht sy su meta_ring old_node node;
          e \<leftarrow> meta_set sy ''ring'' (save_ring (sy_ring_codec sy) dht) e;
          let e = e\<lparr>ev_dht := dht\<lparr>dht_callback := True\<rparr>, ev_effects := dht_effects sy es\<rparr>;
          let (ready, pending) = vnodes_for_node dht node;
          (vs, e) \<leftarrow> create_vnodes sy ready pending (map of_nat [0..<unat (of_nat (partitions dht) :: vnode_id)]) e;
          Some \<lparr>db_vnodes = vs, db_env = e\<rparr>
        }
      })"

end
