(* ===== verification/Command.thy ===== *)
theory Command
  imports Database
begin

text \<open>
  \<^verbatim>\<open>command.rs\<close>: the commands of clients. A command takes the context of the request and the node and
  returns a result with both; after a reply the context is the default one. \<open>None\<close> is a panic.
\<close>

section \<open>Arguments\<close>

definition MAX_KEY_LEN :: nat where
  "MAX_KEY_LEN = 500"

definition MAX_VALUE_LEN :: nat where
  "MAX_VALUE_LEN = 10 * 1024 * 1024"

definition parse_int_arg :: "(bytes \<Rightarrow> 'a option) \<Rightarrow> 'a \<Rightarrow> bool \<Rightarrow> bytes list \<Rightarrow> nat \<Rightarrow> ('a, command_error) res" where
  "parse_int_arg from_str dflt try args i =
     (if \<not> try then Ok dflt
      else if length args \<le> i then Panic
      else (case from_str (args ! i) of Some x \<Rightarrow> Ok x | None \<Rightarrow> Err InvalidIntValue))"

definition check_arg_count :: "nat \<Rightarrow> nat \<Rightarrow> nat \<Rightarrow> (unit, command_error) res" where
  "check_arg_count n mn mx = (if n < mn \<or> mx < n then Err InvalidArgCount else Ok ())"

definition check_key_len :: "nat \<Rightarrow> (unit, command_error) res" where
  "check_key_len len = (if MAX_KEY_LEN < len then Err InvalidKey else Ok ())"

definition check_value_len :: "nat \<Rightarrow> (unit, command_error) res" where
  "check_value_len len = (if MAX_VALUE_LEN < len then Err InvalidKey else Ok ())"

definition parse_vv :: "'db sys \<Rightarrow> bool \<Rightarrow> bytes list \<Rightarrow> nat \<Rightarrow> (version_vector, command_error) res" where
  "parse_vv sy try args i =
     (if \<not> try then Ok vv_new
      else if length args \<le> i then Panic
      else if args ! i = [] then Ok vv_new
      else (case sy_de_vv sy (args ! i) of Some vv \<Rightarrow> Ok vv | None \<Rightarrow> Err InvalidContext))"

definition parse_consistency :: "'db sys \<Rightarrow> bool \<Rightarrow> bytes list \<Rightarrow> nat \<Rightarrow> (consistency_level, command_error) res" where
  "parse_consistency sy try args i =
     (if \<not> try then Ok (cf_consistency_read (sy_config sy))
      else if length args \<le> i then Panic
      else (case consistency_try_from (args ! i) of Some c \<Rightarrow> Ok c | None \<Rightarrow> Err InvalidConsistencyValue))"

text \<open>The operator \<^verbatim>\<open>?\<close>, and a reply.\<close>

definition question :: "('a, command_error) res \<Rightarrow> ('a \<Rightarrow> 'db command) \<Rightarrow> 'db command" where
  "question r f c d =
     (case r of Ok x \<Rightarrow> f x c d | Err err \<Rightarrow> Some (Err err, c, d) | Panic \<Rightarrow> None)"

definition reply :: "resp_value \<Rightarrow> 'db command" where
  "reply resp c d = Some (Ok (), ctx_new 0, d\<lparr>db_env := respond_resp c resp (db_env d)\<rparr>)"

section \<open>Reads\<close>

definition cmd_read :: "'db sys \<Rightarrow> response_fn \<Rightarrow> bytes list \<Rightarrow> 'db command" where
  "cmd_read sy render args =
     question (check_arg_count (length args) 1 2) (\<lambda>_.
     question (check_key_len (length (args ! 0))) (\<lambda>_.
     question (parse_consistency sy (length args > 1) args 1) (\<lambda>consistency.
       db_get sy (args ! 0) consistency render)))"

definition cmd_get :: "'db sys \<Rightarrow> bytes list \<Rightarrow> 'db command" where
  "cmd_get sy = cmd_read sy (render_value (sy_ser_vv sy))"

definition cmd_cget :: "'db sys \<Rightarrow> bytes list \<Rightarrow> 'db command" where
  "cmd_cget sy = cmd_read sy render_counter"

definition cmd_hgetall :: "'db sys \<Rightarrow> bytes list \<Rightarrow> 'db command" where
  "cmd_hgetall sy = cmd_read sy render_map"

definition cmd_smembers :: "'db sys \<Rightarrow> bytes list \<Rightarrow> 'db command" where
  "cmd_smembers sy = cmd_read sy render_set"

definition cmd_type :: "'db sys \<Rightarrow> bytes list \<Rightarrow> 'db command" where
  "cmd_type sy args =
     question (check_arg_count (length args) 1 2) (\<lambda>_.
     question (parse_consistency sy (length args > 1) args 1) (\<lambda>consistency.
       db_get sy (args ! 0) consistency render_type))"

fun check_keys :: "bytes list \<Rightarrow> (unit, command_error) res" where
  "check_keys [] = Ok ()"
| "check_keys (key # keys) = res_bind (check_key_len (length key)) (\<lambda>_. check_keys keys)"

definition cmd_mget :: "'db sys \<Rightarrow> bytes list \<Rightarrow> 'db command" where
  "cmd_mget sy args c =
     (if cx_is_multi c \<or> cx_is_exec c then (\<lambda>_. None)
      else
        question (check_arg_count (length args) 1 100) (\<lambda>_.
        question (parse_int_arg parse_u64 0 (length args > 0) args 0) (\<lambda>n.
          let key_count = unat n in
          if length args \<le> key_count then (\<lambda>c d. Some (Err InvalidCommand, c, d))
          else
            (let keys = take key_count (drop 1 args)
             in question (parse_consistency sy (length args > 1 + key_count) args (1 + key_count)) (\<lambda>consistency.
                question (check_keys keys) (\<lambda>_.
                  db_mget sy keys consistency (render_value (sy_ser_vv sy)))))))
        (c\<lparr>cx_is_multi := True, cx_is_exec := True\<rparr>))"

section \<open>Writes\<close>

text \<open>A bool as an integer reply.\<close>

definition int_reply :: "bool \<Rightarrow> resp_value" where
  "int_reply b = RInt (if b then 1 else 0)"

definition ok_or_type :: "'a option \<Rightarrow> ('a \<Rightarrow> cube \<times> resp_value option) \<Rightarrow> (cube \<times> resp_value option, command_error) res" where
  "ok_or_type x f = (case x of Some a \<Rightarrow> Ok (f a) | None \<Rightarrow> Err TypeError)"

definition cmd_hset :: "'db sys \<Rightarrow> bytes list \<Rightarrow> 'db command" where
  "cmd_hset sy args =
     question (check_arg_count (length args) 3 4) (\<lambda>_.
     question (check_key_len (length (args ! 0))) (\<lambda>_.
     question (check_key_len (length (args ! 1))) (\<lambda>_.
     question (check_value_len (length (args ! 2))) (\<lambda>_.
     question (parse_consistency sy (length args > 3) args 3) (\<lambda>consistency.
       db_set sy (args ! 0)
         (\<lambda>i v c. ok_or_type (into_map c) (\<lambda>m.
            case map_insert (sy_time sy) m i v (args ! 1) (args ! 2) of (added, m) \<Rightarrow> (Map m, Some (int_reply added))))
         consistency False None)))))"

definition cmd_hdel :: "'db sys \<Rightarrow> bytes list \<Rightarrow> 'db command" where
  "cmd_hdel sy args =
     question (check_arg_count (length args) 2 3) (\<lambda>_.
     question (check_key_len (length (args ! 0))) (\<lambda>_.
     question (check_key_len (length (args ! 1))) (\<lambda>_.
     question (parse_consistency sy (length args > 2) args 2) (\<lambda>consistency.
       db_set sy (args ! 0)
         (\<lambda>i v c. ok_or_type (into_map c) (\<lambda>m.
            case map_remove m i v (args ! 1) of (removed, m) \<Rightarrow> (Map m, Some (int_reply removed))))
         consistency False None))))"

definition cmd_sadd :: "'db sys \<Rightarrow> bytes list \<Rightarrow> 'db command" where
  "cmd_sadd sy args =
     question (check_arg_count (length args) 2 3) (\<lambda>_.
     question (check_key_len (length (args ! 0))) (\<lambda>_.
     question (check_value_len (length (args ! 1))) (\<lambda>_.
     question (parse_consistency sy (length args > 2) args 2) (\<lambda>consistency.
       db_set sy (args ! 0)
         (\<lambda>i v c. ok_or_type (into_set c) (\<lambda>s.
            case set_insert s i v (args ! 1) of (added, s) \<Rightarrow> (Set s, Some (int_reply added))))
         consistency False None))))"

definition cmd_srem :: "'db sys \<Rightarrow> bytes list \<Rightarrow> 'db command" where
  "cmd_srem sy args =
     question (check_arg_count (length args) 2 3) (\<lambda>_.
     question (check_key_len (length (args ! 0))) (\<lambda>_.
     question (check_value_len (length (args ! 1))) (\<lambda>_.
     question (parse_consistency sy (length args > 2) args 2) (\<lambda>consistency.
       db_set sy (args ! 0)
         (\<lambda>i v c. ok_or_type (into_set c) (\<lambda>s.
            case set_remove s i v (args ! 1) of (removed, s) \<Rightarrow> (Set s, Some (int_reply removed))))
         consistency False None))))"

definition cmd_set :: "'db sys \<Rightarrow> bool \<Rightarrow> bytes list \<Rightarrow> 'db command" where
  "cmd_set sy reply_result args =
     question (check_arg_count (length args) 2 4) (\<lambda>_.
     question (check_key_len (length (args ! 0))) (\<lambda>_.
     question (check_value_len (length (args ! 1))) (\<lambda>_.
     question (parse_vv sy (length args > 2) args 2) (\<lambda>vv.
     question (parse_consistency sy (length args > 3) args 3) (\<lambda>consistency.
       db_set sy (args ! 0)
         (\<lambda>i v c. ok_or_type (into_value c) (\<lambda>a.
            (Value (value_set a i v (Some (args ! 1)) vv), if reply_result then None else Some (RStatus ''OK''))))
         consistency reply_result (if reply_result then Some (render_value (sy_ser_vv sy)) else None))))))"

definition cmd_del :: "'db sys \<Rightarrow> bytes list \<Rightarrow> 'db command" where
  "cmd_del sy args =
     question (check_arg_count (length args) 1 3) (\<lambda>_.
     question (check_key_len (length (args ! 0))) (\<lambda>_.
     question (parse_vv sy (length args > 1) args 1) (\<lambda>vv.
     question (parse_consistency sy (length args > 2) args 2) (\<lambda>consistency.
       db_set sy (args ! 0)
         (\<lambda>i v c. case cube_del c i v vv of (deleted, c) \<Rightarrow> Ok (c, Some (int_reply deleted)))
         consistency False None))))"

definition cmd_cset :: "'db sys \<Rightarrow> bytes list \<Rightarrow> 'db command" where
  "cmd_cset sy args =
     question (check_arg_count (length args) 2 3) (\<lambda>_.
     question (check_key_len (length (args ! 0))) (\<lambda>_.
     question (parse_int_arg parse_i64 0 (length args > 1) args 1) (\<lambda>n.
     question (parse_consistency sy (length args > 2) args 2) (\<lambda>consistency.
       db_set sy (args ! 0)
         (\<lambda>i v c. ok_or_type (into_counter c) (\<lambda>a.
            (Counter (snd (counter_inc (counter_clear a i v) i v n)), Some (RStatus ''OK''))))
         consistency False None))))"

definition cmd_incrby :: "'db sys \<Rightarrow> bytes list \<Rightarrow> 'db command" where
  "cmd_incrby sy args =
     question (check_arg_count (length args) 2 3) (\<lambda>_.
     question (check_key_len (length (args ! 0))) (\<lambda>_.
     question (parse_int_arg parse_i64 0 (length args > 1) args 1) (\<lambda>n.
     question (parse_consistency sy (length args > 2) args 2) (\<lambda>consistency.
       db_set sy (args ! 0)
         (\<lambda>i v c. ok_or_type (into_counter c) (\<lambda>a.
            (Counter (snd (counter_inc a i v n)), Some (RStatus ''OK''))))
         consistency False None))))"

section \<open>Batches and the cluster\<close>

definition cmd_multi :: "bytes list \<Rightarrow> 'db command" where
  "cmd_multi args c =
     (if cx_is_multi c then (\<lambda>_. None)
      else question (check_arg_count (length args) 0 0) (\<lambda>_. reply (RStatus ''OK'')) (c\<lparr>cx_is_multi := True\<rparr>))"

definition cmd_config :: "bytes list \<Rightarrow> 'db command" where
  "cmd_config args = reply (RArray [])"

definition slot_reply :: "(u16 \<times> u16) \<times> (node_id \<times> addr \<times> addr) list \<Rightarrow> resp_value" where
  "slot_reply s =
     (case s of ((start, end_slot), owners) \<Rightarrow>
        RArray ([RInt (ucast start), RInt (ucast end_slot)] @
          map (\<lambda>(node, _, ext_addr).
            RArray [RData (fst ext_addr), RInt (ucast (snd ext_addr)), RData (show_nat (unat node))]) owners))"

definition cmd_cluster :: "'db sys \<Rightarrow> bytes list \<Rightarrow> 'db command" where
  "cmd_cluster sy args =
     question (check_arg_count (length args) 1 1) (\<lambda>_ c d.
       if args ! 0 \<in> {''REBALANCE'', ''rebalance''} then
         (case run_dht sy (dht_rebalance (sy_ring_codec sy)) (db_env d) of
            (Ok _, e) \<Rightarrow> reply (RStatus ''OK'') c (d\<lparr>db_env := e\<rparr>)
          | _ \<Rightarrow> None)
       else if args ! 0 \<in> {''SLOTS'', ''slots''} then
         (case slots (ev_dht (db_env d)) of
            None \<Rightarrow> None
          | Some ss \<Rightarrow> reply (RArray (map slot_reply ss)) c d)
       else Some (Err UnknownCommand, c, d))"

text \<open>The arguments of a command: none if it is not an array, or an element is not a data value.\<close>

fun data_args :: "resp_value list \<Rightarrow> bytes list option" where
  "data_args [] = Some []"
| "data_args (RData b # vs) = map_option ((#) b) (data_args vs)"
| "data_args (_ # vs) = None"

definition command_args :: "resp_value \<Rightarrow> bytes list" where
  "command_args cmd =
     (case cmd of
        RArray vs \<Rightarrow> (case data_args vs of Some args \<Rightarrow> args | None \<Rightarrow> [])
      | _ \<Rightarrow> [])"

text \<open>The commands a batch may hold (\<^verbatim>\<open>handle_cmd\<close> while \<^verbatim>\<open>is_exec\<close> is set).\<close>

definition handle_exec_cmd :: "'db sys \<Rightarrow> resp_value \<Rightarrow> 'db command" where
  "handle_exec_cmd sy cmd =
     (case command_args cmd of
        [] \<Rightarrow> (\<lambda>c d. Some (Err ProtocolError, c, d))
      | arg0 # args \<Rightarrow>
          if arg0 \<in> {''CSET'', ''cset''} then cmd_cset sy args
          else if arg0 \<in> {''INCRBY'', ''incrby''} then cmd_incrby sy args
          else if arg0 \<in> {''SET'', ''set''} then cmd_set sy False args
          else if arg0 \<in> {''HSET'', ''hset''} then cmd_hset sy args
          else if arg0 \<in> {''HDEL'', ''hdel''} then cmd_hdel sy args
          else if arg0 \<in> {''SADD'', ''sadd''} then cmd_sadd sy args
          else if arg0 \<in> {''SREM'', ''srem''} then cmd_srem sy args
          else if arg0 \<in> {''GETSET'', ''getset''} then cmd_set sy True args
          else if arg0 \<in> {''DEL'', ''del''} then cmd_del sy args
          else (\<lambda>c d. Some (Err InvalidMultiCommand, c, d)))"

fun exec_cmds :: "'db sys \<Rightarrow> resp_value list \<Rightarrow> 'db command" where
  "exec_cmds sy [] c d = Some (Ok (), c, d)"
| "exec_cmds sy (cmd # cmds) c d = do {
     (res, c, d) \<leftarrow> handle_exec_cmd sy cmd c d;
     case res of Ok _ \<Rightarrow> exec_cmds sy cmds c d | _ \<Rightarrow> Some (res, c, d)
   }"

definition cmd_exec :: "'db sys \<Rightarrow> bytes list \<Rightarrow> 'db command" where
  "cmd_exec sy args c =
     (if \<not> cx_is_multi c then (\<lambda>d. Some (Err InvalidExec, c, d))
      else
        question (check_arg_count (length args) 0 1) (\<lambda>_.
        question (parse_consistency sy (length args > 0) args 0) (\<lambda>consistency c d.
          if cx_is_exec c then None
          else do {
            (res, c, d) \<leftarrow> exec_cmds sy (cx_commands c) (c\<lparr>cx_is_exec := True, cx_commands := []\<rparr>) d;
            case res of Ok _ \<Rightarrow> db_set_flush sy consistency c d | _ \<Rightarrow> Some (res, c, d)
          })) c)"

definition handle_single_cmd :: "'db sys \<Rightarrow> resp_value \<Rightarrow> bytes \<Rightarrow> bytes list \<Rightarrow> 'db command" where
  "handle_single_cmd sy cmd arg0 args =
     (if arg0 \<in> {''GET'', ''get''} then cmd_get sy args
      else if arg0 \<in> {''MGET'', ''mget''} then cmd_mget sy args
      else if arg0 \<in> {''SET'', ''set''} then cmd_set sy False args
      else if arg0 \<in> {''CGET'', ''cget''} then cmd_cget sy args
      else if arg0 \<in> {''CSET'', ''cset''} then cmd_cset sy args
      else if arg0 \<in> {''INCRBY'', ''incrby''} then cmd_incrby sy args
      else if arg0 \<in> {''HGETALL'', ''hgetall''} then cmd_hgetall sy args
      else if arg0 \<in> {''HSET'', ''hset''} then cmd_hset sy args
      else if arg0 \<in> {''HDEL'', ''hdel''} then cmd_hdel sy args
      else if arg0 \<in> {''SMEMBERS'', ''smembers''} then cmd_smembers sy args
      else if arg0 \<in> {''SADD'', ''sadd''} then cmd_sadd sy args
      else if arg0 \<in> {''SREM'', ''srem''} then cmd_srem sy args
      else if arg0 \<in> {''GETSET'', ''getset''} then cmd_set sy True args
      else if arg0 \<in> {''DEL'', ''del''} then cmd_del sy args
      else if arg0 \<in> {''CLUSTER'', ''cluster''} then cmd_cluster sy args
      else if arg0 \<in> {''TYPE'', ''type''} then cmd_type sy args
      else if arg0 \<in> {''MULTI'', ''multi''} then cmd_multi args
      else if arg0 \<in> {''EXEC'', ''exec''} then cmd_exec sy args
      else if arg0 \<in> {''ECHO'', ''echo''} then reply cmd
      else if arg0 \<in> {''ASKING'', ''asking'', ''READONLY'', ''readonly'', ''READWRITE'', ''readwrite''}
      then question (check_arg_count (length args) 0 0) (\<lambda>_. reply (RStatus ''OK''))
      else if arg0 \<in> {''CONFIG'', ''config''} then cmd_config args
      else (\<lambda>c d. Some (Err UnknownCommand, c, d)))"

definition handle_cmd :: "'db sys \<Rightarrow> resp_value \<Rightarrow> 'db command" where
  "handle_cmd sy cmd c =
     (if cx_is_exec c then handle_exec_cmd sy cmd c
      else
        (case command_args cmd of
           [] \<Rightarrow> (\<lambda>d. Some (Err ProtocolError, c, d))
         | arg0 # args \<Rightarrow>
             if cx_is_multi c then
               if arg0 \<in> {''EXEC'', ''exec''} then cmd_exec sy args c
               else reply (RStatus ''QUEUED'') (c\<lparr>cx_commands := cx_commands c @ [cmd]\<rparr>)
             else handle_single_cmd sy cmd arg0 args c))"

definition handler_cmd :: "'db sys \<Rightarrow> ctx \<Rightarrow> 'db database \<Rightarrow> 'db database option" where
  "handler_cmd sy c d =
     (if cx_commands c = [] then None
      else do {
        (res, c, d) \<leftarrow> handle_cmd sy (last (cx_commands c)) (c\<lparr>cx_commands := butlast (cx_commands c)\<rparr>) d;
        case res of
          Err err \<Rightarrow> Some (d\<lparr>db_env := respond_error (ctx_clear c) err (db_env d)\<rparr>)
        | _ \<Rightarrow> Some d
      })"

end
