(* ===== verification/Workers.thy ===== *)
theory Workers
  imports Command
begin

text \<open>
  \<^verbatim>\<open>workers.rs\<close> and the worker function of \<^verbatim>\<open>Database::new\<close>: senders spread the messages of a node over the
  channels of its workers, and a worker runs the handler of each message it takes. A channel is the
  queue of its messages and whether its worker still listens. Spawning and joining threads is not
  modelled.
\<close>

datatype worker_msg =
    Fabric_Msg node_id fabric_msg
  | Command_Msg ctx
  | Tick_Msg
  | DHTFabric_Msg node_id fabric_msg
  | DHTChange_Msg
  | Exit_Msg

section \<open>Senders\<close>

record channel =
  ch_queue :: "worker_msg list"
  ch_open :: bool

record worker_sender =
  wk_cursor :: u64
  wk_channels :: "channel list"

definition channel_send :: "worker_msg \<Rightarrow> channel \<Rightarrow> (unit, worker_msg) res \<times> channel" where
  "channel_send msg ch =
     (if ch_open ch then (Ok (), ch\<lparr>ch_queue := ch_queue ch @ [msg]\<rparr>) else (Err msg, ch))"

text \<open>The cursor starts at random. A pool without channels has no sender.\<close>

definition worker_sender_new :: "u64 \<Rightarrow> channel list \<Rightarrow> worker_sender option" where
  "worker_sender_new rnd channels =
     (if channels = [] then None else Some \<lparr>wk_cursor = rnd, wk_channels = channels\<rparr>)"

definition worker_try_send :: "worker_msg \<Rightarrow> worker_sender \<Rightarrow> ((unit, worker_msg) res \<times> worker_sender) option" where
  "worker_try_send msg w =
     (if wk_channels w = [] then None
      else
        (let cursor = wk_cursor w + 1;
             i = unat cursor mod length (wk_channels w)
         in case channel_send msg (wk_channels w ! i) of (res, ch) \<Rightarrow>
              Some (res, w\<lparr>wk_cursor := cursor, wk_channels := (wk_channels w)[i := ch]\<rparr>)))"

definition worker_send :: "worker_msg \<Rightarrow> worker_sender \<Rightarrow> worker_sender option" where
  "worker_send msg w = map_option snd (worker_try_send msg w)"

section \<open>Workers\<close>

definition handler_dht_connection :: "'db sys \<Rightarrow> node_id \<Rightarrow> 'db database \<Rightarrow> 'db database" where
  "handler_dht_connection sy peer d =
     d\<lparr>db_env := (db_env d)\<lparr>ev_effects := ev_effects (db_env d) @
         dht_effects sy (on_connection (sy_ring_codec sy) (ev_dht (db_env d)) peer)\<rparr>\<rparr>"

definition worker_handle :: "'db sys \<Rightarrow> worker_msg \<Rightarrow> 'db database \<Rightarrow> 'db database option" where
  "worker_handle sy wm d =
     (case wm of
        Fabric_Msg from m \<Rightarrow> handler_fabric_msg sy from m d
      | Command_Msg c \<Rightarrow> handler_cmd sy c d
      | Tick_Msg \<Rightarrow> handler_tick sy d
      | DHTFabric_Msg from m \<Rightarrow> handler_dht_msg sy from m d
      | DHTChange_Msg \<Rightarrow> handler_dht_change sy d
      | Exit_Msg \<Rightarrow> Some d)"

text \<open>
  The loop of a worker over the messages of its channel, each with the surroundings it meets;
  \<^verbatim>\<open>Exit\<close> ends it and leaves the rest.
\<close>

fun worker_fn :: "('db sys \<times> worker_msg) list \<Rightarrow> 'db database \<Rightarrow> 'db database option" where
  "worker_fn [] d = Some d"
| "worker_fn ((sy, wm) # chan) d =
     (case wm of
        Exit_Msg \<Rightarrow> Some d
      | _ \<Rightarrow> Option.bind (worker_handle sy wm d) (worker_fn chan))"

end
