(* ===== verification/VNode_Requests.thy ===== *)
theory VNode_Requests
  imports VNode
begin

text \<open>
  The life of a request at its coordinator: replies are counted until the consistency level is met
  or every replica has answered, and the client gets exactly one reply; a request that stays open
  is answered by the timer; a write is stored before anything about it is sent.
\<close>

section \<open>Counting replies\<close>

fun succeeded :: "('a, 'e) res \<Rightarrow> bool" where
  "succeeded (Ok _) = True"
| "succeeded _ = False"

definition successes :: "('a, 'e) res list \<Rightarrow> nat" where
  "successes rs = length (filter succeeded rs)"

lemma successes_simps [simp]:
  "successes [] = 0" "successes (r # rs) = (if succeeded r then 1 else 0) + successes rs"
  by (simp_all add: successes_def)

lemma successes_le: "successes rs \<le> length rs"
  by (simp add: successes_def)

text \<open>The replies of the replicas arrive one after the other.\<close>

fun deliver :: "(cookie \<Rightarrow> 'r \<Rightarrow> vnode \<Rightarrow> 'db env \<Rightarrow> (bool \<times> vnode \<times> 'db env) option) \<Rightarrow> cookie \<Rightarrow> 'r list \<Rightarrow>
    vnode \<Rightarrow> 'db env \<Rightarrow> (vnode \<times> 'db env) option" where
  "deliver process cookie [] v e = Some (v, e)"
| "deliver process cookie (r # rs) v e = do {
     (_, v, e) \<leftarrow> process cookie r v e;
     deliver process cookie rs v e
   }"

lemma deliver_gone:
  assumes "map_of (ifm_map (vd_requests v)) cookie = None"
  shows "deliver (process_reply update render) cookie rs v e = Some (v, e)"
  by (induction rs) (simp_all add: process_reply_def assms)

text \<open>
  A request is open while neither its consistency level is met nor all replies are in. The
  counters are bytes; they do not overflow.
\<close>

definition req_open :: "req_state \<Rightarrow> bool" where
  "req_open r \<longleftrightarrow> rq_succesfull r < rq_required r \<and> rq_succesfull r \<le> rq_replies r \<and> rq_replies r < rq_total r"

lemma req_new_sel [simp]:
  "rq_replies (req_new c n consistency) = 0" "rq_succesfull (req_new c n consistency) = 0"
  "rq_required (req_new c n consistency) = required consistency (of_nat n)"
  "rq_total (req_new c n consistency) = of_nat n" "rq_context (req_new c n consistency) = c"
  by (simp_all add: req_new_def)

lemma req_new_open:
  assumes "0 < n" "n < 256"
  shows "req_open (req_new c n consistency)"
proof -
  have n: "unat (of_nat n :: u8) = n"
    using assms(2) by (simp add: unat_of_nat)
  then have "0 < (of_nat n :: u8)"
    using assms(1) by (metis unat_gt_0 word_neq_0_conv neq0_conv)
  then show ?thesis
    using required_bounds [of "of_nat n" consistency] by (simp add: req_open_def word_less_nat_alt)
qed

lemma count_reply_counters:
  assumes "req_open r"
  shows "unat (rq_replies (count_reply update x r)) = unat (rq_replies r) + 1"
    and "unat (rq_succesfull (count_reply update x r)) = unat (rq_succesfull r) + (if succeeded x then 1 else 0)"
    and "rq_required (count_reply update x r) = rq_required r" "rq_total (count_reply update x r) = rq_total r"
proof -
  have "unat (rq_total r) < 256"
    using unsigned_less [of "rq_total r"] by simp
  then have "unat (rq_replies r) + 1 < 256" "unat (rq_succesfull r) + 1 < 256"
    using assms by (simp_all add: req_open_def word_less_nat_alt word_le_nat_alt)
  then show "unat (rq_replies (count_reply update x r)) = unat (rq_replies r) + 1"
    and "unat (rq_succesfull (count_reply update x r)) = unat (rq_succesfull r) + (if succeeded x then 1 else 0)"
    and "rq_required (count_reply update x r) = rq_required r" "rq_total (count_reply update x r) = rq_total r"
    by (cases x; simp add: count_reply_def Let_def unat_word_ariths)+
qed

lemma process_reply_step:
  assumes "map_of (ifm_map (vd_requests v)) cookie = Some r"
  shows "process_reply update render cookie x v e =
    (let r' = count_reply update x r; reqs = vd_requests v;
         gone = v\<lparr>vd_requests := reqs\<lparr>ifm_map := AList.delete cookie (ifm_map reqs)\<rparr>\<rparr>
     in if satisfied r' then map_option (\<lambda>c. (True, gone, respond c e)) (render (rq_context r'))
        else if rq_replies r' = rq_total r'
        then Some (True, gone, respond_error (ctx_clear (rq_context r')) Unavailable e)
        else Some (False, v\<lparr>vd_requests := reqs\<lparr>ifm_map := AList.update cookie r' (ifm_map reqs)\<rparr>\<rparr>, e))"
  using assms by (simp add: process_reply_def Let_def req_done_def split: option.splits)

lemma deliver_decides:
  assumes upd: "\<And>x c. P c \<Longrightarrow> P (update x c)" "\<And>x c. ctx_clear (update x c) = ctx_clear c"
    and render: "\<And>c. P c \<Longrightarrow> \<exists>c'. render c = Some c' \<and> Q c'"
    and "map_of (ifm_map (vd_requests v)) cookie = Some r" "req_open r" "P (rq_context r)"
    and "unat (rq_replies r) + length rs = unat (rq_total r)"
  shows "\<exists>v' c'. deliver (process_reply update render) cookie rs v e = Some (v', respond c' e) \<and>
    map_of (ifm_map (vd_requests v')) cookie = None \<and>
    (if unat (rq_succesfull r) + successes rs < unat (rq_required r)
     then c' = ctx_respond (command_error_into Unavailable) (ctx_clear (rq_context r)) else Q c')"
  using assms(4-7)
proof (induction rs arbitrary: v r)
  case Nil
  then show ?case
    by (simp add: req_open_def word_less_nat_alt)
next
  case (Cons x rs)
  let ?r = "count_reply update x r" and ?reqs = "vd_requests v"
  let ?gone = "v\<lparr>vd_requests := ?reqs\<lparr>ifm_map := AList.delete cookie (ifm_map ?reqs)\<rparr>\<rparr>"
  note n = count_reply_counters [OF Cons.prems(2), of update x]
  have P: "P (rq_context ?r)" and clear: "ctx_clear (rq_context ?r) = ctx_clear (rq_context r)"
    using Cons.prems(3) upd by (cases x; simp add: count_reply_def Let_def)+
  have gone: "map_of (ifm_map (vd_requests ?gone)) cookie = None"
    by (simp add: delete_conv')
  note step = process_reply_step [OF Cons.prems(1), of update render x e]
  consider (yes) "satisfied ?r" | (no) "\<not> satisfied ?r" "rs = []" | (more) "\<not> satisfied ?r" "rs \<noteq> []"
    by blast
  then show ?case
  proof cases
    case yes
    obtain c' where "render (rq_context ?r) = Some c'" "Q c'"
      using render [OF P] by blast
    then show ?thesis
      using yes gone n by (auto simp: step Let_def deliver_gone satisfied_def word_le_nat_alt)
  next
    case no
    then have "rq_replies ?r = rq_total ?r"
      using Cons.prems(4) n by (simp add: word_unat_eq_iff)
    then show ?thesis
      using no gone n clear by (auto simp: step Let_def respond_error_def respond_resp_def satisfied_def word_le_nat_alt)
  next
    case more
    then have ne: "rq_replies ?r \<noteq> rq_total ?r"
      using Cons.prems(4) n by (auto simp: word_unat_eq_iff simp flip: length_greater_0_conv)
    let ?v = "v\<lparr>vd_requests := ?reqs\<lparr>ifm_map := AList.update cookie ?r (ifm_map ?reqs)\<rparr>\<rparr>"
    have "req_open ?r"
      using Cons.prems(2,4) n more ne
      by (simp add: req_open_def satisfied_def word_le_nat_alt word_less_nat_alt word_unat_eq_iff split: if_splits)
    moreover have "map_of (ifm_map (vd_requests ?v)) cookie = Some ?r"
      by (simp add: map_of_update)
    ultimately have IH: "\<exists>v' c'. deliver (process_reply update render) cookie rs ?v e = Some (v', respond c' e) \<and>
        map_of (ifm_map (vd_requests v')) cookie = None \<and>
        (if unat (rq_succesfull r) + successes (x # rs) < unat (rq_required r)
         then c' = ctx_respond (command_error_into Unavailable) (ctx_clear (rq_context r)) else Q c')"
      using Cons.IH [of ?v ?r] Cons.prems(4) P unfolding n clear successes_simps add.assoc by simp
    have "deliver (process_reply update render) cookie (x # rs) v e =
        deliver (process_reply update render) cookie rs ?v e"
      using more(1) ne by (simp add: step Let_def)
    with IH show ?thesis
      by (simp only:)
  qed
qed

lemma deliver_new:
  assumes "\<And>x c. P c \<Longrightarrow> P (update x c)" "\<And>x c. ctx_clear (update x c) = ctx_clear c"
    and "\<And>c. P c \<Longrightarrow> \<exists>c'. render c = Some c' \<and> Q c'"
    and "map_of (ifm_map (vd_requests v)) cookie = Some (req_new c n consistency)" "0 < n" "n < 256"
    and "length rs = n" "P c"
  shows "\<exists>v' c'. deliver (process_reply update render) cookie rs v e = Some (v', respond c' e) \<and>
    map_of (ifm_map (vd_requests v')) cookie = None \<and>
    (if successes rs < unat (required consistency (of_nat n))
     then c' = ctx_respond (command_error_into Unavailable) (ctx_clear c) else Q c')"
proof -
  have "unat (of_nat n :: u8) = n"
    using assms(6) by (simp add: unat_of_nat)
  then show ?thesis
    using deliver_decides [where P = P and update = update and render = render and Q = Q, OF assms(1-4)
        req_new_open [OF assms(5,6)], of rs e] assms(7,8)
    unfolding req_new_sel by simp
qed

text \<open>A write can be answered: it has a response or a function that makes one.\<close>

definition answerable :: "context_write \<Rightarrow> bool" where
  "answerable w \<longleftrightarrow> cwr_response w \<noteq> None \<or> cwr_response_fn w \<noteq> None"

lemma render_writes_total: "list_all answerable ws \<Longrightarrow> \<exists>rs. render_writes ws = Some rs \<and> length rs = length ws"
proof (induction ws)
  case (Cons w ws)
  then obtain rs where "render_writes ws = Some rs" "length rs = length ws"
    by auto
  then show ?case
    using Cons.prems by (cases "cwr_response w") (auto simp: answerable_def)
qed simp

lemma merge_writes_keeps:
  "length (merge_writes rs ws) = length ws"
  "list_all answerable (merge_writes rs ws) = list_all answerable ws"
  by (induction rs ws rule: merge_writes.induct) (auto simp: answerable_def split: option.splits)

lemma render_reads_Some: "\<exists>rs. render_reads (Some f) reads = Some rs \<and> length rs = length reads"
  by (induction reads) auto

lemma render_reads_total:
  assumes "reads \<noteq> [] \<longrightarrow> crd_response (hd reads) \<noteq> None"
  shows "\<exists>rs. render_reads None reads = Some rs \<and> length rs = length reads"
proof (cases reads)
  case (Cons rd reads')
  then obtain f where "crd_response rd = Some f"
    using assms by auto
  then show ?thesis
    using render_reads_Some [of f reads'] Cons by auto
qed simp

lemma merge_reads_keeps:
  "length (merge_reads rs reads) = length reads"
  "merge_reads rs reads = [] \<longleftrightarrow> reads = []"
  "reads \<noteq> [] \<Longrightarrow> crd_response (hd (merge_reads rs reads)) = crd_response (hd reads)"
  by (induction rs reads rule: merge_reads.induct) auto

lemma get_quorum:
  assumes "map_of (ifm_map (vd_requests v)) cookie = Some (req_new c n consistency)" "0 < n" "n < 256"
    and "length rs = n" "cx_reads c \<noteq> [] \<longrightarrow> crd_response (hd (cx_reads c)) \<noteq> None"
  shows "\<exists>v' c'. deliver process_get cookie rs v e = Some (v', respond c' e) \<and>
    map_of (ifm_map (vd_requests v')) cookie = None \<and>
    (if successes rs < unat (required consistency (of_nat n))
     then c' = ctx_respond (command_error_into Unavailable) (ctx_clear c)
     else \<exists>resps. length resps = length (cx_reads c) \<and>
       c' = c\<lparr>cx_response := cx_response c @ resps, cx_reads := []\<rparr>)"
proof -
  let ?P = "\<lambda>d. \<exists>reads. d = c\<lparr>cx_reads := reads\<rparr> \<and> length reads = length (cx_reads c) \<and>
    (reads \<noteq> [] \<longrightarrow> crd_response (hd reads) \<noteq> None)"
  have "?P c"
    using assms(5) by (intro exI [of _ "cx_reads c"]) simp
  moreover have "?P (d\<lparr>cx_reads := merge_reads cubes (cx_reads d)\<rparr>)" if "?P d" for cubes d
    using that by (auto simp: merge_reads_keeps)
  moreover have "\<exists>c'. map_option (\<lambda>resps. d\<lparr>cx_response := cx_response d @ resps, cx_reads := []\<rparr>)
      (render_reads None (cx_reads d)) = Some c' \<and>
    (\<exists>resps. length resps = length (cx_reads c) \<and> c' = c\<lparr>cx_response := cx_response c @ resps, cx_reads := []\<rparr>)"
    if "?P d" for d
  proof -
    from that obtain reads where d: "d = c\<lparr>cx_reads := reads\<rparr>" "length reads = length (cx_reads c)"
      "reads \<noteq> [] \<longrightarrow> crd_response (hd reads) \<noteq> None"
      by blast
    from render_reads_total [OF d(3)] d(1,2) show ?thesis
      by auto
  qed
  ultimately show ?thesis
    unfolding process_get_def
    by (intro deliver_new [where P = ?P, OF _ _ _ assms(1-4)]) (simp_all add: ctx_clear_def)
qed

lemma set_quorum:
  assumes "map_of (ifm_map (vd_requests v)) cookie = Some (req_new c n consistency)" "0 < n" "n < 256"
    and "length rs = n" "list_all answerable (cx_writes c)"
  shows "\<exists>v' c'. deliver process_set cookie rs v e = Some (v', respond c' e) \<and>
    map_of (ifm_map (vd_requests v')) cookie = None \<and>
    (if successes rs < unat (required consistency (of_nat n))
     then c' = ctx_respond (command_error_into Unavailable) (ctx_clear c)
     else \<exists>resps. length resps = length (cx_writes c) \<and>
       c' = c\<lparr>cx_response := cx_response c @ resps, cx_writes := []\<rparr>)"
proof -
  let ?P = "\<lambda>d. \<exists>ws. d = c\<lparr>cx_writes := ws\<rparr> \<and> length ws = length (cx_writes c) \<and> list_all answerable ws"
  have "?P c"
    using assms(5) by (intro exI [of _ "cx_writes c"]) simp
  moreover have "?P (d\<lparr>cx_writes := merge_writes cubes (cx_writes d)\<rparr>)" if "?P d" for cubes d
    using that by (auto simp: merge_writes_keeps)
  moreover have "\<exists>c'. map_option (\<lambda>resps. d\<lparr>cx_response := cx_response d @ resps, cx_writes := []\<rparr>)
      (render_writes (cx_writes d)) = Some c' \<and>
    (\<exists>resps. length resps = length (cx_writes c) \<and> c' = c\<lparr>cx_response := cx_response c @ resps, cx_writes := []\<rparr>)"
    if "?P d" for d
  proof -
    from that obtain ws where d: "d = c\<lparr>cx_writes := ws\<rparr>" "length ws = length (cx_writes c)" "list_all answerable ws"
      by blast
    from render_writes_total [OF d(3)] d(1,2) show ?thesis
      by auto
  qed
  ultimately show ?thesis
    unfolding process_set_def
    by (intro deliver_new [where P = ?P, OF _ _ _ assms(1-4)]) (simp_all add: ctx_clear_def)
qed

section \<open>Timeouts\<close>

lemma ifm_pop_expired_heap_subset: "set (ifm_heap (snd (ifm_pop_expired m now))) \<subseteq> set (ifm_heap m)"
proof (induction m now rule: ifm_pop_expired.induct)
  case (1 m now)
  show ?case
  proof (cases "heap_peek (ifm_heap m)")
    case None
    then show ?thesis
      by (simp add: ifm_pop_expired.simps [of m])
  next
    case (Some p)
    obtain t k where p: "p = (t, k)"
      by (cases p)
    note peek = Some [unfolded p]
    have "set (ifm_heap (snd (ifm_pop_expired (m\<lparr>ifm_heap := heap_pop (ifm_heap m)\<rparr>) now))) \<subseteq> set (heap_pop (ifm_heap m))"
      if "t \<le> now" "map_of (ifm_map m) k = None"
      using "1.IH" [OF peek refl that(1) refl] that(2) by simp
    then show ?thesis
      using peek set_heap_pop [OF peek]
      by (auto simp: ifm_pop_expired.simps [of m] Let_def split: option.splits)
  qed
qed

definition timeout_reply :: "req_state \<Rightarrow> effect" where
  "timeout_reply r = Reply (ctx_respond (command_error_into Timeout) (ctx_clear (rq_context r)))"

lemma expire_requests_props:
  assumes "ifm_wf reqs" "expire_requests now reqs e = (reqs', e')"
  shows "\<exists>gone. e' = e\<lparr>ev_effects := ev_effects e @ map (timeout_reply \<circ> snd) gone\<rparr> \<and> distinct (map fst gone) \<and>
    (\<forall>(k, r)\<in>set gone. map_of (ifm_map reqs) k = Some r \<and> (\<exists>t\<le>now. (t, k) \<in> set (ifm_heap reqs))) \<and>
    (\<forall>k. map_of (ifm_map reqs') k = (if k \<in> fst ` set gone then None else map_of (ifm_map reqs) k)) \<and>
    ifm_wf reqs' \<and> (\<forall>p\<in>set (ifm_heap reqs'). now < fst p)"
  using assms
proof (induction now reqs e rule: expire_requests.induct)
  case (1 now reqs e)
  obtain p m where pop: "ifm_pop_expired reqs now = (p, m)"
    by (cases "ifm_pop_expired reqs now")
  note props = ifm_pop_expired_props [OF "1.prems"(1), of now, unfolded pop fst_conv snd_conv]
  show ?case
  proof (cases p)
    case None
    then show ?thesis
      using "1.prems"(2) props pop by (intro exI [of _ "[]"]) (simp add: expire_requests.simps [of now reqs])
  next
    case (Some q)
    obtain k r where q: "q = (k, r)"
      by (cases q)
    have m: "ifm_wf m" "map_of (ifm_map reqs) k = Some r" "\<exists>t\<le>now. (t, k) \<in> set (ifm_heap reqs)"
      "ifm_map m = AList.delete k (ifm_map reqs)"
      using props by (auto simp: Some q)
    have heap: "set (ifm_heap m) \<subseteq> set (ifm_heap reqs)"
      using ifm_pop_expired_heap_subset [of reqs now] by (simp add: pop)
    let ?e = "respond_error (ctx_clear (rq_context r)) Timeout e"
    have "expire_requests now m ?e = (reqs', e')"
      using "1.prems"(2) by (simp add: expire_requests.simps [of now reqs] pop Some q)
    from "1.IH" [OF pop [symmetric] Some q [symmetric] m(1) this] obtain gone where
      gone: "e' = ?e\<lparr>ev_effects := ev_effects ?e @ map (timeout_reply \<circ> snd) gone\<rparr>" "distinct (map fst gone)"
        "\<forall>(k, r)\<in>set gone. map_of (ifm_map m) k = Some r \<and> (\<exists>t\<le>now. (t, k) \<in> set (ifm_heap m))"
        "\<forall>k. map_of (ifm_map reqs') k = (if k \<in> fst ` set gone then None else map_of (ifm_map m) k)"
        "ifm_wf reqs'" "\<forall>p\<in>set (ifm_heap reqs'). now < fst p"
      by blast
    have del: "map_of (ifm_map m) k' = (if k' = k then None else map_of (ifm_map reqs) k')" for k'
      by (simp add: m(4) map_of_delete)
    have new: "k \<notin> fst ` set gone"
      using gone(3) del by fastforce
    show ?thesis
    proof (intro exI [of _ "(k, r) # gone"] conjI)
      show "e' = e\<lparr>ev_effects := ev_effects e @ map (timeout_reply \<circ> snd) ((k, r) # gone)\<rparr>"
        by (simp add: gone(1) timeout_reply_def respond_error_def respond_resp_def respond_def)
      show "distinct (map fst ((k, r) # gone))"
        using gone(2) new by simp
      show "\<forall>(k, r)\<in>set ((k, r) # gone). map_of (ifm_map reqs) k = Some r \<and> (\<exists>t\<le>now. (t, k) \<in> set (ifm_heap reqs))"
        using gone(3) m(2,3) heap by (fastforce simp: del split: if_splits)
      show "\<forall>k'. map_of (ifm_map reqs') k' = (if k' \<in> fst ` set ((k, r) # gone) then None else map_of (ifm_map reqs) k')"
        using gone(4) by (auto simp: del)
    qed (fact gone(5,6))+
  qed
qed

section \<open>Coordinated writes\<close>

text \<open>The request of a cookie can be answered; a reply keeps that, and touches only the request.\<close>

definition set_ok :: "cookie \<Rightarrow> vnode \<Rightarrow> bool" where
  "set_ok cookie v \<longleftrightarrow>
     (\<forall>r. map_of (ifm_map (vd_requests v)) cookie = Some r \<longrightarrow> list_all answerable (cx_writes (rq_context r)))"

lemma process_set_total:
  assumes "set_ok cookie v"
  shows "\<exists>f reqs e'. process_set cookie x v e = Some (f, v\<lparr>vd_requests := reqs\<rparr>, e') \<and> quiet e e' \<and>
    set_ok cookie (v\<lparr>vd_requests := reqs\<rparr>)"
proof (cases "map_of (ifm_map (vd_requests v)) cookie")
  case None
  then show ?thesis
    using assms by (intro exI [of _ True] exI [of _ "vd_requests v"] exI [of _ e]) (simp add: process_set_def process_reply_def)
next
  case (Some r)
  let ?u = "\<lambda>cubes c. c\<lparr>cx_writes := merge_writes cubes (cx_writes c)\<rparr>"
  let ?r = "count_reply ?u x r"
  have ans: "list_all answerable (cx_writes (rq_context ?r))"
    using assms Some by (cases x) (simp_all add: set_ok_def count_reply_def merge_writes_keeps)
  then obtain rs where "render_writes (cx_writes (rq_context ?r)) = Some rs"
    using render_writes_total by blast
  then show ?thesis
    using ans unfolding process_set_def process_reply_step [OF Some] Let_def
    by (auto simp: set_ok_def map_of_update map_of_delete)
qed

lemma send_each_total:
  assumes process: "\<And>err v e. I v \<Longrightarrow> \<exists>f reqs e'. process err v e = Some (f, v\<lparr>vd_requests := reqs\<rparr>, e') \<and>
      quiet e e' \<and> I (v\<lparr>vd_requests := reqs\<rparr>)"
    and "I v"
  shows "\<exists>f reqs e'. send_each sy msg process nodes v e = Some (f, v\<lparr>vd_requests := reqs\<rparr>, e') \<and> quiet e e' \<and>
    I (v\<lparr>vd_requests := reqs\<rparr>)"
  using assms(2)
proof (induction nodes arbitrary: v e)
  case Nil
  then show ?case
    by (intro exI [of _ False] exI [of _ "vd_requests v"] exI [of _ e]) simp
next
  case (Cons node nodes)
  show ?case
  proof (cases "node = this_node e")
    case True
    then show ?thesis
      using Cons.IH [OF Cons.prems] by simp
  next
    case False
    then obtain res e1 where send: "send_msg sy node msg e = Some (res, e1)" "res \<noteq> Panic" "quiet e e1"
      using send_msg_total by blast
    show ?thesis
    proof (cases res)
      case (Ok x)
      from Cons.IH [OF Cons.prems, of e1] show ?thesis
        using send False Ok quiet_trans by fastforce
    next
      case (Err err)
      from process [OF Cons.prems, of err e1] obtain f reqs e2 where
        p: "process err v e1 = Some (f, v\<lparr>vd_requests := reqs\<rparr>, e2)" "quiet e1 e2" "I (v\<lparr>vd_requests := reqs\<rparr>)"
        by blast
      from Cons.IH [OF p(3), of e2] obtain f' reqs' e3 where
        q: "send_each sy msg process nodes (v\<lparr>vd_requests := reqs\<rparr>) e2 = Some (f', v\<lparr>vd_requests := reqs'\<rparr>, e3)"
          "quiet e2 e3" "I (v\<lparr>vd_requests := reqs'\<rparr>)"
        by auto
      note quiet = quiet_trans [OF send(3) p(2)]
      show ?thesis
        using send(1) False Err p(1,3) q quiet quiet_trans [OF quiet q(2)]
        by (cases f) auto
    qed (use send(2) in simp)
  qed
qed

text \<open>One write in the local store: the value or its deletion, and the entry of the log.\<close>

lemma apply_local:
  "apply_ops ([if sub then Delete Default_cf (be16 num @ key) else Put Default_cf (be16 num @ key) x] @
      log_puts num key [d]) m Default_cf (be16 n @ k) =
    (if n = num \<and> k = key then (if sub then None else Some x) else m Default_cf (be16 n @ k))"
  "apply_ops ([if sub then Delete Default_cf (be16 num @ key) else Put Default_cf (be16 num @ key) x] @
      log_puts num key [d]) m Log_cf (build_log_key n d') =
    (if n = num \<and> d' = d then Some key else m Log_cf (build_log_key n d'))"
  unfolding apply_ops_append apply_log_puts by (auto simp: apply_ops_def)

lemma set_local_one:
  assumes ok: "rocks_ok (sy_rocks sy) view" and len: "length key \<le> 510"
    and sub: "is_subsumed cube (vs_clocks st) = Some sub"
  obtains res db where "storage_set_local sy st [(version, key, cube)] e = Some (res, e\<lparr>ev_db := db\<rparr>)"
    "res = Ok () \<or> res = Err StorageError \<and> view db = view (ev_db e)"
    "\<And>n k. res = Ok () \<Longrightarrow> st_view view db n k =
       (if n = vs_num st \<and> k = key then (if sub then None else Some (sy_ser_cube sy cube)) else st_view view (ev_db e) n k)"
    "\<And>n d. res = Ok () \<Longrightarrow> log_view view db n d =
       (if n = vs_num st \<and> d = (this_node e, version) then Some key else log_view view (ev_db e) n d)"
proof -
  define b where "b = [if sub then Delete Default_cf (be16 (vs_num st) @ key)
    else Put Default_cf (be16 (vs_num st) @ key) (sy_ser_cube sy cube)] @ log_puts (vs_num st) key [(this_node e, version)]"
  have b: "local_batch sy st (this_node e) [(version, key, cube)] batch_new = Some b"
    using len sub
    by (cases sub) (simp_all add: batch_put_def batch_del_def batch_set_def build_key_def batch_new_def b_def
        log_puts_def batch_log_set_def)
  obtain rw db where rw: "rk_write (sy_rocks sy) (ev_db e) b = (rw, db)"
    by (cases "rk_write (sy_rocks sy) (ev_db e) b")
  have total: "rw \<noteq> Panic" and v: "rw = Ok () \<Longrightarrow> view db = apply_ops b (view (ev_db e))"
    "rw \<noteq> Ok () \<Longrightarrow> view db = view (ev_db e)"
    using rocks_write_total [OF ok, of "ev_db e" b] rocks_write [OF ok, of "ev_db e" b]
      rocks_write_err [OF ok, of "ev_db e" b] rw by auto
  let ?res = "if rw = Ok () then Ok () else Err StorageError"
  have run: "storage_set_local sy st [(version, key, cube)] e = Some (?res, e\<lparr>ev_db := db\<rparr>)"
    using b rw total by (cases rw) (simp_all add: storage_set_local_def batch_write_def)
  show ?thesis
  proof (rule that [OF run])
    show "?res = Ok () \<or> ?res = Err StorageError \<and> view db = view (ev_db e)"
      using v(2) by simp
    fix n
    {
      assume "?res = Ok ()"
      then have "view db = apply_ops b (view (ev_db e))"
        using v(1) by (simp split: if_splits)
    } note w = this
    show "st_view view db n k = (if n = vs_num st \<and> k = key then (if sub then None else Some (sy_ser_cube sy cube))
        else st_view view (ev_db e) n k)" if "?res = Ok ()" for k
      unfolding st_view_def w [OF that] b_def by (rule apply_local)
    show "log_view view db n d = (if n = vs_num st \<and> d = (this_node e, version) then Some key
        else log_view view (ev_db e) n d)" if "?res = Ok ()" for d
      unfolding log_view_def w [OF that] b_def by (rule apply_local)
  qed
qed

lemma do_flush_stored:
  assumes ready: "vd_status v = Ready" and w: "cx_writes c = [w]" "cwr_mutator_fn w = Some mutator"
    and old: "storage_get sy (vd_state v) e (cwr_key w) = Ok old"
    and event: "bvv_event (vs_clocks (vd_state v)) (this_node e) = (version, clocks)"
    and mut: "mutator (this_node e) version old = Ok (cube, resp)" "resp \<noteq> None \<or> cwr_response_fn w \<noteq> None"
    and nodes: "nodes_for_vnode (ev_dht e) (vd_num v) True True = Some nodes"
    and fresh: "map_of (ifm_map (vd_requests v)) (sy_cookies sy (ev_drawn e)) = None"
    and stored: "storage_set_local sy ((vd_state v)\<lparr>vs_clocks := clocks\<rparr>) [(version, cwr_key w, cube)]
      (e\<lparr>ev_drawn := ev_drawn e + 1\<rparr>) = Some (res, e1)" "res \<noteq> Panic"
  shows "\<exists>c' reqs e'. do_flush sy consistency c v e =
      Some (res, c', v\<lparr>vd_state := (vd_state v)\<lparr>vs_clocks := clocks\<rparr>, vd_requests := reqs\<rparr>, e') \<and>
    (if res = Ok () then quiet e1 e' else reqs = vd_requests v \<and> e' = e1)"
proof (cases res)
  case (Err err)
  then show ?thesis
    using ready w old event mut(1) nodes stored
    by (auto simp: do_flush_def Let_def gen_cookie_def)
next
  case (Ok u)
  let ?cookie = "sy_cookies sy (ev_drawn e)"
  let ?w = "w\<lparr>cwr_version := version, cwr_mutator_fn := None, cwr_cube := cube, cwr_response := resp\<rparr>"
  let ?c = "c\<lparr>cx_writes := [?w\<lparr>cwr_cube := cube_default\<rparr>]\<rparr>"
  let ?v = "v\<lparr>vd_state := (vd_state v)\<lparr>vs_clocks := clocks\<rparr>\<rparr>"
  obtain reqs where reqs: "ifm_insert (vd_requests v) ?cookie (req_new ?c (length nodes) consistency) (request_deadline sy) = Some reqs"
    "map_of (ifm_map reqs) ?cookie = Some (req_new ?c (length nodes) consistency)"
    using fresh by (auto simp: ifm_insert_def map_of_update)
  have set_ok: "set_ok ?cookie (?v\<lparr>vd_requests := reqs\<rparr>)"
    using reqs(2) mut(2) by (auto simp: set_ok_def answerable_def)
  let ?p = "\<lambda>err. process_set ?cookie (Err err)"
  let ?msg = "RemoteSet \<lparr>mrs_vnode = vd_num v, mrs_cookie = ?cookie, mrs_writes = [(cwr_key w, cube, cwr_reply_result w)],
    mrs_reply = (consistency \<noteq> One)\<rparr>"
  from send_each_total [where I = "set_ok ?cookie" and process = ?p, OF process_set_total set_ok, of sy ?msg nodes e1]
  obtain f reqs' e2 where
    s: "send_each sy ?msg ?p nodes (?v\<lparr>vd_requests := reqs\<rparr>) e1 = Some (f, ?v\<lparr>vd_requests := reqs'\<rparr>, e2)"
      "quiet e1 e2" "set_ok ?cookie (?v\<lparr>vd_requests := reqs'\<rparr>)"
    by auto
  from process_set_total [OF s(3), of "Ok [Some cube]" e2] obtain f' reqs'' e3 where
    p: "process_set ?cookie (Ok [Some cube]) (?v\<lparr>vd_requests := reqs'\<rparr>) e2 = Some (f', ?v\<lparr>vd_requests := reqs''\<rparr>, e3)"
      "quiet e2 e3"
    by auto
  show ?thesis
    using ready w old event mut(1) nodes stored(1) Ok reqs(1) s(1,2) p(1) quiet_trans [OF s(2) p(2)]
    by (cases f) (simp_all add: do_flush_def Let_def gen_cookie_def, blast+)
qed (use stored(2) in simp)

section \<open>Properties\<close>

definition ref_vnode :: vnode where
  "ref_vnode = \<lparr>vd_state = ref_state, vd_syncs = [], vd_requests = ifm_new\<rparr>"

lemma ref_vnode_sel [simp]:
  "vd_state ref_vnode = ref_state" "vd_syncs ref_vnode = []" "vd_requests ref_vnode = ifm_new"
  by (simp_all add: ref_vnode_def)

lemma ref_env_sel [simp]:
  "this_node ref_env = 1" "nodes_for_vnode (ev_dht ref_env) 0 True True = Some [1, 2]"
  by (simp_all add: ref_env_def dht_new_def nodes_for_vnode_def ref_ring_def takes_part_def partitions_def)

definition ref_write :: context_write where
  "ref_write =
     \<lparr>cwr_version = 0,
      cwr_mutator_fn = Some (\<lambda>i v c. Ok (Value (value_set (value_with vv_new) i v (Some ''v'') vv_new), Some (RStatus ''OK''))),
      cwr_key = ''k'', cwr_cube = cube_default, cwr_reply_result = False, cwr_response = None, cwr_response_fn = None\<rparr>"

text \<open>
  C5: A write request to \<open>n\<close> replicas is answered exactly once by the time all of them have replied, in
  whatever order successes and failures arrive: with the responses of its writes if at least as many
  replies succeeded as its consistency level requires, and with the error \<^verbatim>\<open>Unavailable\<close> otherwise.
  After that the request is gone.
\<close>

theorem set_quorum_decides:
  assumes "map_of (ifm_map (vd_requests v)) cookie = Some (req_new c n consistency)" "0 < n" "n < 256"
    and "length rs = n" "list_all answerable (cx_writes c)"
  shows "\<exists>v' c'. deliver process_set cookie rs v e = Some (v', respond c' e) \<and>
    map_of (ifm_map (vd_requests v')) cookie = None \<and>
    (if successes rs < unat (required consistency (of_nat n))
     then c' = ctx_respond (command_error_into Unavailable) (ctx_clear c)
     else \<exists>resps. length resps = length (cx_writes c) \<and>
       c' = c\<lparr>cx_response := cx_response c @ resps, cx_writes := []\<rparr>)"
  by (rule set_quorum [OF assms])

theorem set_quorum_decides_witness:
  "let c = (ctx_new 7)\<lparr>cx_writes := [ref_write\<lparr>cwr_response := Some (RStatus ''OK'')\<rparr>]\<rparr>;
       v = ref_vnode\<lparr>vd_requests := \<lparr>ifm_map = [(Cookie 0 1, req_new c 3 Quorum)], ifm_heap = [(1000, Cookie 0 1)]\<rparr>\<rparr>;
       rs = [Err NoRoute, Ok [Some (Void vv_new)], Ok [None]] in
   \<exists>v' c'. deliver process_set (Cookie 0 1) rs v ref_env = Some (v', respond c' ref_env) \<and>
     map_of (ifm_map (vd_requests v')) (Cookie 0 1) = None \<and>
     (if successes rs < unat (required Quorum (of_nat 3))
      then c' = ctx_respond (command_error_into Unavailable) (ctx_clear c)
      else \<exists>resps. length resps = length (cx_writes c) \<and>
        c' = c\<lparr>cx_response := cx_response c @ resps, cx_writes := []\<rparr>)"
  unfolding Let_def by (rule set_quorum_decides) (simp_all add: answerable_def)

text \<open>
  C15: The timer answers every request whose deadline has passed, each exactly once and with the error
  \<^verbatim>\<open>Timeout\<close>, and removes it; the others stay as they are, and each of them has a deadline to come.
\<close>

theorem timeouts_answered:
  assumes "ifm_wf reqs"
  shows "\<exists>reqs' gone. expire_requests now reqs e =
      (reqs', e\<lparr>ev_effects := ev_effects e @ map (timeout_reply \<circ> snd) gone\<rparr>) \<and> distinct (map fst gone) \<and>
    (\<forall>(k, r)\<in>set gone. map_of (ifm_map reqs) k = Some r \<and> (\<exists>t\<le>now. (t, k) \<in> set (ifm_heap reqs))) \<and>
    (\<forall>k. map_of (ifm_map reqs') k = (if k \<in> fst ` set gone then None else map_of (ifm_map reqs) k)) \<and>
    (\<forall>k\<in>fst ` set (ifm_map reqs'). \<exists>t>now. (t, k) \<in> set (ifm_heap reqs'))"
proof -
  obtain reqs' e' where run: "expire_requests now reqs e = (reqs', e')"
    by (cases "expire_requests now reqs e")
  from expire_requests_props [OF assms run] obtain gone where
    g: "e' = e\<lparr>ev_effects := ev_effects e @ map (timeout_reply \<circ> snd) gone\<rparr>" "distinct (map fst gone)"
      "\<forall>(k, r)\<in>set gone. map_of (ifm_map reqs) k = Some r \<and> (\<exists>t\<le>now. (t, k) \<in> set (ifm_heap reqs))"
      "\<forall>k. map_of (ifm_map reqs') k = (if k \<in> fst ` set gone then None else map_of (ifm_map reqs) k)"
      "ifm_wf reqs'" "\<forall>p\<in>set (ifm_heap reqs'). now < fst p"
    by blast
  have "\<exists>t>now. (t, k) \<in> set (ifm_heap reqs')" if "k \<in> fst ` set (ifm_map reqs')" for k
    using g(5,6) that by (fastforce simp: ifm_wf_def)
  then show ?thesis
    using run g(1-4) by blast
qed

theorem timeouts_answered_witness:
  "let r = req_new (ctx_new 7) 3 One;
       reqs = \<lparr>ifm_map = [(Cookie 0 1, r), (Cookie 0 2, r)], ifm_heap = [(1000, Cookie 0 1), (2000, Cookie 0 2)]\<rparr> in
   \<exists>reqs' gone. expire_requests (1500 :: instant) reqs ref_env =
      (reqs', ref_env\<lparr>ev_effects := ev_effects ref_env @ map (timeout_reply \<circ> snd) gone\<rparr>) \<and> distinct (map fst gone) \<and>
    (\<forall>(k, r)\<in>set gone. map_of (ifm_map reqs) k = Some r \<and> (\<exists>t\<le>1500. (t, k) \<in> set (ifm_heap reqs))) \<and>
    (\<forall>k. map_of (ifm_map reqs') k = (if k \<in> fst ` set gone then None else map_of (ifm_map reqs) k)) \<and>
    (\<forall>k\<in>fst ` set (ifm_map reqs'). \<exists>t>1500. (t, k) \<in> set (ifm_heap reqs'))"
  unfolding Let_def by (rule timeouts_answered) (simp add: ifm_wf_def)



end
