(* ===== verification/Reference_Node.thy ===== *)
theory Reference_Node
  imports VNode_Requests Database
begin

text \<open>
  A node on the reference instance of \<open>System\<close>: it joins a cluster of two through its peer, with the
  ring it received, and owns the one vnode. Theorems about nodes are applied to it.
\<close>

definition ref_startup :: startup where
  "ref_startup =
     \<lparr>su_data_dir_clean = True, su_cluster_name = ''c'', su_cmd_init = None, su_listen_addr = (''10.0.0.1'', 6379),
      su_fabric_addr = (''10.0.0.1'', 16379), su_sync_aae = True, su_sync_on_connect = True, su_random_i64 = 1,
      su_random_u32 = 0, su_connections = [2], su_received = ref_ring\<rparr>"

definition ref_node :: "mem_db database" where
  "ref_node = \<lparr>db_vnodes = [(0, ref_vnode)], db_env = ref_env\<rparr>"

section \<open>The in-memory store\<close>

lemma mem_set: "length key \<le> 510 \<Longrightarrow> st_set mem_rocks num db key x = (Ok (), (AList.update (be16 num @ key) x (fst db), snd db))"
  by (cases db) (simp add: st_set_def batch_set_def build_key_def batch_new_def batch_write_def mem_rocks_def)

lemma mem_del: "length key \<le> 510 \<Longrightarrow> st_del mem_rocks num db key = (Ok (), (AList.delete (be16 num @ key) (fst db), snd db))"
  by (cases db) (simp add: st_del_def batch_del_def build_key_def batch_new_def batch_write_def mem_rocks_def)

lemma mem_get: "length key \<le> 510 \<Longrightarrow> st_get mem_rocks num db key = Ok (map_of (fst db) (be16 num @ key))"
  by (cases db) (simp add: st_get_def build_key_def mem_rocks_def)

lemma mem_clear: "\<exists>db'. st_clear mem_rocks num db = Some db'"
proof -
  have "\<exists>db'. clear_keys mem_rocks c ks db = Some db'" for c ks db
    by (induction ks arbitrary: db) (simp_all add: mem_rocks_def)
  then have cf: "\<exists>db'. clear_cf mem_rocks num c db = Some db'" for c db
    by (simp add: clear_cf_def mem_rocks_def)
  obtain db1 where "clear_cf mem_rocks num Default_cf db = Some db1"
    using cf by blast
  then show ?thesis
    using cf [of Log_cf db1] by (simp add: st_clear_def)
qed

section \<open>The start of the node\<close>

lemma ref_choose_node: "choose_node ref_startup None None = Some (None, 1)"
  by (simp add: choose_node_def ref_startup_def)

lemma ref_open_dht:
  "\<exists>es. open_dht ref_sys ref_startup None None 1 = Some ((dht_new 1 ''c'' True True 0)\<lparr>dht_ring := ref_ring\<rparr>, es)"
  by (simp add: open_dht_def ref_startup_def Let_def dht_join_cluster_def enter_ring_def dht_join_node_def propose_def
      join_node_def dht_new_def ref_ring_def)

lemma ref_vd_new:
  assumes "map_of (fst (ev_db e)) (be16 meta_num @ ''0'') = None"
  shows "\<exists>db. vd_new ref_sys 0 Ready e = Some (ref_vnode, e\<lparr>ev_db := db\<rparr>)"
proof -
  obtain db1 where clear: "st_clear mem_rocks 0 (AList.delete (be16 meta_num @ ''0'') (fst (ev_db e)), snd (ev_db e)) = Some db1"
    using mem_clear by blast
  have "show_nat (unat (0 :: u16)) = ''0''"
    by (simp add: show_nat.simps digit_char_def char_of_def bit_iff_odd)
  then have "vs_load ref_sys 0 Ready e = Some (ref_state, e\<lparr>ev_db := db1\<rparr>)"
    using assms clear by (simp add: vs_load_def mem_get new_empty_def mem_del ref_state_def)
  moreover have "\<exists>db. vs_save ref_sys ref_state False (e\<lparr>ev_db := db1\<rparr>) = Some (e\<lparr>ev_db := db\<rparr>)"
    by (simp add: vs_save_def meta_key_def mem_set show_nat.simps) (rule exI, rule exI, rule refl)
  then obtain db where "vs_save ref_sys ref_state False (e\<lparr>ev_db := db1\<rparr>) = Some (e\<lparr>ev_db := db\<rparr>)"
    by blast
  ultimately have "vd_new ref_sys 0 Ready e = Some (ref_vnode, e\<lparr>ev_db := db\<rparr>)"
    by (simp add: vd_new_def ref_vnode_def)
  then show ?thesis
    by blast
qed

text \<open>The node starts, with its vnode ready and no synchronisation running.\<close>

lemma ref_started:
  "\<exists>db es. db_new ref_sys ref_startup ([], []) =
     Some (ref_node\<lparr>db_env := \<lparr>ev_db = db, ev_dht = (ev_dht ref_env)\<lparr>dht_callback := True\<rparr>, ev_incomming_syncs = 0,
       ev_outgoing_syncs = 0, ev_drawn = 0, ev_effects = es\<rparr>\<rparr>)"
proof -
  obtain es where dht: "open_dht ref_sys ref_startup None None 1 = Some ((dht_new 1 ''c'' True True 0)\<lparr>dht_ring := ref_ring\<rparr>, es)"
    using ref_open_dht by blast
  let ?dht = "(dht_new 1 ''c'' True True 0)\<lparr>dht_ring := ref_ring\<rparr>" and ?m = "be16 meta_num"
  let ?ring = "save_ring (sy_ring_codec ref_sys) ?dht"
  let ?e = "\<lparr>ev_db = ([(?m @ ''cluster'', ''c''), (?m @ ''node'', ''1''), (?m @ ''ring'', ?ring)], []),
      ev_dht = ?dht\<lparr>dht_callback := True\<rparr>, ev_incomming_syncs = 0, ev_outgoing_syncs = 0, ev_drawn = 0,
      ev_effects = dht_effects ref_sys es\<rparr>"
  obtain db where "vd_new ref_sys 0 Ready ?e = Some (ref_vnode, ?e\<lparr>ev_db := db\<rparr>)"
    using ref_vd_new [of ?e] by auto
  moreover have "vnodes_for_node ?dht 1 = ([0], [])" "partitions ?dht = 1"
    by (simp_all add: vnodes_for_node_def partitions_def ref_ring_def)
  moreover have "show_nat (unat (1 :: node_id)) = ''1''"
    by (simp add: show_nat.simps digit_char_def char_of_def bit_iff_odd)
  moreover have "su_cmd_init ref_startup = None" "su_cluster_name ref_startup = ''c''"
    by (simp_all add: ref_startup_def)
  ultimately show ?thesis
    using dht
    by (simp add: db_new_def meta_get_def meta_set_def meta_del_def mem_get mem_set mem_del ref_choose_node ref_node_def
        ref_env_def)
qed

end
