(* ===== verification/Node_Invariant.thy ===== *)
theory Node_Invariant
  imports VNode_Status Workers Reference_Node
begin

text \<open>
  The invariant of a node in every state it can reach: each vnode keeps its discipline, and the
  counters of running synchronisations are the numbers of synchronisations its vnodes have
  registered and stay within the configured limits. Client commands touch the node only through a
  few operations; the locale \<open>command_invariant\<close> lifts what these keep to all commands.
\<close>

section \<open>Client commands\<close>

definition keeps :: "('db database \<Rightarrow> bool) \<Rightarrow> 'db command \<Rightarrow> bool" where
  "keeps P f \<longleftrightarrow> (\<forall>c d r c' d'. P d \<longrightarrow> f c d = Some (r, c', d') \<longrightarrow> P d')"

lemma keepsI: "(\<And>c d r c' d'. P d \<Longrightarrow> f c d = Some (r, c', d') \<Longrightarrow> P d') \<Longrightarrow> keeps P f"
  by (simp add: keeps_def)

lemma keepsD: "keeps P f \<Longrightarrow> P d \<Longrightarrow> f c d = Some (r, c', d') \<Longrightarrow> P d'"
  by (simp add: keeps_def)

named_theorems command_keeps

lemma keeps_question [command_keeps]: "(\<And>x. keeps P (f x)) \<Longrightarrow> keeps P (question r f)"
  by (auto simp: keeps_def question_def split: res.splits)

lemma keeps_if [command_keeps]: "keeps P f \<Longrightarrow> keeps P g \<Longrightarrow> keeps P (if b then f else g)"
  by simp

lemma keeps_fail [command_keeps]: "keeps P (\<lambda>c d. Some (Err err, c, d))" "keeps P (\<lambda>c d. None)"
  by (simp_all add: keeps_def)

lemma keeps_let [command_keeps]: "(\<And>x. keeps P (f x)) \<Longrightarrow> keeps P (let x = a in f x)"
  by simp

text \<open>What the commands of clients use of a node.\<close>

locale command_invariant =
  fixes sy :: "'db sys" and P :: "'db database \<Rightarrow> bool"
  assumes get: "keeps P (on_key_vnode k (do_get sy keys consistency render))"
    and flush: "keeps P (on_key_vnode k (do_flush sy consistency))"
    and respond: "P d \<Longrightarrow> P (d\<lparr>db_env := respond_resp c resp (db_env d)\<rparr>)"
    and ring: "P d \<Longrightarrow> run_dht sy f (db_env d) = (res, e) \<Longrightarrow> P (d\<lparr>db_env := e\<rparr>)"
begin

lemma keeps_reply: "keeps P (reply resp)"
  using respond by (auto simp: keeps_def reply_def)

lemma keeps_db_get: "keeps P (db_get sy key consistency render)"
  using get by (auto simp: keeps_def db_get_def debug_assert_def split: if_splits option.splits)

lemma keeps_db_mget: "keeps P (db_mget sy keys consistency render)"
  using get respond by (auto simp: keeps_def db_mget_def debug_assert_def split: if_splits option.splits res.splits)

lemma keeps_db_set: "keeps P (db_set sy key mutator consistency reply_result response)"
  using flush by (auto simp: keeps_def db_set_def debug_assert_def Let_def split: if_splits option.splits)

lemma keeps_db_set_flush: "keeps P (db_set_flush sy consistency)"
  using flush respond
  by (auto simp: keeps_def db_set_flush_def debug_assert_def split: if_splits option.splits res.splits)

lemmas keeps_base = keeps_reply keeps_db_get keeps_db_mget keeps_db_set keeps_db_set_flush command_keeps

lemma keeps_writes:
  "keeps P (cmd_hset sy args)" "keeps P (cmd_hdel sy args)" "keeps P (cmd_sadd sy args)" "keeps P (cmd_srem sy args)"
  "keeps P (cmd_set sy b args)" "keeps P (cmd_del sy args)" "keeps P (cmd_cset sy args)" "keeps P (cmd_incrby sy args)"
  unfolding cmd_hset_def cmd_hdel_def cmd_sadd_def cmd_srem_def cmd_set_def cmd_del_def cmd_cset_def cmd_incrby_def
  by (intro keeps_base)+

lemma keeps_reads:
  "keeps P (cmd_get sy args)" "keeps P (cmd_cget sy args)" "keeps P (cmd_hgetall sy args)"
  "keeps P (cmd_smembers sy args)" "keeps P (cmd_type sy args)"
  unfolding cmd_get_def cmd_cget_def cmd_hgetall_def cmd_smembers_def cmd_type_def cmd_read_def
  by (intro keeps_base)+

lemma keeps_mget: "keeps P (cmd_mget sy args)"
proof (rule keepsI)
  fix c d r c' d'
  let ?f = "question (check_arg_count (length args) 1 100) (\<lambda>_.
        question (parse_int_arg parse_u64 0 (length args > 0) args 0) (\<lambda>n.
          let key_count = unat n in
          if length args \<le> key_count then (\<lambda>c d. Some (Err InvalidCommand, c, d))
          else
            (let keys = take key_count (drop 1 args)
             in question (parse_consistency sy (length args > 1 + key_count) args (1 + key_count)) (\<lambda>consistency.
                question (check_keys keys) (\<lambda>_.
                  db_mget sy keys consistency (render_value (sy_ser_vv sy)))))))"
  have "keeps P ?f"
    by (intro keeps_base)
  moreover assume "P d" "cmd_mget sy args c d = Some (r, c', d')"
  ultimately show "P d'"
    by (auto simp: cmd_mget_def split: if_splits dest: keepsD)
qed

lemma keeps_cluster: "keeps P (cmd_cluster sy args)"
  unfolding cmd_cluster_def
proof (rule keeps_question, rule keepsI)
  fix c d r c' d'
  assume "P d" and run: "(if args ! 0 \<in> {''REBALANCE'', ''rebalance''} then
       case run_dht sy (dht_rebalance (sy_ring_codec sy)) (db_env d) of
         (Ok x, e) \<Rightarrow> reply (RStatus ''OK'') c (d\<lparr>db_env := e\<rparr>)
       | (_, e) \<Rightarrow> None
     else if args ! 0 \<in> {''SLOTS'', ''slots''} then
       case slots (ev_dht (db_env d)) of
         None \<Rightarrow> None
       | Some ss \<Rightarrow> reply (RArray (map slot_reply ss)) c d
     else Some (Err UnknownCommand, c, d)) = Some (r, c', d')"
  show "P d'"
    using run ring [OF \<open>P d\<close>] keepsD [OF keeps_reply] \<open>P d\<close>
    by (fastforce split: if_splits prod.splits res.splits option.splits)
qed

lemma keeps_exec_cmd: "keeps P (handle_exec_cmd sy cmd)"
  unfolding handle_exec_cmd_def
  by (cases "command_args cmd") (auto intro!: keeps_writes command_keeps)

lemma keeps_exec_cmds: "keeps P (exec_cmds sy cmds)"
proof (induction cmds)
  case (Cons cmd cmds)
  show ?case
  proof (rule keepsI)
    fix c d r c' d'
    assume "P d" and run: "exec_cmds sy (cmd # cmds) c d = Some (r, c', d')"
    then obtain r1 c1 d1 where one: "handle_exec_cmd sy cmd c d = Some (r1, c1, d1)"
      by (auto simp: bind_eq_Some_conv)
    have "P d1"
      by (rule keepsD [OF keeps_exec_cmd \<open>P d\<close> one])
    then show "P d'"
      using run one keepsD [OF Cons.IH] by (cases r1) auto
  qed
qed (simp add: keeps_def)

lemma keeps_exec: "keeps P (cmd_exec sy args)"
proof (rule keepsI)
  fix c d r c' d'
  let ?body = "\<lambda>consistency c d. if cx_is_exec c then None
      else Option.bind (exec_cmds sy (cx_commands c) (c\<lparr>cx_is_exec := True, cx_commands := []\<rparr>) d)
        (\<lambda>(res, c, d). case res of Ok _ \<Rightarrow> db_set_flush sy consistency c d | _ \<Rightarrow> Some (res, c, d))"
  have "keeps P (?body consistency)" for consistency
  proof (rule keepsI)
    fix c d r c' d'
    assume "P d" and run: "?body consistency c d = Some (r, c', d')"
    then obtain r1 c1 d1 where one:
        "exec_cmds sy (cx_commands c) (c\<lparr>cx_is_exec := True, cx_commands := []\<rparr>) d = Some (r1, c1, d1)" "\<not> cx_is_exec c"
      by (auto simp: bind_eq_Some_conv split: if_splits)
    have "P d1"
      by (rule keepsD [OF keeps_exec_cmds \<open>P d\<close> one(1)])
    then show "P d'"
      using run one keepsD [OF keeps_db_set_flush] by (cases r1) auto
  qed
  then have "keeps P (question (check_arg_count (length args) 0 1) (\<lambda>_.
      question (parse_consistency sy (length args > 0) args 0) ?body))"
    by (intro command_keeps)
  moreover assume "P d" "cmd_exec sy args c d = Some (r, c', d')"
  ultimately show "P d'"
    by (auto simp: cmd_exec_def split: if_splits dest: keepsD)
qed

lemma keeps_single: "keeps P (handle_single_cmd sy cmd arg0 args)"
proof -
  have "keeps P (cmd_multi args)"
    using keepsD [OF keeps_question [OF keeps_reply]] by (auto simp: keeps_def cmd_multi_def split: if_splits)
  moreover have "keeps P (cmd_config args)"
    by (simp add: cmd_config_def keeps_reply)
  ultimately show ?thesis
    unfolding handle_single_cmd_def
    by (intro keeps_if keeps_reads keeps_writes keeps_mget keeps_cluster keeps_exec keeps_base)
qed

lemma keeps_handle_cmd: "keeps P (handle_cmd sy cmd)"
proof (rule keepsI)
  fix c d r c' d'
  assume "P d" and run: "handle_cmd sy cmd c d = Some (r, c', d')"
  show "P d'"
  proof (cases "cx_is_exec c")
    case True
    then show ?thesis
      using run keepsD [OF keeps_exec_cmd \<open>P d\<close>] by (simp add: handle_cmd_def)
  next
    case False
    then show ?thesis
      using run \<open>P d\<close> keepsD [OF keeps_exec \<open>P d\<close>] keepsD [OF keeps_reply \<open>P d\<close>] keepsD [OF keeps_single \<open>P d\<close>]
      by (cases "command_args cmd") (simp_all add: handle_cmd_def del: insert_iff split: if_split_asm)
  qed
qed

lemma handler_cmd_keeps:
  assumes "P d" "handler_cmd sy c d = Some d'"
  shows "P d'"
proof -
  from assms obtain r c1 d1 where run: "cx_commands c \<noteq> []" "handle_cmd sy (last (cx_commands c))
      (c\<lparr>cx_commands := butlast (cx_commands c)\<rparr>) d = Some (r, c1, d1)"
    by (auto simp: handler_cmd_def bind_eq_Some_conv split: if_splits)
  have "P d1"
    by (rule keepsD [OF keeps_handle_cmd assms(1) run(2)])
  then show ?thesis
    using assms(2) run respond by (cases r) (auto simp: handler_cmd_def respond_error_def)
qed

end

section \<open>The invariant of a node\<close>

definition running :: "sync_direction \<Rightarrow> 'db database \<Rightarrow> nat" where
  "running dir d = sum_list (map (active dir \<circ> snd) (db_vnodes d))"

definition node_ok :: "config \<Rightarrow> 'db database \<Rightarrow> bool" where
  "node_ok cfg d \<longleftrightarrow>
     lm_wf (db_vnodes d) \<and>
     (\<forall>(k, v)\<in>set (db_vnodes d). vnode_ok v \<and> vd_num v = k) \<and>
     unat (ev_incomming_syncs (db_env d)) = running Incomming d \<and>
     unat (ev_outgoing_syncs (db_env d)) = running Outgoing d \<and>
     ev_incomming_syncs (db_env d) \<le> cf_sync_incomming_max cfg \<and>
     ev_outgoing_syncs (db_env d) \<le> cf_sync_outgoing_max cfg"

lemma node_ok_vnode: "node_ok cfg d \<Longrightarrow> map_of (db_vnodes d) k = Some v \<Longrightarrow> vnode_ok v"
  by (auto simp: node_ok_def dest!: map_of_SomeD)

lemma node_ok_calm: "node_ok cfg d \<Longrightarrow> calm (db_env d) e \<Longrightarrow> node_ok cfg (d\<lparr>db_env := e\<rparr>)"
  by (simp add: node_ok_def calm_def running_def)

lemma sum_update:
  assumes "map_of m k = Some v"
  shows "sum_list (map (f \<circ> snd) (AList.update k v' m)) + f v = sum_list (map (f \<circ> snd) m) + (f v' :: nat)"
  using assms by (induction m) (auto split: if_splits)

lemma in_update: "x \<in> set (AList.update k v m) \<Longrightarrow> x = (k, v) \<or> x \<in> set m"
  by (induction m) (auto split: if_splits)

lemma with_vnode_ok:
  assumes ok: "node_ok (sy_config sy) d" and run: "with_vnode k f d = Some (r, d')"
    and f: "\<And>v e r v' e'. vnode_ok v \<Longrightarrow> f v e = Some (r, v', e') \<Longrightarrow> tracks sy v e v' e'"
  shows "node_ok (sy_config sy) d'"
proof -
  from run obtain v v' e' where v: "map_of (db_vnodes d) k = Some v" "f v (db_env d) = Some (r, v', e')"
    and d': "d' = d\<lparr>db_vnodes := AList.update k v' (db_vnodes d), db_env := e'\<rparr>"
    by (auto simp: with_vnode_def bind_eq_Some_conv)
  note ok' = ok [unfolded node_ok_def]
  have t: "tracks sy v (db_env d) v' e'"
    using f node_ok_vnode [OF ok v(1)] v(2) by blast
  have num: "vd_num v = k"
    using ok' map_of_SomeD [OF v(1)] by auto
  have sum: "running dir d' + active dir v = running dir d + active dir v'" for dir
    using sum_update [OF v(1), of "active dir" v'] by (simp add: running_def d')
  have "lm_wf (db_vnodes d')" "\<forall>(k, v)\<in>set (db_vnodes d'). vnode_ok v \<and> vd_num v = k"
    using ok' t num unfolding tracks_def by (auto simp: d' distinct_update dest!: in_update)
  then show ?thesis
    using ok' t sum [of Incomming] sum [of Outgoing] unfolding node_ok_def tracks_def by (simp add: d')
qed

lemma on_vnode_ok:
  assumes "node_ok (sy_config sy) d" "on_vnode k f d = Some d'"
    and "\<And>v e v' e'. vnode_ok v \<Longrightarrow> f v e = Some (v', e') \<Longrightarrow> tracks sy v e v' e'"
  shows "node_ok (sy_config sy) d'"
proof -
  from assms(2) obtain r where "with_vnode k (\<lambda>v e. map_option (Pair ()) (f v e)) d = Some (r, d')"
    by (auto simp: on_vnode_def)
  then show ?thesis
    by (rule with_vnode_ok [OF assms(1)]) (auto intro: assms(3))
qed

lemma each_vnode_ok:
  assumes "\<And>k v e v' e'. vnode_ok v \<Longrightarrow> f k v e = Some (v', e') \<Longrightarrow> tracks sy v e v' e'"
  shows "node_ok (sy_config sy) d \<Longrightarrow> each_vnode f ks d = Some d' \<Longrightarrow> node_ok (sy_config sy) d'"
proof (induction ks arbitrary: d)
  case (Cons k ks)
  then obtain d1 where "on_vnode k (f k) d = Some d1" "each_vnode f ks d1 = Some d'"
    by (auto simp: bind_eq_Some_conv)
  then show ?case
    using Cons.IH Cons.prems(1) on_vnode_ok assms by blast
qed simp

lemma on_key_vnode_keeps:
  fixes sy :: "'db sys" and f :: "ctx \<Rightarrow> vnode \<Rightarrow> 'db env \<Rightarrow> ((unit, command_error) res \<times> ctx \<times> vnode \<times> 'db env) option"
  assumes "\<And>c v e r c' v' e'. f c v e = Some (r, c', v', e') \<Longrightarrow> idle v e v' e'"
  shows "keeps (node_ok (sy_config sy)) (on_key_vnode k f)"
proof (rule keepsI)
  fix c d r c' d'
  assume ok: "node_ok (sy_config sy) d" and "on_key_vnode k f c d = Some (r, c', d')"
  then have run: "with_vnode k (\<lambda>v e. map_option (\<lambda>(res, c, v, e). ((res, c), v, e)) (f c v e)) d = Some ((r, c'), d')"
    by (auto simp: on_key_vnode_def)
  show "node_ok (sy_config sy) d'"
    by (rule with_vnode_ok [OF ok run]) (auto intro: idle_tracks assms)
qed

interpretation client: command_invariant sy "node_ok (sy_config sy)" for sy :: "'db sys"
proof
  show "keeps (node_ok (sy_config sy)) (on_key_vnode k (do_get sy keys consistency render))" for k keys consistency render
    by (rule on_key_vnode_keeps) (rule do_get_idle)
  show "keeps (node_ok (sy_config sy)) (on_key_vnode k (do_flush sy consistency))" for k consistency
    by (rule on_key_vnode_keeps) (rule do_flush_idle)
  show "node_ok (sy_config sy) (d\<lparr>db_env := respond_resp c resp (db_env d)\<rparr>)" if "node_ok (sy_config sy) d" for d c resp
    using that by (rule node_ok_calm) (rule quiet_calm, rule quiet_respond)
  show "node_ok (sy_config sy) (d\<lparr>db_env := e\<rparr>)"
    if "node_ok (sy_config sy) d" "run_dht sy f (db_env d) = (res, e)" for d f res e
    using that(1) run_dht_calm [OF that(2)] by (rule node_ok_calm)
qed

section \<open>Handlers\<close>

lemma handler_fabric_msg_ok:
  assumes ok: "node_ok (sy_config sy) d" and run: "handler_fabric_msg sy from msg d = Some d'"
  shows "node_ok (sy_config sy) d'"
proof -
  note step = on_vnode_ok [OF ok]
  show ?thesis
    using run
    by (cases msg)
       (auto simp: handler_fabric_msg_def
         intro: step idle_tracks handler_get_remote_idle handler_set_remote_idle handler_ack_idle
           handler_sync_start_tracks handler_sync_send_tracks handler_sync_ack_tracks handler_sync_fin_tracks)
qed

lemma auto_sync_ok: "node_ok (sy_config sy) d \<Longrightarrow> auto_sync sy ks n d = Some d' \<Longrightarrow> node_ok (sy_config sy) d'"
proof (induction ks arbitrary: n d)
  case (Cons k ks)
  from Cons.prems(2) obtain started d1 where one: "with_vnode k (start_sync_if_ready sy) d = Some (started, d1)"
    by (auto simp: bind_eq_Some_conv)
  have "node_ok (sy_config sy) d1"
    by (rule with_vnode_ok [OF Cons.prems(1) one]) (rule start_sync_if_ready_tracks)
  then show ?case
    using Cons.prems(2) one Cons.IH by (auto simp: Let_def split: if_splits)
qed simp

lemma handler_tick_ok:
  assumes ok: "node_ok (sy_config sy) d" and run: "handler_tick sy d = Some d'"
  shows "node_ok (sy_config sy) d'"
proof -
  obtain dht es where tick: "dht_handler_tick (sy_coin sy) (sy_now sy) (ev_dht (db_env d)) = (dht, es)"
    by (metis surj_pair)
  let ?d = "d\<lparr>db_env := (db_env d)\<lparr>ev_dht := dht, ev_effects := ev_effects (db_env d) @ dht_effects sy es\<rparr>\<rparr>"
  from run tick obtain d1 where d1: "each_vnode (\<lambda>_. vd_handler_tick sy) (vnode_keys d) ?d = Some d1"
    and rest: "d' = d1 \<or> (\<exists>ks n. auto_sync sy ks n d1 = Some d')"
    by (auto simp: handler_tick_def Let_def bind_eq_Some_conv split: if_splits)
  have "node_ok (sy_config sy) ?d"
    using ok by (rule node_ok_calm) (simp add: calm_def)
  then have "node_ok (sy_config sy) d1"
    using d1 by (rule each_vnode_ok [rotated]) (rule vd_handler_tick_tracks)
  then show ?thesis
    using rest auto_sync_ok by blast
qed

lemma handler_dht_msg_ok:
  assumes ok: "node_ok (sy_config sy) d" and run: "handler_dht_msg sy from msg d = Some d'"
  shows "node_ok (sy_config sy) d'"
  using run by (auto simp: handler_dht_msg_def intro!: node_ok_calm [OF ok] simp: calm_def)

lemma handler_dht_change_ok:
  assumes ok: "node_ok (sy_config sy) d" and run: "handler_dht_change sy d = Some d'"
  shows "node_ok (sy_config sy) d'"
proof -
  let ?f = "\<lambda>k v e. Option.bind (dht_final_status k e) (\<lambda>status. vd_handler_dht_change sy status v e)"
  from run obtain db where run: "each_vnode ?f (vnode_keys d) (d\<lparr>db_env := (db_env d)\<lparr>ev_db := db\<rparr>\<rparr>) = Some d'"
    by (auto simp: handler_dht_change_def split: prod.splits res.splits)
  have "node_ok (sy_config sy) (d\<lparr>db_env := (db_env d)\<lparr>ev_db := db\<rparr>\<rparr>)"
    using ok by (rule node_ok_calm) (simp add: calm_def)
  then show ?thesis
    using run by (rule each_vnode_ok [rotated]) (auto simp: bind_eq_Some_conv intro: vd_handler_dht_change_tracks)
qed

lemma worker_handle_ok:
  assumes "node_ok (sy_config sy) d" "worker_handle sy wm d = Some d'"
  shows "node_ok (sy_config sy) d'"
  using assms
  by (cases wm)
     (auto simp: worker_handle_def
       intro: handler_fabric_msg_ok client.handler_cmd_keeps handler_tick_ok handler_dht_msg_ok handler_dht_change_ok)

lemma db_save_ok:
  assumes ok: "node_ok (sy_config sy) d" and run: "db_save sy shutdown d = Some d'"
  shows "node_ok (sy_config sy) d'"
proof -
  from run obtain d1 where d1: "each_vnode (\<lambda>_ v e. map_option (Pair v) (vs_save sy (vd_state v) shutdown e)) (vnode_keys d) d = Some d1"
    by (auto simp: db_save_def bind_eq_Some_conv)
  have "node_ok (sy_config sy) d1"
    by (rule each_vnode_ok [OF _ ok d1]) (auto intro: tracks_refl vs_save_calm)
  then show ?thesis
    using run d1
    by (auto simp: db_save_def calm_def intro!: node_ok_calm split: if_splits prod.splits res.splits)
qed

section \<open>Reachable nodes\<close>

lemma create_vnodes_ok:
  assumes "create_vnodes sy ready pending is e = Some (vs, e')" "distinct is"
    "ev_incomming_syncs e \<le> cf_sync_incomming_max (sy_config sy)" "ev_outgoing_syncs e \<le> cf_sync_outgoing_max (sy_config sy)"
  shows "map fst vs = is \<and> (\<forall>(k, v)\<in>set vs. vnode_ok v \<and> vd_num v = k) \<and>
    unat (ev_incomming_syncs e') = unat (ev_incomming_syncs e) + sum_list (map (active Incomming \<circ> snd) vs) \<and>
    unat (ev_outgoing_syncs e') = unat (ev_outgoing_syncs e) + sum_list (map (active Outgoing \<circ> snd) vs) \<and>
    ev_incomming_syncs e' \<le> cf_sync_incomming_max (sy_config sy) \<and> ev_outgoing_syncs e' \<le> cf_sync_outgoing_max (sy_config sy)"
  using assms
proof (induction "is" arbitrary: vs e)
  case (Cons i "is")
  from Cons.prems(1) obtain status v e1 vs' where new: "vd_new sy i status e = Some (v, e1)"
    and rest: "create_vnodes sy ready pending is e1 = Some (vs', e')" and vs: "vs = (i, v) # vs'"
    by (auto simp: bind_eq_Some_conv)
  obtain v0 where v0: "kinds v0 = []" "vd_num v0 = i" and t: "tracks sy v0 e v e1"
    by (rule vd_new_tracks [OF new])
  have "active dir v0 = 0" for dir
    by (simp add: active_def v0)
  with t v0(2) have e1: "vnode_ok v" "vd_num v = i"
      "unat (ev_incomming_syncs e1) = unat (ev_incomming_syncs e) + active Incomming v"
      "unat (ev_outgoing_syncs e1) = unat (ev_outgoing_syncs e) + active Outgoing v"
      "ev_incomming_syncs e1 \<le> cf_sync_incomming_max (sy_config sy)" "ev_outgoing_syncs e1 \<le> cf_sync_outgoing_max (sy_config sy)"
    using Cons.prems(3,4) unfolding tracks_def by simp_all
  show ?case
    using Cons.IH [OF rest] Cons.prems(2) e1 by (simp add: vs)
qed simp

lemma meta_calm:
  "meta_set sy key x e = Some e' \<Longrightarrow> calm e e'" "meta_del sy key e = Some e' \<Longrightarrow> calm e e'"
  by (auto simp: meta_set_def meta_del_def calm_def split: prod.splits res.splits)

lemma db_new_ok:
  assumes "db_new sy su db = Some d"
  shows "node_ok (sy_config sy) d"
proof -
  from assms obtain node e1 e2 e3 e4 e5 dht es ready pending vs e' where
    m: "calm \<lparr>ev_db = db, ev_dht = dht_new 0 (su_cluster_name su) False False (sy_now sy), ev_incomming_syncs = 0,
        ev_outgoing_syncs = 0, ev_drawn = 0, ev_effects = []\<rparr> e1" "calm e1 e2" "calm e2 e3" "calm e3 e4"
    and vs: "create_vnodes sy ready pending (map of_nat [0..<unat (of_nat (partitions dht) :: vnode_id)])
        (e4\<lparr>ev_dht := dht\<lparr>dht_callback := True\<rparr>, ev_effects := dht_effects sy es\<rparr>) = Some (vs, e')"
    and d: "d = \<lparr>db_vnodes = vs, db_env = e'\<rparr>"
    by (auto simp: db_new_def Let_def bind_eq_Some_conv case_prod_beta split: if_splits dest!: meta_calm)
  let ?n = "of_nat (partitions dht) :: vnode_id"
  have e: "ev_incomming_syncs e4 = 0" "ev_outgoing_syncs e4 = 0"
    using m by (simp_all add: calm_def)
  have "unat (of_nat x :: vnode_id) = x" if "x < unat m" for x and m :: vnode_id
    using less_trans [OF that unsigned_less] by (simp add: unsigned_of_nat take_bit_nat_eq_self)
  then have "distinct (map of_nat [0..<unat ?n] :: vnode_id list)"
    by (auto simp: distinct_map intro: inj_on_inverseI [of _ unat])
  then show ?thesis
    using create_vnodes_ok [OF vs] e by (simp add: node_ok_def d running_def)
qed

text \<open>
  The states a node can reach from its start under one configuration. The surroundings of a step
  (time, routes, random choices, results of the store) are arbitrary.
\<close>

inductive node_reachable :: "config \<Rightarrow> 'db database \<Rightarrow> bool" for cfg where
  start: "sy_config sy = cfg \<Longrightarrow> db_new sy su db = Some d \<Longrightarrow> node_reachable cfg d"
| work: "node_reachable cfg d \<Longrightarrow> sy_config sy = cfg \<Longrightarrow> worker_handle sy wm d = Some d' \<Longrightarrow> node_reachable cfg d'"
| connection: "node_reachable cfg d \<Longrightarrow> sy_config sy = cfg \<Longrightarrow> node_reachable cfg (handler_dht_connection sy peer d)"
| save: "node_reachable cfg d \<Longrightarrow> sy_config sy = cfg \<Longrightarrow> db_save sy shutdown d = Some d' \<Longrightarrow> node_reachable cfg d'"

lemma reachable_ok: "node_reachable cfg d \<Longrightarrow> node_ok cfg d"
proof (induction rule: node_reachable.induct)
  case (connection d sy peer)
  then show ?case
    by (auto simp: handler_dht_connection_def calm_def intro!: node_ok_calm)
qed (auto intro: db_new_ok worker_handle_ok db_save_ok)

lemma ref_reachable: "node_reachable default_config (the (db_new ref_sys ref_startup ([], [])))"
  using ref_started by (auto intro!: node_reachable.start [of ref_sys])

section \<open>Properties\<close>



text \<open>
  C17: In every reachable node the counters of running synchronisations are exactly the numbers of
  incoming and outgoing synchronisations its vnodes have registered, so these never exceed the
  configured maxima.
\<close>

theorem sync_counters_exact:
  assumes "node_reachable cfg d"
  shows "unat (ev_incomming_syncs (db_env d)) = running Incomming d \<and> running Incomming d \<le> unat (cf_sync_incomming_max cfg) \<and>
    unat (ev_outgoing_syncs (db_env d)) = running Outgoing d \<and> running Outgoing d \<le> unat (cf_sync_outgoing_max cfg)"
  using reachable_ok [OF assms] unfolding node_ok_def by (simp add: word_le_nat_alt)

theorem sync_counters_exact_witness:
  "let d = the (db_new ref_sys ref_startup ([], [])); cfg = default_config in
   unat (ev_incomming_syncs (db_env d)) = running Incomming d \<and> running Incomming d \<le> unat (cf_sync_incomming_max cfg) \<and>
   unat (ev_outgoing_syncs (db_env d)) = running Outgoing d \<and> running Outgoing d \<le> unat (cf_sync_outgoing_max cfg)"
  unfolding Let_def by (rule sync_counters_exact [OF ref_reachable])



end
