(* ===== verification/Answers.thy ===== *)
theory Answers
  imports Node_Invariant
begin

text \<open>
  Every command of a client is answered exactly once. A step of the node moves the context of a
  request between the pending requests of a vnode and the replies; no step loses or copies one.
\<close>

section \<open>Steps that leave the requests alone\<close>

definition mute :: "'db env \<Rightarrow> 'db env \<Rightarrow> bool" where
  "mute e e' \<longleftrightarrow> replies e' = replies e"

definition still :: "vnode \<Rightarrow> 'db env \<Rightarrow> vnode \<Rightarrow> 'db env \<Rightarrow> bool" where
  "still v e v' e' \<longleftrightarrow> mute e e' \<and> vd_requests v' = vd_requests v"

lemma mute_refl [simp]: "mute e e"
  by (simp add: mute_def)

lemma mute_trans [trans]: "mute a b \<Longrightarrow> mute b c \<Longrightarrow> mute a c"
  by (simp add: mute_def)

lemma mute_effects: "ev_effects e' = ev_effects e \<Longrightarrow> mute e e'"
  by (simp add: mute_def replies_def)

lemma still_refl [simp]: "still v e v e"
  by (simp add: still_def)

lemma still_trans [trans]: "still a e b f \<Longrightarrow> still b f c g \<Longrightarrow> still a e c g"
  using mute_trans by (auto simp: still_def)

lemma still_mute: "mute e e' \<Longrightarrow> still v e v e'"
  by (simp add: still_def)

lemma sends_mute: "sends e e' \<Longrightarrow> mute e e'"
  by (simp add: sends_def mute_def)

lemma send_msg_mute: "send_msg sy node msg e = Some (res, e') \<Longrightarrow> mute e e'"
  by (rule sends_mute [OF send_msg_sends])

lemma dht_effects_replies: "filter is_reply (dht_effects sy es) = []"
proof (induction es)
  case (Cons x es)
  then show ?case
    by (cases x) auto
qed simp

lemma store_mute:
  "vs_save sy st b e = Some e' \<Longrightarrow> mute e e'"
  "storage_set_local sy st lws e = Some (lr, e') \<Longrightarrow> mute e e'"
  "storage_set_remote sy ws st e = Some (r, st', e') \<Longrightarrow> mute e e'"
  by (auto intro!: mute_effects
      simp: vs_save_def storage_set_local_def storage_set_remote_def
      split: prod.splits res.splits option.splits)

lemma run_dht_mute: "run_dht sy f e = (res, e') \<Longrightarrow> mute e e'"
  by (auto simp: run_dht_def mute_def replies_def dht_effects_replies split: prod.splits)

lemma signal_mute:
  "signal_sync_start sy dir e = (b, e') \<Longrightarrow> mute e e'" "signal_sync_end dir e = Some e' \<Longrightarrow> mute e e'"
  "gen_cookie sy e = (cookie, e') \<Longrightarrow> mute e e'"
  by (auto intro!: mute_effects simp: signal_sync_start_def signal_sync_end_def gen_cookie_def
      split: sync_direction.splits if_splits)

lemma set_status_mute: "set_status sy new st e = Some (st', e') \<Longrightarrow> mute e e'"
  by (auto simp: set_status_def vs_clear_def Let_def bind_eq_Some_conv mute_def replies_def
      split: if_splits vnode_status.splits dest!: store_mute(1))

lemma on_msg_mute:
  "on_msg_fin sy fmsg s st e = Some (res, st', e') \<Longrightarrow> mute e e'"
  "on_msg_send sy smsg s st e = Some (s', st', e') \<Longrightarrow> mute e e'"
  by (auto simp: on_msg_fin_def on_msg_send_def receiver_msg_send_def Let_def bind_eq_Some_conv
      split: sync_direction.splits res.splits fabric_error.splits synchronization.splits if_splits
      dest!: store_mute send_msg_mute intro: mute_trans)

section \<open>Synchronisation\<close>

lemma vd_set_status_still: "vd_set_status sy new v e = Some (v', e') \<Longrightarrow> still v e v' e'"
  by (auto simp: vd_set_status_def still_def dest: set_status_mute)

lemma bootstrap_done_still: "bootstrap_done sy v e = Some (v', e') \<Longrightarrow> still v e v' e'"
  by (auto simp: bootstrap_done_def split: prod.splits res.splits
      dest!: run_dht_mute vd_set_status_still dest: still_mute intro: still_trans)

lemma add_sync_still: "add_sync sy cookie s v e = Some (v', e') \<Longrightarrow> still v e v' e'"
  by (auto simp: add_sync_def bind_eq_Some_conv still_def split: option.splits dest!: on_start_keeps intro: sends_mute)

lemma still_state: "still (v\<lparr>vd_state := st\<rparr>) e v' e' = still v e v' e'"
  by (simp add: still_def)

lemma start_bootstrap_still:
  assumes "start_bootstrap sy v e = Some (v', e')"
  shows "still v e v' e'"
proof -
  obtain cookie e1 where g: "gen_cookie sy e = (cookie, e1)"
    by (metis surj_pair)
  have "still v e v e1"
    using signal_mute(3) [OF g] by (rule still_mute)
  moreover obtain b e2 where sig: "signal_sync_start sy Incomming e1 = (b, e2)"
    by (metis surj_pair)
  have "still v e1 v e2"
    using signal_mute(1) [OF sig] by (rule still_mute)
  then have "still v e1 v' e'"
    using assms sig
    by (auto simp: start_bootstrap_def g Let_def bind_eq_Some_conv still_def split: if_splits
        dest!: bootstrap_done_still add_sync_still intro: mute_trans)
  ultimately show ?thesis
    by (rule still_trans)
qed

lemma handle_bootstrap_result_still: "handle_bootstrap_result sy result v e = Some (v', e') \<Longrightarrow> still v e v' e'"
  by (auto simp: handle_bootstrap_result_def split: sync_result.splits dest: start_bootstrap_still bootstrap_done_still)

lemma send_ignore_mute: "send_ignore sy node msg e = Some e' \<Longrightarrow> mute e e'"
  by (auto simp: send_ignore_def dest: send_msg_mute)

lemma send_fin_error_still: "send_fin_error sy from num cookie err v e = Some (v', e') \<Longrightarrow> still v e v' e'"
  by (auto simp: send_fin_error_def intro: still_mute send_ignore_mute)

lemma handler_sync_start_still:
  assumes "handler_sync_start sy from msg v e = Some (v', e')"
  shows "still v e v' e'"
proof -
  obtain b e1 where sig: "signal_sync_start sy Outgoing e = (b, e1)"
    by (metis surj_pair)
  have "still v e v e1"
    using signal_mute(1) [OF sig] by (rule still_mute)
  then show ?thesis
    using assms sig
    by (auto simp: handler_sync_start_def Let_def bind_eq_Some_conv split: if_splits
        dest!: send_fin_error_still add_sync_still intro: still_trans)
qed

lemma handler_sync_send_still: "handler_sync_send sy from msg v e = Some (v', e') \<Longrightarrow> still v e v' e'"
  by (auto simp: handler_sync_send_def bind_eq_Some_conv still_def split: if_splits option.splits
      dest!: send_fin_error_still on_msg_mute)

lemma handler_sync_ack_still: "handler_sync_ack sy from msg v e = Some (v', e') \<Longrightarrow> still v e v' e'"
  by (auto simp: handler_sync_ack_def bind_eq_Some_conv still_def split: if_splits option.splits
      dest!: send_fin_error_still on_msg_ack_keeps intro: sends_mute)

lemma remove_sync_still: "remove_sync cookie v e = Some (v', e') \<Longrightarrow> still v e v' e'"
  by (auto simp: remove_sync_def on_remove_def Let_def bind_eq_Some_conv still_def dest!: signal_mute(2))

lemma handler_sync_fin_still:
  assumes "handler_sync_fin sy from msg v e = Some (v', e')"
  shows "still v e v' e'"
proof (cases "vd_status v \<in> {Ready, Zombie, Bootstrap} \<and> map_of (vd_syncs v) (msf_cookie msg) \<noteq> None")
  case False
  then show ?thesis
    using assms
    by (auto simp: handler_sync_fin_def split: if_splits option.splits res.splits dest: send_fin_error_still)
next
  case True
  with assms obtain s result st e1 v2 e2 where fin: "on_msg_fin sy msg s (vd_state v) e = Some (result, st, e1)"
    and rm: "(if result = Continue then Some (v\<lparr>vd_state := st\<rparr>, e1) else remove_sync (msf_cookie msg) (v\<lparr>vd_state := st\<rparr>) e1) = Some (v2, e2)"
    and rest: "(if vd_status v2 = Bootstrap then handle_bootstrap_result sy result v2 e2 else Some (v2, e2)) = Some (v', e')"
    by (auto simp: handler_sync_fin_def bind_eq_Some_conv Let_def)
  have "still v e (v\<lparr>vd_state := st\<rparr>) e1"
    using on_msg_mute(1) [OF fin] by (simp add: still_def)
  also have "still (v\<lparr>vd_state := st\<rparr>) e1 v2 e2"
    using rm by (auto split: if_splits dest: remove_sync_still)
  also have "still v2 e2 v' e'"
    using rest by (auto split: if_splits dest: handle_bootstrap_result_still)
  finally show ?thesis .
qed

lemma start_sync_with_still: "start_sync_with sy nodes v e = Some (b, v', e') \<Longrightarrow> still v e v' e'"
proof (induction nodes arbitrary: e)
  case (Cons node nodes)
  obtain ok e1 where sig: "signal_sync_start sy Incomming e = (ok, e1)"
    by (metis surj_pair)
  obtain cookie e2 where g: "gen_cookie sy e1 = (cookie, e2)"
    by (metis surj_pair)
  have m: "still v e v e1" "still v e1 v e2"
    using signal_mute(1) [OF sig] signal_mute(3) [OF g] by (auto intro: still_mute)
  show ?case
    using Cons.prems m
    by (auto simp: sig g Let_def bind_eq_Some_conv split: if_splits dest!: Cons.IH add_sync_still intro: still_trans)
       (auto simp: still_def mute_def)
qed simp

lemma start_sync_if_ready_still: "start_sync_if_ready sy v e = Some (b, v', e') \<Longrightarrow> still v e v' e'"
  by (auto simp: start_sync_if_ready_def do_start_sync_def bind_eq_Some_conv split: if_splits dest: start_sync_with_still)

lemma cancel_syncs_mute: "cancel_syncs sy st ss e = Some (canceled, ss', e') \<Longrightarrow> mute e e'"
proof (induction ss arbitrary: e canceled ss')
  case (Cons p ss)
  then show ?case
    by (cases p) (auto simp: bind_eq_Some_conv split: sync_direction.splits
        dest!: Cons.IH on_cancel_keeps dest: sends_mute mute_trans)
qed simp

lemma remove_syncs_still: "remove_syncs cookies v e = Some (v', e') \<Longrightarrow> still v e v' e'"
  by (induction cookies arbitrary: v e)
     (auto simp: bind_eq_Some_conv dest!: remove_sync_still intro: still_trans)

lemma cancel_incomming_still: "cancel_incomming sy v e = Some (v', e') \<Longrightarrow> still v e v' e'"
  by (auto simp: cancel_incomming_def bind_eq_Some_conv still_def dest!: cancel_syncs_mute remove_syncs_still
      intro: mute_trans)

lemma vd_handler_dht_change_still: "vd_handler_dht_change sy x v e = Some (v', e') \<Longrightarrow> still v e v' e'"
  by (cases "vd_status v"; cases x)
     (auto simp: vd_handler_dht_change_def bind_eq_Some_conv split: if_splits
       dest!: cancel_incomming_still vd_set_status_still start_bootstrap_still intro: still_trans)

lemma tick_syncs_mute: "tick_syncs sy st ss e = Some (terminated, ss', e') \<Longrightarrow> mute e e'"
proof (induction ss arbitrary: e terminated ss')
  case (Cons p ss)
  then show ?case
    by (cases p) (auto simp: bind_eq_Some_conv dest!: Cons.IH on_tick_keeps dest: sends_mute mute_trans)
qed simp

lemma end_syncs_still: "end_syncs sy terminated v e = Some (v', e') \<Longrightarrow> still v e v' e'"
proof (induction terminated arbitrary: v e)
  case (Cons p terminated)
  then show ?case
    by (cases p) (auto simp: bind_eq_Some_conv split: if_splits
        dest!: Cons.IH remove_sync_still handle_bootstrap_result_still intro: still_trans)
qed simp

section \<open>Pending requests and replies of a client\<close>

definition tok :: "token \<Rightarrow> ctx \<Rightarrow> nat" where
  "tok t c = (if cx_token c = t then 1 else 0)"

definition waits :: "token \<Rightarrow> (cookie, req_state, instant) in_flight_map \<Rightarrow> nat" where
  "waits t reqs = length (filter (\<lambda>(_, r). cx_token (rq_context r) = t) (ifm_map reqs))"

fun replies_to :: "token \<Rightarrow> effect \<Rightarrow> bool" where
  "replies_to t (Reply c) \<longleftrightarrow> cx_token c = t"
| "replies_to t _ \<longleftrightarrow> False"

definition answered :: "token \<Rightarrow> 'db env \<Rightarrow> nat" where
  "answered t e = length (filter (replies_to t) (ev_effects e))"

text \<open>A step of a vnode after which \<open>n\<close> more requests of the client are pending or answered.\<close>

definition moves :: "token \<Rightarrow> nat \<Rightarrow> vnode \<Rightarrow> 'db env \<Rightarrow> vnode \<Rightarrow> 'db env \<Rightarrow> bool" where
  "moves t n v e v' e' \<longleftrightarrow>
     ifm_wf (vd_requests v') \<and> waits t (vd_requests v') + answered t e' = waits t (vd_requests v) + answered t e + n"

lemma answered_replies: "answered t e = length (filter (replies_to t) (replies e))"
proof -
  have "filter (replies_to t) (filter is_reply xs) = filter (replies_to t) xs" for xs
  proof (induction xs)
    case (Cons x xs)
    then show ?case
      by (cases x) auto
  qed simp
  then show ?thesis
    by (simp only: answered_def replies_def)
qed

lemma answered_mute: "mute e e' \<Longrightarrow> answered t e' = answered t e"
  by (simp add: answered_replies mute_def)

lemma tok_simps [simp]:
  "tok t (ctx_respond r c) = tok t c" "tok t (ctx_clear c) = tok t c" "tok t (c\<lparr>cx_writes := ws\<rparr>) = tok t c"
  "tok t (c\<lparr>cx_reads := rs\<rparr>) = tok t c" "tok t (c\<lparr>cx_response := resp\<rparr>) = tok t c"
  by (simp_all add: tok_def ctx_respond_def ctx_clear_def)

lemma answered_respond [simp]:
  "answered t (respond c e) = answered t e + tok t c" "answered t (respond_resp c r e) = answered t e + tok t c"
  "answered t (respond_error c err e) = answered t e + tok t c"
  by (simp_all add: answered_def respond_def respond_resp_def respond_error_def tok_def ctx_respond_def)

lemma moves_still: "ifm_wf (vd_requests v) \<Longrightarrow> still v e v' e' \<Longrightarrow> moves t 0 v e v' e'"
  by (simp add: moves_def still_def answered_mute)

lemma moves_wf: "moves t n v e v' e' \<Longrightarrow> ifm_wf (vd_requests v')"
  by (simp add: moves_def)

lemma moves_refl: "ifm_wf (vd_requests v) \<Longrightarrow> moves t 0 v e v e"
  by (simp add: moves_def)

lemma moves_trans: "moves t n a e b f \<Longrightarrow> moves t 0 b f c g \<Longrightarrow> moves t n a e c g"
  by (simp add: moves_def)

lemma length_filter_update:
  assumes "map_of m k = Some x" "P (k, y) = P (k, x)"
  shows "length (filter P (AList.update k y m)) = length (filter P m)"
  using assms by (induction m) (auto split: if_splits)

lemma waits_insert: "ifm_insert reqs k r expire = Some reqs' \<Longrightarrow> waits t reqs' = waits t reqs + tok t (rq_context r)"
  by (auto simp: ifm_insert_def Let_def waits_def tok_def update_fresh map_of_eq_None_iff split: if_splits)

lemma waits_delete:
  assumes "ifm_wf reqs" "map_of (ifm_map reqs) k = Some r" "ifm_map reqs' = AList.delete k (ifm_map reqs)"
  shows "waits t reqs = waits t reqs' + tok t (rq_context r)"
  using length_filter_delete [OF _ assms(2), of "\<lambda>(_, r). cx_token (rq_context r) = t"] assms(1,3)
  by (simp add: waits_def tok_def ifm_wf_def)

section \<open>Requests\<close>

lemma process_reply_moves:
  assumes wf: "ifm_wf (vd_requests v)" and run: "process_reply update render cookie response v e = Some (b, v', e')"
    and upd: "\<And>x c. cx_token (update x c) = cx_token c" and ren: "\<And>c c'. render c = Some c' \<Longrightarrow> cx_token c' = cx_token c"
  shows "moves t 0 v e v' e'"
proof (cases "map_of (ifm_map (vd_requests v)) cookie")
  case None
  then show ?thesis
    using run wf by (simp add: process_reply_def moves_def)
next
  case (Some r)
  let ?r = "count_reply update response r" and ?reqs = "vd_requests v"
  have tok: "tok t (rq_context ?r) = tok t (rq_context r)"
    using upd by (auto simp: count_reply_def Let_def tok_def split: res.splits)
  show ?thesis
  proof (cases "req_done ?r")
    case False
    have "waits t (?reqs\<lparr>ifm_map := AList.update cookie ?r (ifm_map ?reqs)\<rparr>) = waits t ?reqs"
      using length_filter_update [OF Some, of "\<lambda>(_, r). cx_token (rq_context r) = t" ?r] tok
      by (auto simp: waits_def tok_def split: if_splits)
    moreover have "ifm_wf (?reqs\<lparr>ifm_map := AList.update cookie ?r (ifm_map ?reqs)\<rparr>)"
      using wf Some by (auto simp: ifm_wf_def distinct_update dom_update [symmetric] dest!: in_update map_of_SomeD) force
    ultimately show ?thesis
      using run Some False by (auto simp: process_reply_def Let_def moves_def)
  next
    case True
    let ?m = "?reqs\<lparr>ifm_map := AList.delete cookie (ifm_map ?reqs)\<rparr>"
    have "waits t ?reqs = waits t ?m + tok t (rq_context r)"
      by (rule waits_delete [OF wf Some]) simp
    moreover have "ifm_wf ?m"
      using wf by (auto simp: ifm_wf_def AList.delete_eq distinct_map_filter)
    moreover have "tok t c' = tok t (rq_context ?r)" if "render (rq_context ?r) = Some c'" for c'
      using ren [OF that] by (simp add: tok_def)
    ultimately show ?thesis
      using run Some True tok by (auto simp: process_reply_def Let_def moves_def split: if_splits option.splits)
  qed
qed

lemma process_moves:
  assumes "ifm_wf (vd_requests v)"
  shows "process_get cookie r v e = Some (b, v', e') \<Longrightarrow> moves t 0 v e v' e'"
    and "process_set cookie s v e = Some (b, v', e') \<Longrightarrow> moves t 0 v e v' e'"
  by (auto simp: process_get_def process_set_def intro: process_reply_moves [OF assms])

lemma send_each_moves:
  assumes "\<And>err v e b v' e'. ifm_wf (vd_requests v) \<Longrightarrow> process err v e = Some (b, v', e') \<Longrightarrow> moves t 0 v e v' e'"
  shows "ifm_wf (vd_requests v) \<Longrightarrow> send_each sy msg process nodes v e = Some (b, v', e') \<Longrightarrow> moves t 0 v e v' e'"
proof (induction nodes arbitrary: v e)
  case Nil
  then show ?case
    by (simp add: moves_def)
next
  case (Cons node nodes)
  show ?case
  proof (cases "node = this_node e")
    case True
    then show ?thesis
      using Cons by simp
  next
    case False
    with Cons.prems(2) obtain res e1 where send: "send_msg sy node msg e = Some (res, e1)"
      by (auto simp: bind_eq_Some_conv)
    have one: "moves t 0 v e v e1"
      using Cons.prems(1) still_mute [OF send_msg_mute [OF send]] by (rule moves_still)
    have "moves t 0 v e1 v' e'"
    proof (cases res)
      case (Err err)
      with Cons.prems(2) False send obtain b1 v1 e2 where p: "process err v e1 = Some (b1, v1, e2)"
        "(if b1 then Some (True, v1, e2) else send_each sy msg process nodes v1 e2) = Some (b, v', e')"
        by (auto simp: bind_eq_Some_conv)
      note m = assms [OF Cons.prems(1) p(1)]
      show ?thesis
        using p(2) m moves_trans [OF m Cons.IH [OF moves_wf [OF m]]] by (auto split: if_splits)
    qed (use Cons False send in auto)
    then show ?thesis
      using moves_trans [OF one] by blast
  qed
qed

lemma request_moves:
  assumes "ifm_wf (vd_requests v)" "ifm_insert (vd_requests v) k r expire = Some reqs" "mute e e'"
  shows "moves t (tok t (rq_context r)) v e (v\<lparr>vd_requests := reqs\<rparr>) e'"
  using assms ifm_wf_insert [OF assms(1,2)] by (simp add: moves_def waits_insert [OF assms(2)] answered_mute)

lemma rq_context_new [simp]: "rq_context (req_new c n consistency) = c"
  by (simp add: req_new_def)

lemma do_get_moves:
  assumes wf: "ifm_wf (vd_requests v)" and run: "do_get sy keys consistency render c v e = Some (res, c', v', e')"
  shows "res = Ok () \<and> moves t (tok t c) v e v' e' \<or> (\<exists>err. res = Err err \<and> c' = c \<and> v' = v \<and> e' = e)"
proof -
  from run obtain nodes where nodes: "nodes_for_vnode (ev_dht e) (vd_num v) False True = Some nodes"
    by (auto simp: do_get_def bind_eq_Some_conv)
  show ?thesis
  proof (cases "nodes = []")
    case True
    then show ?thesis
      using run nodes by (auto simp: do_get_def)
  next
    case False
    obtain cookie e1 where g: "gen_cookie sy e = (cookie, e1)"
      by (metis surj_pair)
    let ?p = "this_node e \<in> set nodes"
    from run nodes False g obtain reads reqs b v2 e2 where
      lr: "local_reads sy (vd_state v) e1 ?p keys (Some render) = Some reads" and
      ins: "ifm_insert (vd_requests v) cookie (req_new (c\<lparr>cx_reads := cx_reads c @ reads\<rparr>) (length nodes) consistency)
        (request_deadline sy) = Some reqs" and
      p: "(if ?p then process_get cookie (Ok []) (v\<lparr>vd_requests := reqs\<rparr>) e1 else Some (False, v\<lparr>vd_requests := reqs\<rparr>, e1)) =
        Some (b, v2, e2)"
      by (auto simp: do_get_def Let_def bind_eq_Some_conv)
    have rest: "res = Ok () \<and> (v' = v2 \<and> e' = e2 \<or>
        (\<exists>msg b. send_each sy msg (\<lambda>err. process_get cookie (Err err)) nodes v2 e2 = Some (b, v', e')))"
      using run nodes False g lr ins p by (auto simp: do_get_def Let_def bind_eq_Some_conv split: if_split_asm)
    have one: "moves t (tok t c) v e (v\<lparr>vd_requests := reqs\<rparr>) e1"
      using request_moves [OF wf ins signal_mute(3) [OF g]] by simp
    have two: "moves t 0 (v\<lparr>vd_requests := reqs\<rparr>) e1 v2 e2"
      using p moves_wf [OF one] by (auto split: if_split_asm intro: process_moves(1) moves_refl)
    have "res = Ok () \<and> moves t 0 v2 e2 v' e'"
      using rest moves_wf [OF two] by (auto intro: moves_refl send_each_moves process_moves(1))
    then show ?thesis
      using moves_trans [OF one two] moves_trans by blast
  qed
qed

lemma respond_cant_coordinate_answers:
  "respond_cant_coordinate sy status c v e = Some e' \<Longrightarrow> answered t e' = answered t e + tok t c"
  by (cases status)
     (auto simp: respond_cant_coordinate_def Let_def bind_eq_Some_conv respond_moved_def respond_ask_def
       split: list.splits option.splits)

lemma do_flush_moves:
  assumes wf: "ifm_wf (vd_requests v)" and run: "do_flush sy consistency c v e = Some (res, c', v', e')"
  shows "res = Ok () \<and> moves t (tok t c) v e v' e' \<or>
    (\<exists>err. res = Err err \<and> cx_token c' = cx_token c \<and> moves t 0 v e v' e')"
proof (cases "vd_status v = Ready")
  case False
  then show ?thesis
    using run wf by (auto simp: do_flush_def moves_def respond_cant_coordinate_answers)
next
  case True
  with run obtain error ws st where m: "run_mutators sy e (cx_writes c) (vd_state v) = Some (error, ws, st)"
    by (auto simp: do_flush_def bind_eq_Some_conv)
  show ?thesis
  proof (cases error)
    case (Some err)
    then show ?thesis
      using run True m wf by (auto simp: do_flush_def moves_def)
  next
    case None
    obtain cookie e1 where g: "gen_cookie sy e = (cookie, e1)"
      by (metis surj_pair)
    from run True m None g obtain stored e2 nodes where nodes: "nodes_for_vnode (ev_dht e1) (vs_num st) True True = Some nodes"
      and set: "storage_set_local sy st (map (\<lambda>w. (cwr_version w, cwr_key w, cwr_cube w)) ws) e1 = Some (stored, e2)"
      by (auto simp: do_flush_def Let_def bind_eq_Some_conv)
    have mute: "mute e e2"
      using signal_mute(3) [OF g] store_mute(2) [OF set] by (rule mute_trans)
    note run' = run [unfolded do_flush_def] True m None g nodes set
    show ?thesis
    proof (cases stored)
      case (Err err)
      then show ?thesis
        using run' wf mute by (auto simp: Let_def moves_def answered_mute)
    next
      case (Ok u)
      let ?c = "c\<lparr>cx_writes := map (\<lambda>w. w\<lparr>cwr_cube := cube_default\<rparr>) ws\<rparr>"
      let ?msg = "RemoteSet \<lparr>mrs_vnode = vs_num st, mrs_cookie = cookie,
          mrs_writes = map (\<lambda>w. (cwr_key w, cwr_cube w, cwr_reply_result w)) ws, mrs_reply = (consistency \<noteq> One)\<rparr>"
      from run' Ok obtain reqs b v2 e3 where
        ins: "ifm_insert (vd_requests v) cookie (req_new ?c (length nodes) consistency) (request_deadline sy) = Some reqs" and
        each: "send_each sy ?msg (\<lambda>err. process_set cookie (Err err)) nodes (v\<lparr>vd_state := st, vd_requests := reqs\<rparr>) e2 = Some (b, v2, e3)"
        by (auto simp: Let_def bind_eq_Some_conv)
      have rest: "v' = v2 \<and> e' = e3 \<or> (\<exists>x b. process_set cookie x v2 e3 = Some (b, v', e'))" and res: "res = Ok ()"
        using run' Ok ins each by (auto simp: Let_def bind_eq_Some_conv split: if_split_asm)
      have one: "moves t (tok t c) v e (v\<lparr>vd_state := st, vd_requests := reqs\<rparr>) e2"
        using request_moves [OF wf ins mute, of t] by (simp add: moves_def)
      have two: "moves t 0 (v\<lparr>vd_state := st, vd_requests := reqs\<rparr>) e2 v2 e3"
        by (rule send_each_moves [OF process_moves(2) moves_wf [OF one] each])
      have "moves t 0 v2 e3 v' e'"
        using rest moves_wf [OF two] by (auto intro: moves_refl process_moves(2))
      then show ?thesis
        using res moves_trans [OF one two] moves_trans by blast
    qed (use run' in simp)
  qed
qed

lemma handler_remote_still:
  "handler_get_remote sy from gmsg v e = Some (v', e') \<Longrightarrow> still v e v' e'"
  "handler_set_remote sy from smsg v e = Some (v', e') \<Longrightarrow> still v e v' e'"
  by (auto simp: handler_get_remote_def handler_set_remote_def Let_def bind_eq_Some_conv still_def split: if_splits
      dest!: send_ignore_mute store_mute(3) intro: mute_trans)

lemma handler_ack_moves:
  assumes "ifm_wf (vd_requests v)"
  shows "handler_get_remote_ack gmsg v e = Some (v', e') \<Longrightarrow> moves t 0 v e v' e'"
    and "handler_set_remote_ack smsg v e = Some (v', e') \<Longrightarrow> moves t 0 v e v' e'"
  using process_moves [OF assms] by (auto simp: handler_get_remote_ack_def handler_set_remote_ack_def)

lemma expire_requests_moves:
  assumes "ifm_wf reqs" "expire_requests now reqs e = (reqs', e')"
  shows "ifm_wf reqs' \<and> waits t reqs' + answered t e' = waits t reqs + answered t e"
  using assms
proof (induction now reqs e rule: expire_requests.induct)
  case (1 now reqs e)
  obtain p m where pop: "ifm_pop_expired reqs now = (p, m)"
    by (cases "ifm_pop_expired reqs now")
  note props = ifm_pop_expired_props [OF "1.prems"(1), of now, unfolded pop fst_conv snd_conv]
  show ?case
  proof (cases p)
    case None
    then show ?thesis
      using "1.prems"(2) props pop by (simp add: expire_requests.simps [of now reqs] waits_def)
  next
    case (Some q)
    obtain k r where q: "q = (k, r)"
      by (cases q)
    have m: "ifm_wf m" "map_of (ifm_map reqs) k = Some r" "ifm_map m = AList.delete k (ifm_map reqs)"
      using props by (auto simp: Some q)
    let ?e = "respond_error (ctx_clear (rq_context r)) Timeout e"
    have run: "expire_requests now m ?e = (reqs', e')"
      using "1.prems"(2) by (simp add: expire_requests.simps [of now reqs] pop Some q)
    show ?thesis
      using "1.IH" [OF pop [symmetric] Some q [symmetric] m(1) run] waits_delete [OF "1.prems"(1) m(2,3), of t] by simp
  qed
qed

lemma vd_handler_tick_moves:
  assumes wf: "ifm_wf (vd_requests v)" and run: "vd_handler_tick sy v e = Some (v', e')"
  shows "moves t 0 v e v' e'"
proof -
  from run obtain terminated ss e1 v2 e2 where tick: "tick_syncs sy (vd_state v) (vd_syncs v) e = Some (terminated, ss, e1)"
    and ends: "end_syncs sy terminated (v\<lparr>vd_syncs := ss\<rparr>) e1 = Some (v2, e2)"
    by (auto simp: vd_handler_tick_def bind_eq_Some_conv)
  obtain reqs e3 where r: "expire_requests (sy_now sy) (vd_requests v2) e2 = (reqs, e3)"
    by (metis surj_pair)
  have "still v e v2 e2"
    using tick_syncs_mute [OF tick] end_syncs_still [OF ends] mute_trans by (auto simp: still_def)
  with wf have one: "moves t 0 v e v2 e2"
    by (rule moves_still)
  have two: "moves t 0 v2 e2 (v2\<lparr>vd_requests := reqs\<rparr>) e3"
    using expire_requests_moves [OF moves_wf [OF one] r] by (simp add: moves_def)
  have "still (v2\<lparr>vd_requests := reqs\<rparr>) e3 v' e'"
    using run tick ends r
    by (auto simp: vd_handler_tick_def Let_def split: if_splits dest: start_bootstrap_still vd_set_status_still)
  then show ?thesis
    using moves_trans [OF one moves_trans [OF two moves_still]] moves_wf [OF two] by blast
qed

section \<open>The node\<close>

definition requests_ok :: "'db database \<Rightarrow> bool" where
  "requests_ok d \<longleftrightarrow> lm_wf (db_vnodes d) \<and> (\<forall>(k, v)\<in>set (db_vnodes d). ifm_wf (vd_requests v))"

text \<open>The requests of a client a node has pending, and those it has answered.\<close>

definition pending :: "token \<Rightarrow> 'db database \<Rightarrow> nat" where
  "pending t d = sum_list (map ((waits t \<circ> vd_requests) \<circ> snd) (db_vnodes d))"

definition accounts :: "token \<Rightarrow> nat \<Rightarrow> 'db database \<Rightarrow> 'db database \<Rightarrow> bool" where
  "accounts t n d d' \<longleftrightarrow>
     requests_ok d' \<and> pending t d' + answered t (db_env d') = pending t d + answered t (db_env d) + n"

lemma accounts_refl: "requests_ok d \<Longrightarrow> accounts t 0 d d"
  by (simp add: accounts_def)

lemma accounts_trans: "accounts t n a b \<Longrightarrow> accounts t 0 b c \<Longrightarrow> accounts t n a c"
  by (simp add: accounts_def)

lemma accounts_env: "requests_ok d \<Longrightarrow> answered t e = answered t (db_env d) + n \<Longrightarrow> accounts t n d (d\<lparr>db_env := e\<rparr>)"
  by (simp add: accounts_def pending_def requests_ok_def)

lemma with_vnode_accounts:
  assumes ok: "requests_ok d" and run: "with_vnode k f d = Some (r, d')"
    and f: "\<And>v e v' e'. ifm_wf (vd_requests v) \<Longrightarrow> f v e = Some (r, v', e') \<Longrightarrow> moves t n v e v' e'"
  shows "accounts t n d d'"
proof -
  from run obtain v v' e' where v: "map_of (db_vnodes d) k = Some v" "f v (db_env d) = Some (r, v', e')"
    and d': "d' = d\<lparr>db_vnodes := AList.update k v' (db_vnodes d), db_env := e'\<rparr>"
    by (auto simp: with_vnode_def bind_eq_Some_conv)
  have m: "moves t n v (db_env d) v' e'"
    using f v ok map_of_SomeD [OF v(1)] by (auto simp: requests_ok_def)
  have "pending t d' + waits t (vd_requests v) = pending t d + waits t (vd_requests v')"
    using sum_update [OF v(1), of "waits t \<circ> vd_requests" v'] by (simp add: pending_def d')
  moreover have "requests_ok d'"
    using ok moves_wf [OF m] by (auto simp: requests_ok_def d' distinct_update dest!: in_update)
  ultimately show ?thesis
    using m by (simp add: accounts_def moves_def d')
qed

lemma on_vnode_accounts:
  assumes "requests_ok d" "on_vnode k f d = Some d'"
    and "\<And>v e v' e'. ifm_wf (vd_requests v) \<Longrightarrow> f v e = Some (v', e') \<Longrightarrow> moves t 0 v e v' e'"
  shows "accounts t 0 d d'"
proof -
  from assms(2) obtain r where "with_vnode k (\<lambda>v e. map_option (Pair ()) (f v e)) d = Some (r, d')"
    by (auto simp: on_vnode_def)
  then show ?thesis
    by (rule with_vnode_accounts [OF assms(1)]) (auto intro: assms(3))
qed

lemma each_vnode_accounts:
  assumes "\<And>k v e v' e'. ifm_wf (vd_requests v) \<Longrightarrow> f k v e = Some (v', e') \<Longrightarrow> moves t 0 v e v' e'"
  shows "requests_ok d \<Longrightarrow> each_vnode f ks d = Some d' \<Longrightarrow> accounts t 0 d d'"
proof (induction ks arbitrary: d)
  case Nil
  then show ?case
    by (simp add: accounts_refl)
next
  case (Cons k ks)
  then obtain d1 where d1: "on_vnode k (f k) d = Some d1" "each_vnode f ks d1 = Some d'"
    by (auto simp: bind_eq_Some_conv)
  have one: "accounts t 0 d d1"
    by (rule on_vnode_accounts [OF Cons.prems(1) d1(1)]) (rule assms)
  then have "requests_ok d1"
    by (simp add: accounts_def)
  then have "accounts t 0 d1 d'"
    using d1(2) by (rule Cons.IH)
  with one show ?case
    by (rule accounts_trans)
qed

section \<open>Commands\<close>

text \<open>A command answers: a success leaves one more request pending or answered, an error none.\<close>

definition answers :: "token \<Rightarrow> (ctx \<Rightarrow> bool) \<Rightarrow> 'db command \<Rightarrow> bool" where
  "answers t Q f \<longleftrightarrow> (\<forall>c d r c' d'. requests_ok d \<longrightarrow> Q c \<longrightarrow> f c d = Some (r, c', d') \<longrightarrow>
     r = Ok () \<and> accounts t (tok t c) d d' \<or>
     (\<exists>err. r = Err err \<and> cx_token c' = cx_token c \<and> accounts t 0 d d'))"

lemma answersI:
  "(\<And>c d r c' d'. requests_ok d \<Longrightarrow> Q c \<Longrightarrow> f c d = Some (r, c', d') \<Longrightarrow>
     r = Ok () \<and> accounts t (tok t c) d d' \<or>
     (\<exists>err. r = Err err \<and> cx_token c' = cx_token c \<and> accounts t 0 d d')) \<Longrightarrow> answers t Q f"
  unfolding answers_def by blast

lemma answersD:
  "answers t Q f \<Longrightarrow> requests_ok d \<Longrightarrow> Q c \<Longrightarrow> f c d = Some (r, c', d') \<Longrightarrow>
     r = Ok () \<and> accounts t (tok t c) d d' \<or>
     (\<exists>err. r = Err err \<and> cx_token c' = cx_token c \<and> accounts t 0 d d')"
  unfolding answers_def by blast

named_theorems command_answers

lemma answers_question [command_answers]: "(\<And>x. answers t Q (f x)) \<Longrightarrow> answers t Q (question r f)"
  by (auto simp: answers_def question_def accounts_refl split: res.splits)

lemma answers_if [command_answers]: "answers t Q f \<Longrightarrow> answers t Q g \<Longrightarrow> answers t Q (if b then f else g)"
  by simp

lemma answers_let [command_answers]: "(\<And>x. answers t Q (f x)) \<Longrightarrow> answers t Q (let x = a in f x)"
  by simp

lemma answers_fail [command_answers]: "answers t Q (\<lambda>c d. Some (Err err, c, d))"
  by (simp add: answers_def accounts_refl)

lemma answers_reply [command_answers]: "answers t Q (reply resp)"
  by (auto simp: answers_def reply_def intro: accounts_env)

lemma answers_vnode:
  assumes "\<And>c v e r c' v' e'. ifm_wf (vd_requests v) \<Longrightarrow> f c v e = Some (r, c', v', e') \<Longrightarrow>
    r = Ok () \<and> moves t (tok t c) v e v' e' \<or> (\<exists>err. r = Err err \<and> cx_token c' = cx_token c \<and> moves t 0 v e v' e')"
  shows "answers t Q (on_key_vnode k f)"
proof (rule answersI)
  fix c d r c' d'
  assume ok: "requests_ok d" and "on_key_vnode k f c d = Some (r, c', d')"
  then have run: "with_vnode k (\<lambda>v e. map_option (\<lambda>(res, c, v, e). ((res, c), v, e)) (f c v e)) d = Some ((r, c'), d')"
    by (auto simp: on_key_vnode_def)
  then obtain v v' e' where v: "map_of (db_vnodes d) k = Some v" "f c v (db_env d) = Some (r, c', v', e')"
    by (auto simp: with_vnode_def bind_eq_Some_conv)
  have "ifm_wf (vd_requests v)"
    using ok map_of_SomeD [OF v(1)] by (auto simp: requests_ok_def)
  from assms [OF this v(2)] consider "r = Ok ()" | err where "r = Err err" "cx_token c' = cx_token c"
    by blast
  then show "r = Ok () \<and> accounts t (tok t c) d d' \<or> (\<exists>err. r = Err err \<and> cx_token c' = cx_token c \<and> accounts t 0 d d')"
  proof cases
    case 1
    then have "accounts t (tok t c) d d'"
      by (intro with_vnode_accounts [OF ok run]) (auto dest: assms)
    with 1 show ?thesis
      by blast
  next
    case 2
    then have "accounts t 0 d d'"
      by (intro with_vnode_accounts [OF ok run]) (auto dest: assms)
    with 2 show ?thesis
      by blast
  qed
qed

lemma answers_get: "answers t Q (on_key_vnode k (do_get sy keys consistency render))"
  using do_get_moves moves_refl by (intro answers_vnode) blast

lemma answers_flush: "answers t Q (on_key_vnode k (do_flush sy consistency))"
  by (rule answers_vnode) (rule do_flush_moves)

lemma answers_db_get [command_answers]: "answers t Q (db_get sy key consistency render)"
  by (rule answersI)
     (auto simp: db_get_def debug_assert_def split: if_splits option.splits dest: answersD [OF answers_get, where Q = "\<lambda>_. True"])

lemma answers_db_mget [command_answers]: "answers t Q (db_mget sy keys consistency render)"
  by (rule answersI)
     (auto simp: db_mget_def debug_assert_def accounts_refl split: if_splits option.splits res.splits
       dest: answersD [OF answers_get, where Q = "\<lambda>_. True"] intro: accounts_env)

lemma answers_db_set_flush: "answers t Q (db_set_flush sy consistency)"
  by (rule answersI)
     (auto simp: db_set_flush_def debug_assert_def accounts_refl split: if_splits option.splits res.splits
       dest: answersD [OF answers_flush, where Q = "\<lambda>_. True"] intro: accounts_env)

lemma answers_db_set [command_answers]:
  "answers t (\<lambda>c. \<not> cx_is_multi c) (db_set sy key mutator consistency reply_result response)"
proof (rule answersI)
  fix c :: ctx and d r c' d'
  let ?c = "c\<lparr>cx_writes := cx_writes c @
      [\<lparr>cwr_version = 0, cwr_mutator_fn = Some mutator, cwr_key = key, cwr_cube = cube_default,
        cwr_reply_result = reply_result, cwr_response = None, cwr_response_fn = response\<rparr>]\<rparr>"
  assume ok: "requests_ok d" "\<not> cx_is_multi c" and "db_set sy key mutator consistency reply_result response c d = Some (r, c', d')"
  then obtain k where "on_key_vnode k (do_flush sy consistency) ?c d = Some (r, c', d')"
    by (auto simp: db_set_def debug_assert_def Let_def split: if_splits option.splits)
  from answersD [OF answers_flush ok(1) TrueI this] show "r = Ok () \<and> accounts t (tok t c) d d' \<or>
      (\<exists>err. r = Err err \<and> cx_token c' = cx_token c \<and> accounts t 0 d d')"
    by (simp add: tok_def)
qed

lemma answers_writes [command_answers]:
  "answers t (\<lambda>c. \<not> cx_is_multi c) (cmd_hset sy args)" "answers t (\<lambda>c. \<not> cx_is_multi c) (cmd_hdel sy args)"
  "answers t (\<lambda>c. \<not> cx_is_multi c) (cmd_sadd sy args)" "answers t (\<lambda>c. \<not> cx_is_multi c) (cmd_srem sy args)"
  "answers t (\<lambda>c. \<not> cx_is_multi c) (cmd_set sy b args)" "answers t (\<lambda>c. \<not> cx_is_multi c) (cmd_del sy args)"
  "answers t (\<lambda>c. \<not> cx_is_multi c) (cmd_cset sy args)" "answers t (\<lambda>c. \<not> cx_is_multi c) (cmd_incrby sy args)"
  unfolding cmd_hset_def cmd_hdel_def cmd_sadd_def cmd_srem_def cmd_set_def cmd_del_def cmd_cset_def cmd_incrby_def
  by (intro command_answers)+

lemma answers_reads [command_answers]:
  "answers t Q (cmd_get sy args)" "answers t Q (cmd_cget sy args)" "answers t Q (cmd_hgetall sy args)"
  "answers t Q (cmd_smembers sy args)" "answers t Q (cmd_type sy args)"
  unfolding cmd_get_def cmd_cget_def cmd_hgetall_def cmd_smembers_def cmd_type_def cmd_read_def
  by (intro command_answers)+

text \<open>A command that only changes the flags of the context before it goes on.\<close>

lemma answers_with:
  assumes "answers t (\<lambda>_. True) f" "cx_token (g c) = cx_token c" "requests_ok d" "f (g c) d = Some (r, c', d')"
  shows "r = Ok () \<and> accounts t (tok t c) d d' \<or> (\<exists>err. r = Err err \<and> cx_token c' = cx_token c \<and> accounts t 0 d d')"
  using answersD [OF assms(1,3) TrueI assms(4)] assms(2) by (simp add: tok_def)

lemma answers_mget [command_answers]: "answers t Q (cmd_mget sy args)"
proof (rule answersI)
  fix c d r c' d'
  let ?f = "question (check_arg_count (length args) 1 100) (\<lambda>_.
        question (parse_int_arg parse_u64 0 (length args > 0) args 0) (\<lambda>n.
          let key_count = unat n in
          if length args \<le> key_count then (\<lambda>c d. Some (Err InvalidCommand, c, d))
          else
            (let keys = take key_count (drop 1 args)
             in question (parse_consistency sy (length args > 1 + key_count) args (1 + key_count)) (\<lambda>consistency.
                question (check_keys keys) (\<lambda>_.
                  db_mget sy keys consistency (render_value (sy_ser_vv sy)))))))"
  have "answers t (\<lambda>_. True) ?f"
    by (intro command_answers)
  moreover assume "requests_ok d" "cmd_mget sy args c d = Some (r, c', d')"
  ultimately show "r = Ok () \<and> accounts t (tok t c) d d' \<or> (\<exists>err. r = Err err \<and> cx_token c' = cx_token c \<and> accounts t 0 d d')"
    by (intro answers_with [where f = ?f and g = "\<lambda>c. c\<lparr>cx_is_multi := True, cx_is_exec := True\<rparr>"])
       (auto simp: cmd_mget_def split: if_split_asm)
qed

lemma answers_multi [command_answers]: "answers t Q (cmd_multi args)"
proof (rule answersI)
  fix c d r c' d'
  let ?f = "question (check_arg_count (length args) 0 0) (\<lambda>_. reply (RStatus ''OK''))"
  have "answers t (\<lambda>_. True) ?f"
    by (intro command_answers)
  moreover assume "requests_ok d" "cmd_multi args c d = Some (r, c', d')"
  ultimately show "r = Ok () \<and> accounts t (tok t c) d d' \<or> (\<exists>err. r = Err err \<and> cx_token c' = cx_token c \<and> accounts t 0 d d')"
    by (intro answers_with [where f = ?f and g = "\<lambda>c. c\<lparr>cx_is_multi := True\<rparr>"])
       (auto simp: cmd_multi_def split: if_split_asm)
qed

lemma answers_cluster [command_answers]: "answers t Q (cmd_cluster sy args)"
proof -
  have ring: "accounts t (tok t c) d (d\<lparr>db_env := respond_resp c resp e\<rparr>)"
    if "requests_ok d" "run_dht sy f (db_env d) = (res, e)" for c d resp f res e
    using that(1) answered_mute [OF run_dht_mute [OF that(2)]] by (intro accounts_env) simp_all
  show ?thesis
    unfolding cmd_cluster_def
    by (rule answers_question, rule answersI)
       (auto simp: reply_def accounts_refl del: insert_iff
         split: if_split_asm prod.splits res.splits option.splits intro: ring accounts_env)
qed

text \<open>In a batch a command only adds to the context.\<close>

definition defers :: "'db command \<Rightarrow> bool" where
  "defers f \<longleftrightarrow> (\<forall>c d r c' d'. cx_is_multi c \<longrightarrow> f c d = Some (r, c', d') \<longrightarrow>
     d' = d \<and> cx_token c' = cx_token c \<and> cx_is_multi c' \<and> r \<noteq> Panic)"

lemma defersD:
  "defers f \<Longrightarrow> cx_is_multi c \<Longrightarrow> f c d = Some (r, c', d') \<Longrightarrow>
   d' = d \<and> cx_token c' = cx_token c \<and> cx_is_multi c' \<and> r \<noteq> Panic"
  unfolding defers_def by blast

named_theorems command_defers

lemma defers_question [command_defers]: "(\<And>x. defers (f x)) \<Longrightarrow> defers (question r f)"
  by (auto simp: defers_def question_def split: res.splits)

lemma defers_if [command_defers]: "defers f \<Longrightarrow> defers g \<Longrightarrow> defers (if b then f else g)"
  by simp

lemma defers_fail [command_defers]: "defers (\<lambda>c d. Some (Err err, c, d))"
  by (simp add: defers_def)

lemma defers_db_set [command_defers]: "defers (db_set sy key mutator consistency reply_result response)"
  by (auto simp: defers_def db_set_def debug_assert_def Let_def split: if_splits)

lemma defers_exec_cmd: "defers (handle_exec_cmd sy cmd)"
  unfolding handle_exec_cmd_def cmd_hset_def cmd_hdel_def cmd_sadd_def cmd_srem_def cmd_set_def cmd_del_def
    cmd_cset_def cmd_incrby_def
  by (cases "command_args cmd") (auto intro!: command_defers)

lemma defers_exec_cmds: "defers (exec_cmds sy cmds)"
proof (induction cmds)
  case (Cons cmd cmds)
  have "d' = d \<and> cx_token c' = cx_token c \<and> cx_is_multi c' \<and> r \<noteq> Panic"
    if "cx_is_multi c" and run: "exec_cmds sy (cmd # cmds) c d = Some (r, c', d')" for c d r c' d'
  proof -
    from run obtain r1 c1 d1 where one: "handle_exec_cmd sy cmd c d = Some (r1, c1, d1)"
      by (auto simp: bind_eq_Some_conv)
    note first = defersD [OF defers_exec_cmd that(1) one]
    show ?thesis
    proof (cases r1)
      case (Ok u)
      then have "exec_cmds sy cmds c1 d1 = Some (r, c', d')"
        using run one by simp
      from defersD [OF Cons.IH _ this] first show ?thesis
        by simp
    qed (use run one first in auto)
  qed
  then show ?case
    unfolding defers_def by blast
qed (simp add: defers_def)

lemma answers_exec [command_answers]: "answers t Q (cmd_exec sy args)"
proof (rule answersI)
  fix c d r c' d'
  assume ok: "requests_ok d" and run: "cmd_exec sy args c d = Some (r, c', d')"
  let ?body = "\<lambda>consistency c d. if cx_is_exec c then None
      else Option.bind (exec_cmds sy (cx_commands c) (c\<lparr>cx_is_exec := True, cx_commands := []\<rparr>) d)
        (\<lambda>(res, c, d). case res of Ok _ \<Rightarrow> db_set_flush sy consistency c d | _ \<Rightarrow> Some (res, c, d))"
  have "answers t cx_is_multi (?body consistency)" for consistency
  proof (rule answersI)
    fix c d r c' d'
    assume ok: "requests_ok d" and multi: "cx_is_multi c" and run: "?body consistency c d = Some (r, c', d')"
    then obtain r1 c1 d1 where one: "\<not> cx_is_exec c"
        "exec_cmds sy (cx_commands c) (c\<lparr>cx_is_exec := True, cx_commands := []\<rparr>) d = Some (r1, c1, d1)"
      by (auto simp: bind_eq_Some_conv split: if_splits)
    have first: "d1 = d" "cx_token c1 = cx_token c" "r1 \<noteq> Panic"
      using defersD [OF defers_exec_cmds _ one(2)] multi by auto
    show "r = Ok () \<and> accounts t (tok t c) d d' \<or> (\<exists>err. r = Err err \<and> cx_token c' = cx_token c \<and> accounts t 0 d d')"
    proof (cases r1)
      case (Ok u)
      then have "db_set_flush sy consistency c1 d = Some (r, c', d')"
        using run one first(1) by simp
      from answersD [OF answers_db_set_flush ok TrueI this] first(2) show ?thesis
        by (simp add: tok_def)
    qed (use run one first ok in \<open>auto simp: accounts_refl\<close>)
  qed
  then have f: "answers t cx_is_multi (question (check_arg_count (length args) 0 1) (\<lambda>_.
      question (parse_consistency sy (length args > 0) args 0) ?body))"
    by (intro command_answers)
  show "r = Ok () \<and> accounts t (tok t c) d d' \<or> (\<exists>err. r = Err err \<and> cx_token c' = cx_token c \<and> accounts t 0 d d')"
  proof (cases "cx_is_multi c")
    case True
    then show ?thesis
      using run by (intro answersD [OF f ok]) (simp_all add: cmd_exec_def)
  next
    case False
    then show ?thesis
      using run ok by (auto simp: cmd_exec_def accounts_refl)
  qed
qed

lemma answers_single: "answers t (\<lambda>c. \<not> cx_is_multi c) (handle_single_cmd sy cmd arg0 args)"
  unfolding handle_single_cmd_def cmd_config_def by (intro command_answers)

lemma answers_handle_cmd: "answers t (\<lambda>c. \<not> cx_is_exec c) (handle_cmd sy cmd)"
proof (rule answersI)
  fix c d r c' d'
  assume ok: "requests_ok d" and c: "\<not> cx_is_exec c" and run: "handle_cmd sy cmd c d = Some (r, c', d')"
  show "r = Ok () \<and> accounts t (tok t c) d d' \<or> (\<exists>err. r = Err err \<and> cx_token c' = cx_token c \<and> accounts t 0 d d')"
  proof (cases "command_args cmd")
    case Nil
    then show ?thesis
      using run c ok by (auto simp: handle_cmd_def accounts_refl)
  next
    case (Cons arg0 args)
    consider "\<not> cx_is_multi c" "handle_single_cmd sy cmd arg0 args c d = Some (r, c', d')"
      | "cmd_exec sy args c d = Some (r, c', d')"
      | "reply (RStatus ''QUEUED'') (c\<lparr>cx_commands := cx_commands c @ [cmd]\<rparr>) d = Some (r, c', d')"
      using run c Cons by (simp add: handle_cmd_def del: insert_iff split: if_split_asm)
    then show ?thesis
    proof cases
      case 1
      then show ?thesis
        using answersD [OF answers_single ok] by blast
    next
      case 2
      then show ?thesis
        using answersD [OF answers_exec ok TrueI] by blast
    next
      case 3
      then have "reply (RStatus ''QUEUED'') (c\<lparr>cx_commands := cx_commands c @ [cmd]\<rparr>) d = Some (r, c', d')" .
      from answersD [OF answers_reply ok TrueI this] show ?thesis
        by (simp add: tok_def)
    qed
  qed
qed

lemma handler_cmd_accounts:
  assumes ok: "requests_ok d" and c: "\<not> cx_is_exec c" and run: "handler_cmd sy c d = Some d'"
  shows "accounts t (tok t c) d d'"
proof -
  let ?c = "c\<lparr>cx_commands := butlast (cx_commands c)\<rparr>"
  from run obtain r c1 d1 where one: "cx_commands c \<noteq> []" "handle_cmd sy (last (cx_commands c)) ?c d = Some (r, c1, d1)"
    by (auto simp: handler_cmd_def bind_eq_Some_conv split: if_splits)
  have "\<not> cx_is_exec ?c"
    using c by simp
  from answersD [OF answers_handle_cmd ok this one(2)] consider
      "r = Ok ()" "accounts t (tok t c) d d1" | err where "r = Err err" "cx_token c1 = cx_token c" "accounts t 0 d d1"
    by (auto simp: tok_def)
  then show ?thesis
  proof cases
    case 1
    then show ?thesis
      using run one by (simp add: handler_cmd_def)
  next
    case 2
    have "d' = d1\<lparr>db_env := respond_error (ctx_clear c1) err (db_env d1)\<rparr>"
      using run one 2(1) by (simp add: handler_cmd_def)
    moreover have "tok t c1 = tok t c"
      using 2(2) by (simp add: tok_def)
    ultimately show ?thesis
      using 2(3) by (simp add: accounts_def requests_ok_def pending_def)
  qed
qed

section \<open>Handlers\<close>

lemma handler_fabric_msg_accounts:
  assumes ok: "requests_ok d" and run: "handler_fabric_msg sy from msg d = Some d'"
  shows "accounts t 0 d d'"
proof -
  note step = on_vnode_accounts [OF ok]
  show ?thesis
    using run
    by (cases msg)
       (auto simp: handler_fabric_msg_def
         intro: step moves_still handler_remote_still handler_ack_moves
           handler_sync_start_still handler_sync_send_still handler_sync_ack_still handler_sync_fin_still)
qed

lemma auto_sync_accounts: "requests_ok d \<Longrightarrow> auto_sync sy ks n d = Some d' \<Longrightarrow> accounts t 0 d d'"
proof (induction ks arbitrary: n d)
  case Nil
  then show ?case
    by (simp add: accounts_refl)
next
  case (Cons k ks)
  from Cons.prems(2) obtain started d1 where one: "with_vnode k (start_sync_if_ready sy) d = Some (started, d1)"
    by (auto simp: bind_eq_Some_conv)
  have acc: "accounts t 0 d d1"
    by (rule with_vnode_accounts [OF Cons.prems(1) one]) (auto intro: moves_still start_sync_if_ready_still)
  then have "requests_ok d1"
    by (simp add: accounts_def)
  then have "accounts t 0 d1 d'"
    using Cons.prems(2) one Cons.IH by (auto simp: Let_def accounts_refl split: if_splits)
  with acc show ?case
    by (rule accounts_trans)
qed

lemma handler_tick_accounts:
  assumes ok: "requests_ok d" and run: "handler_tick sy d = Some d'"
  shows "accounts t 0 d d'"
proof -
  obtain dht es where tick: "dht_handler_tick (sy_coin sy) (sy_now sy) (ev_dht (db_env d)) = (dht, es)"
    by (metis surj_pair)
  let ?e = "(db_env d)\<lparr>ev_dht := dht, ev_effects := ev_effects (db_env d) @ dht_effects sy es\<rparr>"
  from run tick obtain d1 where d1: "each_vnode (\<lambda>_. vd_handler_tick sy) (vnode_keys d) (d\<lparr>db_env := ?e\<rparr>) = Some d1"
    and rest: "d' = d1 \<or> (\<exists>ks n. auto_sync sy ks n d1 = Some d')"
    by (auto simp: handler_tick_def Let_def bind_eq_Some_conv split: if_splits)
  have "mute (db_env d) ?e"
    by (simp add: mute_def replies_def dht_effects_replies)
  then have one: "accounts t 0 d (d\<lparr>db_env := ?e\<rparr>)"
    using ok by (intro accounts_env) (simp_all add: answered_mute)
  have "accounts t 0 (d\<lparr>db_env := ?e\<rparr>) d1"
    using one d1 by (intro each_vnode_accounts [OF vd_handler_tick_moves]) (auto simp: accounts_def)
  with one have two: "accounts t 0 d d1"
    by (rule accounts_trans)
  then have "requests_ok d1"
    by (simp add: accounts_def)
  then show ?thesis
    using rest two auto_sync_accounts accounts_trans by blast
qed

lemma handler_dht_msg_accounts:
  assumes ok: "requests_ok d" and run: "handler_dht_msg sy from msg d = Some d'"
  shows "accounts t 0 d d'"
proof -
  from run obtain dht es where d': "d' = d\<lparr>db_env := (db_env d)\<lparr>ev_dht := dht, ev_effects := ev_effects (db_env d) @ dht_effects sy es\<rparr>\<rparr>"
    by (auto simp: handler_dht_msg_def)
  have "mute (db_env d) ((db_env d)\<lparr>ev_dht := dht, ev_effects := ev_effects (db_env d) @ dht_effects sy es\<rparr>)"
    by (simp add: mute_def replies_def dht_effects_replies)
  then show ?thesis
    unfolding d' using ok by (intro accounts_env) (simp_all add: answered_mute)
qed

lemma handler_dht_change_accounts:
  assumes ok: "requests_ok d" and run: "handler_dht_change sy d = Some d'"
  shows "accounts t 0 d d'"
proof -
  let ?f = "\<lambda>k v e. Option.bind (dht_final_status k e) (\<lambda>status. vd_handler_dht_change sy status v e)"
  from run obtain db where each: "each_vnode ?f (vnode_keys d) (d\<lparr>db_env := (db_env d)\<lparr>ev_db := db\<rparr>\<rparr>) = Some d'"
    by (auto simp: handler_dht_change_def split: prod.splits res.splits)
  have one: "accounts t 0 d (d\<lparr>db_env := (db_env d)\<lparr>ev_db := db\<rparr>\<rparr>)"
    using ok by (rule accounts_env) (simp add: answered_def)
  then have "requests_ok (d\<lparr>db_env := (db_env d)\<lparr>ev_db := db\<rparr>\<rparr>)"
    by (simp add: accounts_def)
  then have "accounts t 0 (d\<lparr>db_env := (db_env d)\<lparr>ev_db := db\<rparr>\<rparr>) d'"
    using each by (rule each_vnode_accounts [rotated])
      (auto simp: bind_eq_Some_conv intro: moves_still vd_handler_dht_change_still)
  with one show ?thesis
    by (rule accounts_trans)
qed

text \<open>Whether a message is a command of the client.\<close>

fun command_of :: "token \<Rightarrow> worker_msg \<Rightarrow> bool" where
  "command_of t (Command_Msg c) \<longleftrightarrow> cx_token c = t"
| "command_of t _ \<longleftrightarrow> False"

text \<open>A command comes in a context that is not executing a batch, as replies leave it.\<close>

fun proper :: "worker_msg \<Rightarrow> bool" where
  "proper (Command_Msg c) \<longleftrightarrow> \<not> cx_is_exec c"
| "proper Exit_Msg \<longleftrightarrow> False"
| "proper _ \<longleftrightarrow> True"

lemma worker_handle_accounts:
  assumes "requests_ok d" "proper wm" "worker_handle sy wm d = Some d'"
  shows "accounts t (if command_of t wm then 1 else 0) d d'"
proof (cases wm)
  case (Command_Msg c)
  then show ?thesis
    using assms handler_cmd_accounts [of d c sy d' t] by (simp add: worker_handle_def tok_def split: if_splits)
qed (use assms in \<open>auto simp: worker_handle_def
      intro: handler_fabric_msg_accounts handler_tick_accounts handler_dht_msg_accounts handler_dht_change_accounts\<close>)

lemma worker_fn_accounts:
  assumes "requests_ok d" "worker_fn chan d = Some d'" "list_all (\<lambda>(_, wm). proper wm) chan"
  shows "accounts t (length (filter (\<lambda>(_, wm). command_of t wm) chan)) d d'"
  using assms
proof (induction chan arbitrary: d)
  case Nil
  then show ?case
    by (simp add: accounts_refl)
next
  case (Cons p chan)
  obtain sy wm where p: "p = (sy, wm)"
    by (cases p)
  have "wm \<noteq> Exit_Msg"
    using Cons.prems(3) p by auto
  with Cons.prems(2) obtain d1 where one: "worker_handle sy wm d = Some d1" "worker_fn chan d1 = Some d'"
    by (cases wm) (auto simp: p bind_eq_Some_conv)
  have acc: "accounts t (if command_of t wm then 1 else 0) d d1"
    using Cons.prems p one by (intro worker_handle_accounts) auto
  then have "accounts t (length (filter (\<lambda>(_, wm). command_of t wm) chan)) d1 d'"
    using Cons.IH [OF _ one(2)] Cons.prems(3) by (simp add: accounts_def)
  with acc show ?case
    by (simp add: p accounts_def)
qed

lemma vd_new_requests:
  assumes "vd_new sy num status e = Some (v, e')"
  shows "vd_requests v = ifm_new \<and> mute e e'"
proof -
  from assms obtain st e1 e2 where load: "vs_load sy num status e = Some (st, e1)" and save: "vs_save sy st False e1 = Some e2"
    by (auto simp: vd_new_def bind_eq_Some_conv)
  have "mute e e1"
    using vs_load_fresh [OF load] by (simp add: mute_effects)
  then have mute: "mute e e2"
    using store_mute(1) [OF save] by (rule mute_trans)
  let ?v = "\<lparr>vd_state = st, vd_syncs = [], vd_requests = ifm_new\<rparr>"
  have "still ?v e2 v e'"
    using assms load save by (cases "vs_status st") (auto simp: vd_new_def dest: start_bootstrap_still)
  then show ?thesis
    using mute mute_trans by (auto simp: still_def)
qed

lemma create_vnodes_requests:
  "create_vnodes sy ready pend is e = Some (vs, e') \<Longrightarrow> (\<forall>(k, v)\<in>set vs. vd_requests v = ifm_new) \<and> mute e e'"
  by (induction "is" arbitrary: vs e)
     (fastforce simp: bind_eq_Some_conv dest!: vd_new_requests intro: mute_trans)+

lemma db_new_requests:
  assumes "db_new sy su db = Some d"
  shows "requests_ok d \<and> pending t d = 0 \<and> answered t (db_env d) = 0"
proof -
  from assms obtain ks e es ready pend where vs: "create_vnodes sy ready pend ks e = Some (db_vnodes d, db_env d)"
    and e: "ev_effects e = dht_effects sy es"
    by (auto simp: db_new_def Let_def bind_eq_Some_conv case_prod_beta split: if_splits)
  note r = create_vnodes_requests [OF vs]
  have "lm_wf (db_vnodes d)"
    using db_new_ok [OF assms] by (simp add: node_ok_def)
  then have "requests_ok d"
    using r ifm_wf_new by (auto simp: requests_ok_def)
  moreover have "pending t d = 0"
    using r by (auto simp: pending_def waits_def ifm_new_def)
  moreover have "answered t (db_env d) = answered t e" "answered t e = 0"
    using r by (auto simp: answered_mute) (simp add: answered_replies replies_def e dht_effects_replies)
  ultimately show ?thesis
    by simp
qed

section \<open>Properties\<close>

text \<open>
  C1: Every command of a client is answered exactly once. From its start a node handles any sequence of commands,
  messages of peers, ticks and changes of the ring, in any surroundings. Unless it panics, for
  every client the requests still pending and the replies sent are then together as many as the
  commands the node has taken from that client.
\<close>

theorem command_answered_once:
  assumes "db_new sy su db = Some d0" "worker_fn chan d0 = Some d" "list_all (\<lambda>(_, wm). proper wm) chan"
  shows "pending t d + answered t (db_env d) = length (filter (\<lambda>(_, wm). command_of t wm) chan)"
  using worker_fn_accounts [OF _ assms(2,3), of t] db_new_requests [OF assms(1), of t] by (simp add: accounts_def)

theorem command_answered_once_witness:
  "let d0 = the (db_new ref_sys ref_startup ([], []));
       chan = [(ref_sys, Command_Msg ((ctx_new 7)\<lparr>cx_commands := [RArray [RData ''ECHO'']]\<rparr>)),
               (ref_sys, Command_Msg ((ctx_new 7)\<lparr>cx_commands := [RArray [RData ''NOP'']]\<rparr>))];
       d = the (worker_fn chan d0)
   in pending 7 d + answered 7 (db_env d) = length (filter (\<lambda>(_, wm). command_of 7 wm) chan)"
proof -
  obtain d0 where d0: "db_new ref_sys ref_startup ([], []) = Some d0"
    using ref_started by blast
  show ?thesis
    unfolding Let_def d0 option.sel
    by (rule command_answered_once [OF d0])
       (simp_all add: worker_handle_def handler_cmd_def handle_cmd_def command_args_def ctx_new_def
         handle_single_cmd_def reply_def)
qed

end
