(* ===== verification/Server.thy ===== *)
theory Server
  imports Server_Codec Answers
begin

text \<open>
  \<^verbatim>\<open>server.rs\<close>: the connections of clients to a node. The bytes of a socket are decoded into requests,
  requests go to the workers of the node one at a time, and a reply releases the next one. The
  event loop is a sequence of events: a connection is accepted, bytes arrive, a worker takes a
  message, a reply is delivered, a client hangs up.
\<close>

section \<open>A connection\<close>

text \<open>
  The context of a connection, with the channel of its replies, the bytes its reader holds back
  and the bytes it has written.
\<close>

record connection =
  cn_token :: token
  cn_requests :: "resp_value list"
  cn_context :: "ctx option"
  cn_inbox :: "ctx list"
  cn_buffer :: bytes
  cn_output :: bytes

definition conn_new :: "token \<Rightarrow> connection" where
  "conn_new token =
     \<lparr>cn_token = token, cn_requests = [], cn_context = Some (ctx_new token), cn_inbox = [],
      cn_buffer = [], cn_output = []\<rparr>"

definition push_command :: "resp_value \<Rightarrow> ctx \<Rightarrow> ctx" where
  "push_command req c = c\<lparr>cx_commands := cx_commands c @ [req]\<rparr>"

text \<open>The context to send to the workers, if any.\<close>

definition dispatch :: "resp_value \<Rightarrow> connection \<Rightarrow> connection \<times> ctx option" where
  "dispatch req c =
     (case cn_context c of
        Some db_context \<Rightarrow> (c\<lparr>cn_context := None\<rparr>, Some (push_command req db_context))
      | None \<Rightarrow> (c\<lparr>cn_requests := cn_requests c @ [req]\<rparr>, None))"

text \<open>The result is \<^const>\<open>None\<close> if the assertion fails that a command is in flight.\<close>

definition dispatch_next :: "ctx \<Rightarrow> connection \<Rightarrow> (connection \<times> ctx option) option" where
  "dispatch_next db_context c =
     (if cn_context c \<noteq> None then None
      else case cn_requests c of
        req # reqs \<Rightarrow> Some (c\<lparr>cn_requests := reqs\<rparr>, Some (push_command req db_context))
      | [] \<Rightarrow> Some (c\<lparr>cn_context := Some db_context\<rparr>, None))"

text \<open>The writing half of a connection, for the next reply of its channel.\<close>

definition conn_reply :: "connection \<Rightarrow> (connection \<times> ctx option) option" where
  "conn_reply c =
     (case cn_inbox c of
        [] \<Rightarrow> Some (c, None)
      | answer # inbox \<Rightarrow>
          Option.bind (take_response answer) (\<lambda>(response, db_context).
            Option.bind (dispatch_next db_context (c\<lparr>cn_inbox := inbox\<rparr>)) (\<lambda>(c, out).
              Some (c\<lparr>cn_output := resp_encode response (cn_output c)\<rparr>, out))))"

section \<open>The server\<close>

record 'db server =
  sv_database :: "'db database"
  sv_sender :: worker_sender
  sv_conns :: "(token \<times> connection) list"
  sv_next_token :: token
  sv_connection_max :: u32

definition server_send :: "ctx option \<Rightarrow> 'db server \<Rightarrow> 'db server option" where
  "server_send out s =
     (case out of
        None \<Rightarrow> Some s
      | Some c \<Rightarrow> map_option (\<lambda>w. s\<lparr>sv_sender := w\<rparr>) (worker_send (Command_Msg c) (sv_sender s)))"

definition set_conn :: "token \<Rightarrow> connection \<Rightarrow> 'db server \<Rightarrow> 'db server" where
  "set_conn t c s = s\<lparr>sv_conns := AList.update t c (sv_conns s)\<rparr>"

definition server_accept :: "'db server \<Rightarrow> 'db server" where
  "server_accept s =
     (if unat (sv_connection_max s) \<le> length (sv_conns s) then s
      else s\<lparr>sv_conns := AList.update (sv_next_token s) (conn_new (sv_next_token s)) (sv_conns s),
             sv_next_token := sv_next_token s + 1\<rparr>)"

text \<open>A connection that ends is dropped, and with it the channel of its replies.\<close>

definition server_close :: "token \<Rightarrow> 'db server \<Rightarrow> 'db server" where
  "server_close t s = s\<lparr>sv_conns := AList.delete t (sv_conns s)\<rparr>"

fun server_dispatch :: "token \<Rightarrow> resp_value list \<Rightarrow> 'db server \<Rightarrow> 'db server option" where
  "server_dispatch t [] s = Some s"
| "server_dispatch t (req # reqs) s =
     (case map_of (sv_conns s) t of
        None \<Rightarrow> Some s
      | Some c \<Rightarrow>
          (case dispatch req c of (c, out) \<Rightarrow>
             Option.bind (server_send out (set_conn t c s)) (server_dispatch t reqs)))"

text \<open>The reading half of a connection: all requests that are complete; an error ends the connection.\<close>

definition server_receive :: "nat \<Rightarrow> token \<Rightarrow> bytes \<Rightarrow> 'db server \<Rightarrow> 'db server option" where
  "server_receive cap t bs s =
     (case map_of (sv_conns s) t of
        None \<Rightarrow> Some s
      | Some c \<Rightarrow>
          Option.bind (framed_read (resp_decode cap) (cn_buffer c @ bs)) (\<lambda>(reqs, res).
            case res of
              Ok rest \<Rightarrow> server_dispatch t reqs (set_conn t (c\<lparr>cn_buffer := rest\<rparr>) s)
            | Err _ \<Rightarrow> map_option (server_close t) (server_dispatch t reqs s)
            | Panic \<Rightarrow> None))"

definition server_reply :: "token \<Rightarrow> 'db server \<Rightarrow> 'db server option" where
  "server_reply t s =
     (case map_of (sv_conns s) t of
        None \<Rightarrow> Some s
      | Some c \<Rightarrow> Option.bind (conn_reply c) (\<lambda>(c, out). server_send out (set_conn t c s)))"

text \<open>The response function the server gives to the database, on the replies of a step.\<close>

definition response_fn :: "ctx \<Rightarrow> (token \<times> connection) list \<Rightarrow> (token \<times> connection) list" where
  "response_fn c conns =
     (case map_of conns (cx_token c) of
        Some cn \<Rightarrow> AList.update (cx_token c) (cn\<lparr>cn_inbox := cn_inbox cn @ [c]\<rparr>) conns
      | None \<Rightarrow> conns)"

fun response_all :: "effect list \<Rightarrow> (token \<times> connection) list \<Rightarrow> (token \<times> connection) list" where
  "response_all [] conns = conns"
| "response_all (Reply c # es) conns = response_all es (response_fn c conns)"
| "response_all (_ # es) conns = response_all es conns"

text \<open>
  A worker takes the next message of its channel and handles it; the replies are passed to the
  response function as they are made. \<^verbatim>\<open>Exit\<close> ends the worker and its channel.
\<close>

definition server_work :: "nat \<Rightarrow> 'db sys \<Rightarrow> 'db server \<Rightarrow> 'db server option" where
  "server_work i sy s =
     (let w = sv_sender s; chans = wk_channels w
      in if length chans \<le> i then Some s
         else case ch_queue (chans ! i) of
           [] \<Rightarrow> Some s
         | wm # queue \<Rightarrow>
             if wm = Exit_Msg
             then Some (s\<lparr>sv_sender := w\<lparr>wk_channels := chans[i := \<lparr>ch_queue = [], ch_open = False\<rparr>]\<rparr>\<rparr>)
             else map_option (\<lambda>d.
                 s\<lparr>sv_database := d\<lparr>db_env := (db_env d)\<lparr>ev_effects := []\<rparr>\<rparr>,
                   sv_sender := w\<lparr>wk_channels := chans[i := (chans ! i)\<lparr>ch_queue := queue\<rparr>]\<rparr>,
                   sv_conns := response_all (ev_effects (db_env d)) (sv_conns s)\<rparr>)
               (worker_handle sy wm (sv_database s)))"

text \<open>A message of another sender: the fabric, the timer or the ring.\<close>

definition server_push :: "nat \<Rightarrow> worker_msg \<Rightarrow> 'db server \<Rightarrow> 'db server" where
  "server_push i wm s =
     (let w = sv_sender s; chans = wk_channels w
      in if length chans \<le> i then s
         else s\<lparr>sv_sender := w\<lparr>wk_channels := chans[i := snd (channel_send wm (chans ! i))]\<rparr>\<rparr>)"

datatype 'db server_event =
    Accept
  | Receive token bytes
  | Work nat "'db sys"
  | Deliver token
  | Hangup token
  | Push nat worker_msg

definition server_step :: "nat \<Rightarrow> 'db server_event \<Rightarrow> 'db server \<Rightarrow> 'db server option" where
  "server_step cap ev s =
     (case ev of
        Accept \<Rightarrow> Some (server_accept s)
      | Receive t bs \<Rightarrow> server_receive cap t bs s
      | Work i sy \<Rightarrow> server_work i sy s
      | Deliver t \<Rightarrow> server_reply t s
      | Hangup t \<Rightarrow> Some (server_close t s)
      | Push i wm \<Rightarrow> Some (server_push i wm s))"

fun server_run :: "nat \<Rightarrow> 'db server_event list \<Rightarrow> 'db server \<Rightarrow> 'db server option" where
  "server_run cap [] s = Some s"
| "server_run cap (ev # evs) s = Option.bind (server_step cap ev s) (server_run cap evs)"

text \<open>The start of a server on a database and the channels of its workers.\<close>

definition server_new :: "u32 \<Rightarrow> u64 \<Rightarrow> channel list \<Rightarrow> 'db database \<Rightarrow> 'db server option" where
  "server_new connection_max rnd channels d =
     map_option (\<lambda>w. \<lparr>sv_database = d\<lparr>db_env := (db_env d)\<lparr>ev_effects := []\<rparr>\<rparr>, sv_sender = w, sv_conns = [],
         sv_next_token = 0, sv_connection_max = connection_max\<rparr>)
       (worker_sender_new rnd channels)"

section \<open>The commands in flight\<close>

text \<open>
  Where the context of a client can be besides its connection: in the channel of a worker, in a
  pending request of a vnode, or in the channel of replies.
\<close>

definition queued :: "token \<Rightarrow> worker_sender \<Rightarrow> nat" where
  "queued t w = sum_list (map (\<lambda>ch. length (filter (command_of t) (ch_queue ch))) (wk_channels w))"

definition delivered :: "token \<Rightarrow> (token \<times> connection) list \<Rightarrow> nat" where
  "delivered t conns = (case map_of conns t of None \<Rightarrow> 0 | Some c \<Rightarrow> length (cn_inbox c))"

definition in_flight :: "token \<Rightarrow> 'db server \<Rightarrow> nat" where
  "in_flight t s = queued t (sv_sender s) + pending t (sv_database s) + delivered t (sv_conns s)"

definition holds_context :: "connection \<Rightarrow> nat" where
  "holds_context c = (if cn_context c = None then 0 else 1)"

text \<open>All contexts of a client that exist, its connection included.\<close>

definition contexts :: "token \<Rightarrow> 'db server \<Rightarrow> nat" where
  "contexts t s = in_flight t s + (case map_of (sv_conns s) t of None \<Rightarrow> 0 | Some c \<Rightarrow> holds_context c)"

definition conn_ok :: "token \<Rightarrow> connection \<Rightarrow> bool" where
  "conn_ok t c \<longleftrightarrow>
     (\<forall>x. cn_context c = Some x \<longrightarrow> cx_token x = t \<and> \<not> cx_is_exec x) \<and> (\<forall>x\<in>set (cn_inbox c). cx_token x = t)"

definition sender_ok :: "worker_sender \<Rightarrow> bool" where
  "sender_ok w \<longleftrightarrow> (\<forall>ch\<in>set (wk_channels w). \<forall>m\<in>set (ch_queue ch). m = Exit_Msg \<or> proper m)"

text \<open>The invariant, with the number of connections accepted.\<close>

definition server_ok :: "nat \<Rightarrow> 'db server \<Rightarrow> bool" where
  "server_ok n s \<longleftrightarrow>
     requests_ok (sv_database s) \<and> ev_effects (db_env (sv_database s)) = [] \<and> sender_ok (sv_sender s) \<and>
     lm_wf (sv_conns s) \<and> sv_next_token s = of_nat n \<and> (\<forall>t. contexts t s \<le> (if unat t < n then 1 else 0)) \<and>
     (\<forall>t c. map_of (sv_conns s) t = Some c \<longrightarrow> conn_ok t c \<and> unat t < n)"

lemma server_okD:
  assumes "server_ok n s" "map_of (sv_conns s) t = Some c"
  shows "conn_ok t c" "in_flight t s + holds_context c \<le> 1" "unat t < n"
  using assms by (auto simp: server_ok_def contexts_def dest!: spec [of _ t])

subsection \<open>Channels\<close>

lemma queued_update:
  assumes "i < length (wk_channels w)"
  shows "queued t (w\<lparr>wk_channels := (wk_channels w)[i := ch]\<rparr>) + length (filter (command_of t) (ch_queue (wk_channels w ! i))) =
    queued t w + length (filter (command_of t) (ch_queue ch))"
proof -
  let ?f = "\<lambda>ch. length (filter (command_of t) (ch_queue ch))"
  have "sum_list (map ?f (wk_channels w)) =
      sum_list (map ?f (take i (wk_channels w) @ wk_channels w ! i # drop (Suc i) (wk_channels w)))"
    using assms by (simp add: id_take_nth_drop [symmetric])
  then show ?thesis
    using assms by (simp add: queued_def upd_conv_take_nth_drop)
qed

lemma queued_cursor [simp]: "queued t (w\<lparr>wk_cursor := k, wk_channels := chans\<rparr>) = queued t (w\<lparr>wk_channels := chans\<rparr>)"
  by (simp add: queued_def)

lemma sender_ok_update:
  assumes "sender_ok w" "\<And>m. m \<in> set (ch_queue ch) \<Longrightarrow> m = Exit_Msg \<or> proper m"
  shows "sender_ok (w\<lparr>wk_channels := (wk_channels w)[i := ch]\<rparr>)"
  using assms set_update_subset_insert [of "wk_channels w" i ch] by (auto simp: sender_ok_def)

lemma channel_send_queue:
  "ch_queue (snd (channel_send m ch)) = (if ch_open ch then ch_queue ch @ [m] else ch_queue ch)"
  by (simp add: channel_send_def)

lemma worker_send_queued:
  assumes "worker_send m w = Some w'" "sender_ok w" "proper m"
  shows "sender_ok w' \<and> queued t w' \<le> queued t w + (if command_of t m then 1 else 0)"
proof -
  let ?i = "unat (wk_cursor w + 1) mod length (wk_channels w)"
  from assms(1) have ne: "wk_channels w \<noteq> []"
    and w': "w' = w\<lparr>wk_cursor := wk_cursor w + 1, wk_channels := (wk_channels w)[?i := snd (channel_send m (wk_channels w ! ?i))]\<rparr>"
    by (auto simp: worker_send_def worker_try_send_def Let_def case_prod_beta split: if_splits)
  have i: "?i < length (wk_channels w)"
    using ne by simp
  have "\<forall>x\<in>set (ch_queue (wk_channels w ! ?i)). x = Exit_Msg \<or> proper x"
    using assms(2) i nth_mem by (auto simp: sender_ok_def)
  then have "sender_ok (w\<lparr>wk_channels := (wk_channels w)[?i := snd (channel_send m (wk_channels w ! ?i))]\<rparr>)"
    using assms(2,3) by (intro sender_ok_update) (auto simp: channel_send_queue split: if_splits)
  then show ?thesis
    using queued_update [OF i, of t "snd (channel_send m (wk_channels w ! ?i))"]
    by (auto simp: w' sender_ok_def channel_send_queue split: if_splits)
qed

subsection \<open>Steps of one connection\<close>

lemma delivered_update:
  "delivered t' (AList.update t c conns) = (if t' = t then length (cn_inbox c) else delivered t' conns)"
  by (simp add: delivered_def update_conv')

lemma conn_step_ok:
  assumes ok: "server_ok n s" and c: "map_of (sv_conns s) t = Some c"
    and run: "server_send out (set_conn t c' s) = Some s'"
    and c': "conn_ok t c'" "\<And>x. out = Some x \<Longrightarrow> cx_token x = t \<and> \<not> cx_is_exec x"
    and num: "length (cn_inbox c') + holds_context c' + (if out = None then 0 else 1) \<le> length (cn_inbox c) + holds_context c"
  shows "server_ok n s' \<and> map_of (sv_conns s') t = Some c'"
proof -
  from run obtain w where s': "s' = s\<lparr>sv_conns := AList.update t c' (sv_conns s), sv_sender := w\<rparr>"
    and w: "case out of None \<Rightarrow> w = sv_sender s | Some x \<Rightarrow> worker_send (Command_Msg x) (sv_sender s) = Some w"
    by (cases out) (auto simp: server_send_def set_conn_def)
  have sender: "sender_ok w \<and> queued t' w \<le> queued t' (sv_sender s) + (if t' = t \<and> out \<noteq> None then 1 else 0)" for t'
    using w c'(2) ok worker_send_queued [of _ "sv_sender s" w t'] by (cases out) (fastforce simp: server_ok_def)+
  have "contexts t' s' \<le> contexts t' s" for t'
    using sender [of t'] num c
    by (auto simp: contexts_def in_flight_def s' delivered_update delivered_def [of t "sv_conns s"] update_conv'
        split: if_splits)
  then have "contexts t' s' \<le> (if unat t' < n then 1 else 0)" for t'
    using ok le_trans unfolding server_ok_def by blast
  then show ?thesis
    using ok c'(1) sender server_okD(3) [OF ok c] unfolding server_ok_def
    by (simp add: s' update_conv' lm_wf_update)
qed

lemma dispatch_ok:
  assumes "conn_ok t c" "dispatch req c = (c', out)"
  shows "conn_ok t c' \<and> (\<forall>x. out = Some x \<longrightarrow> cx_token x = t \<and> \<not> cx_is_exec x) \<and>
    length (cn_inbox c') + holds_context c' + (if out = None then 0 else 1) \<le> length (cn_inbox c) + holds_context c"
  using assms by (auto simp: dispatch_def conn_ok_def holds_context_def push_command_def split: option.splits)

lemma dispatch_next_ok:
  assumes "conn_ok t c" "dispatch_next x c = Some (c', out)" "cx_token x = t" "\<not> cx_is_exec x"
  shows "conn_ok t c' \<and> (\<forall>x. out = Some x \<longrightarrow> cx_token x = t \<and> \<not> cx_is_exec x) \<and> cn_inbox c' = cn_inbox c \<and>
    holds_context c' + (if out = None then 0 else 1) = 1"
  using assms
  by (cases "cn_requests c") (auto simp: dispatch_next_def conn_ok_def holds_context_def push_command_def split: if_splits)

lemma take_response_ok:
  "take_response x = Some (response, y) \<Longrightarrow> cx_token y = cx_token x \<and> \<not> cx_is_exec y"
  by (auto simp: take_response_def split: if_splits)

lemma conn_reply_ok:
  assumes "conn_ok t c" "conn_reply c = Some (c', out)"
  shows "conn_ok t c' \<and> (\<forall>x. out = Some x \<longrightarrow> cx_token x = t \<and> \<not> cx_is_exec x) \<and>
    length (cn_inbox c') + holds_context c' + (if out = None then 0 else 1) \<le> length (cn_inbox c) + holds_context c"
proof (cases "cn_inbox c")
  case (Cons x inbox)
  with assms(2) obtain response y c1 where take: "take_response x = Some (response, y)"
    and "next": "dispatch_next y (c\<lparr>cn_inbox := inbox\<rparr>) = Some (c1, out)"
    and c': "c' = c1\<lparr>cn_output := resp_encode response (cn_output c1)\<rparr>"
    by (auto simp: conn_reply_def bind_eq_Some_conv)
  have "conn_ok t (c\<lparr>cn_inbox := inbox\<rparr>)" "cx_token x = t"
    using assms(1) Cons by (auto simp: conn_ok_def)
  then have "conn_ok t c1 \<and> (\<forall>x. out = Some x \<longrightarrow> cx_token x = t \<and> \<not> cx_is_exec x) \<and> cn_inbox c1 = inbox \<and>
      holds_context c1 + (if out = None then 0 else 1) = 1"
    using dispatch_next_ok [OF _ "next", of t] take_response_ok [OF take] by auto
  then show ?thesis
    using Cons by (simp add: c' conn_ok_def holds_context_def)
qed (use assms in \<open>simp add: conn_reply_def\<close>)

lemma server_dispatch_ok:
  "server_dispatch t reqs s = Some s' \<Longrightarrow> server_ok n s \<Longrightarrow> server_ok n s'"
proof (induction reqs arbitrary: s)
  case (Cons req reqs)
  show ?case
  proof (cases "map_of (sv_conns s) t")
    case (Some c)
    obtain c' out where d: "dispatch req c = (c', out)"
      by (metis surj_pair)
    with Cons.prems(1) Some obtain s1 where s1: "server_send out (set_conn t c' s) = Some s1" "server_dispatch t reqs s1 = Some s'"
      by (auto simp: bind_eq_Some_conv)
    have "server_ok n s1"
      using conn_step_ok [OF Cons.prems(2) Some s1(1)] dispatch_ok [OF server_okD(1) [OF Cons.prems(2) Some] d] by blast
    then show ?thesis
      using Cons.IH s1(2) by blast
  qed (use Cons.prems in simp)
qed simp

lemma server_reply_ok:
  assumes "server_reply t s = Some s'" "server_ok n s"
  shows "server_ok n s'"
proof (cases "map_of (sv_conns s) t")
  case (Some c)
  with assms(1) obtain c' out where r: "conn_reply c = Some (c', out)" "server_send out (set_conn t c' s) = Some s'"
    by (auto simp: server_reply_def bind_eq_Some_conv)
  then show ?thesis
    using conn_step_ok [OF assms(2) Some r(2)] conn_reply_ok [OF server_okD(1) [OF assms(2) Some] r(1)] by blast
qed (use assms in \<open>simp add: server_reply_def\<close>)

lemma server_close_ok:
  assumes "server_ok n s"
  shows "server_ok n (server_close t s)"
proof -
  have "contexts t' (server_close t s) \<le> contexts t' s" for t'
    by (auto simp: contexts_def in_flight_def delivered_def server_close_def delete_conv' split: option.splits)
  then have "contexts t' (server_close t s) \<le> (if unat t' < n then 1 else 0)" for t'
    using assms le_trans unfolding server_ok_def by blast
  then show ?thesis
    using assms unfolding server_ok_def by (auto simp: server_close_def delete_conv' lm_wf_delete split: if_splits)
qed

lemma server_receive_ok:
  assumes "server_receive cap t bs s = Some s'" "server_ok n s"
  shows "server_ok n s'"
proof (cases "map_of (sv_conns s) t")
  case (Some c)
  obtain reqs res where r: "framed_read (resp_decode cap) (cn_buffer c @ bs) = Some (reqs, res)"
    using resp_read_total by blast
  show ?thesis
  proof (cases res)
    case (Ok rest)
    have "server_send None (set_conn t (c\<lparr>cn_buffer := rest\<rparr>) s) = Some (set_conn t (c\<lparr>cn_buffer := rest\<rparr>) s)"
      by (simp add: server_send_def)
    from conn_step_ok [OF assms(2) Some this] have "server_ok n (set_conn t (c\<lparr>cn_buffer := rest\<rparr>) s)"
      using server_okD(1) [OF assms(2) Some] by (simp add: conn_ok_def holds_context_def)
    then show ?thesis
      using assms(1) Some r Ok server_dispatch_ok by (fastforce simp: server_receive_def)
  qed (use assms Some r in \<open>auto simp: server_receive_def intro!: server_close_ok intro: server_dispatch_ok\<close>)
qed (use assms in \<open>simp add: server_receive_def\<close>)

subsection \<open>Steps of the node\<close>

lemma server_accept_ok:
  assumes "server_ok n s" "n < 2 ^ 64"
  shows "server_ok n (server_accept s) \<or> server_ok (Suc n) (server_accept s)"
proof (cases "unat (sv_connection_max s) \<le> length (sv_conns s)")
  case False
  let ?t = "sv_next_token s"
  have t: "unat ?t = n"
    using assms by (simp add: server_ok_def unsigned_of_nat take_bit_nat_eq_self)
  have "contexts t (server_accept s) \<le> contexts t s + (if t = ?t then 1 else 0)" for t
    using False
    by (auto simp: contexts_def in_flight_def delivered_def server_accept_def update_conv' conn_new_def holds_context_def
        split: option.splits)
  moreover have "contexts t s \<le> (if unat t < n then 1 else 0)" for t
    using assms(1) unfolding server_ok_def by blast
  ultimately have num: "contexts t (server_accept s) \<le> (if unat t < n then 1 else 0) + (if t = ?t then 1 else 0)" for t
    by (meson add_le_mono1 le_trans)
  have "contexts t (server_accept s) \<le> (if unat t < Suc n then 1 else 0)" for t
  proof (cases "t = ?t")
    case True
    then show ?thesis
      using num [of ?t] t by simp
  next
    case False
    then show ?thesis
      using num [of t] by (auto split: if_splits)
  qed
  then have "server_ok (Suc n) (server_accept s)"
    using assms(1) False t unfolding server_ok_def
    by (auto simp: server_accept_def update_conv' lm_wf_update conn_new_def conn_ok_def ctx_new_def less_SucI add.commute split: if_splits)
  then show ?thesis ..
qed (use assms in \<open>simp add: server_accept_def\<close>)

lemma server_push_ok:
  assumes "server_ok n s" "\<And>c. wm \<noteq> Command_Msg c"
  shows "server_ok n (server_push i wm s)"
proof (cases "i < length (wk_channels (sv_sender s))")
  case True
  let ?w = "(sv_sender s)\<lparr>wk_channels := (wk_channels (sv_sender s))[i := snd (channel_send wm (wk_channels (sv_sender s) ! i))]\<rparr>"
  have wm: "wm = Exit_Msg \<or> proper wm" "\<not> command_of t wm" for t
    using assms(2) by (cases wm; simp)+
  have "\<forall>m\<in>set (ch_queue (wk_channels (sv_sender s) ! i)). m = Exit_Msg \<or> proper m"
    using assms(1) True nth_mem by (auto simp: server_ok_def sender_ok_def)
  then have "sender_ok ?w"
    using assms(1) wm(1) by (intro sender_ok_update) (auto simp: server_ok_def channel_send_queue split: if_splits)
  moreover have "contexts t (s\<lparr>sv_sender := ?w\<rparr>) = contexts t s" for t
    using queued_update [OF True, of t "snd (channel_send wm (wk_channels (sv_sender s) ! i))"] wm(2) [of t]
    by (simp add: contexts_def in_flight_def channel_send_queue split: if_splits)
  ultimately show ?thesis
    using assms(1) True unfolding server_ok_def by (simp add: server_push_def Let_def)
qed (use assms in \<open>simp add: server_push_def Let_def\<close>)

lemma response_all_map_of:
  "map_of (response_all es conns) t =
     map_option (\<lambda>c. c\<lparr>cn_inbox := cn_inbox c @ map (\<lambda>e. case e of Reply x \<Rightarrow> x) (filter (replies_to t) es)\<rparr>) (map_of conns t)"
proof (induction es arbitrary: conns)
  case Nil
  show ?case
    by (simp add: option.map_ident)
next
  case (Cons e es)
  show ?case
  proof (cases e)
    case (Reply x)
    have "map_of (response_fn x conns) t =
        map_option (\<lambda>c. if cx_token x = t then c\<lparr>cn_inbox := cn_inbox c @ [x]\<rparr> else c) (map_of conns t)"
      by (cases "map_of conns t") (auto simp: response_fn_def update_conv' split: option.splits)
    then show ?thesis
      using Reply Cons.IH by (cases "map_of conns t"; cases "cx_token x = t") simp_all
  qed (use Cons.IH in simp_all)
qed

lemma response_all_wf: "lm_wf conns \<Longrightarrow> lm_wf (response_all es conns)"
proof (induction es arbitrary: conns)
  case (Cons e es)
  then show ?case
    by (cases e) (auto simp: response_fn_def lm_wf_update split: option.split)
qed simp

lemma response_all_conns:
  assumes "map_of (response_all es conns) t = Some c'"
  shows "\<exists>c. map_of conns t = Some c \<and> (conn_ok t c \<longrightarrow> conn_ok t c')"
proof -
  have "cx_token x = t" if "x \<in> set (map (\<lambda>e. case e of Reply x \<Rightarrow> x) (filter (replies_to t) es))" for x
  proof -
    from that obtain e where "e \<in> set es" "replies_to t e" "x = (case e of Reply x \<Rightarrow> x)"
      by auto
    then show ?thesis
      by (cases e rule: effect.exhaust) (auto simp del: set_filter)
  qed
  moreover from assms obtain c where "map_of conns t = Some c"
    "c' = c\<lparr>cn_inbox := cn_inbox c @ map (\<lambda>e. case e of Reply x \<Rightarrow> x) (filter (replies_to t) es)\<rparr>"
    by (auto simp: response_all_map_of)
  ultimately show ?thesis
    by (auto simp: conn_ok_def simp del: set_map)
qed

lemma contexts_response:
  "contexts t (s\<lparr>sv_conns := response_all es (sv_conns s)\<rparr>) \<le> contexts t s + length (filter (replies_to t) es)"
  by (simp add: contexts_def in_flight_def delivered_def response_all_map_of holds_context_def split: option.split)

lemma worker_exit_ok:
  assumes ok: "server_ok n s" and i: "i < length (wk_channels (sv_sender s))"
  shows "server_ok n (s\<lparr>sv_sender := (sv_sender s)\<lparr>wk_channels := (wk_channels (sv_sender s))[i := \<lparr>ch_queue = [], ch_open = False\<rparr>]\<rparr>\<rparr>)"
    (is "server_ok n ?s")
proof -
  have "contexts t ?s \<le> contexts t s" for t
    using queued_update [OF i, of t "\<lparr>ch_queue = [], ch_open = False\<rparr>"] by (simp add: contexts_def in_flight_def)
  then have "contexts t ?s \<le> (if unat t < n then 1 else 0)" for t
    using ok le_trans unfolding server_ok_def by blast
  then show ?thesis
    using ok unfolding server_ok_def by (auto intro!: sender_ok_update)
qed

lemma worker_message_ok:
  assumes ok: "server_ok n s" and i: "i < length (wk_channels (sv_sender s))"
    and queue: "ch_queue (wk_channels (sv_sender s) ! i) = wm # queue" and wm: "wm \<noteq> Exit_Msg"
    and run: "worker_handle sy wm (sv_database s) = Some d"
  shows "server_ok n (s\<lparr>sv_database := d\<lparr>db_env := (db_env d)\<lparr>ev_effects := []\<rparr>\<rparr>,
      sv_sender := (sv_sender s)\<lparr>wk_channels := (wk_channels (sv_sender s))[i := (wk_channels (sv_sender s) ! i)\<lparr>ch_queue := queue\<rparr>]\<rparr>,
      sv_conns := response_all (ev_effects (db_env d)) (sv_conns s)\<rparr>)" (is "server_ok n ?s")
proof -
  let ?ch = "wk_channels (sv_sender s) ! i"
  have q: "\<forall>m\<in>set (wm # queue). m = Exit_Msg \<or> proper m"
    using ok i queue nth_mem [OF i] unfolding server_ok_def sender_ok_def by metis
  then have "proper wm"
    using wm by simp
  then have acc: "accounts t (if command_of t wm then 1 else 0) (sv_database s) d" for t
    using ok run by (intro worker_handle_accounts) (auto simp: server_ok_def)
  have "contexts t ?s \<le> contexts t s" for t
  proof -
    have "answered t (db_env (sv_database s)) = 0"
      using ok by (simp add: server_ok_def answered_def)
    then have "pending t d + length (filter (replies_to t) (ev_effects (db_env d))) =
        pending t (sv_database s) + (if command_of t wm then 1 else 0)"
      using acc [of t] by (simp add: accounts_def answered_def)
    then show ?thesis
      using queued_update [OF i, of t "?ch\<lparr>ch_queue := queue\<rparr>"] queue
        contexts_response [of t "ev_effects (db_env d)" s]
      by (cases "command_of t wm") (simp_all add: contexts_def in_flight_def pending_def)
  qed
  then have num: "contexts t ?s \<le> (if unat t < n then 1 else 0)" for t
    using ok le_trans unfolding server_ok_def by blast
  have "sender_ok (sv_sender ?s)"
    using ok q by (auto simp: server_ok_def intro!: sender_ok_update)
  moreover have "requests_ok (sv_database ?s)"
    using acc by (simp add: accounts_def requests_ok_def)
  moreover have "conn_ok t c \<and> unat t < n" if "map_of (sv_conns ?s) t = Some c" for t c
  proof -
    from that have "map_of (response_all (ev_effects (db_env d)) (sv_conns s)) t = Some c"
      by simp
    then show ?thesis
      using response_all_conns server_okD(1,3) [OF ok] by blast
  qed
  ultimately show ?thesis
    using ok num unfolding server_ok_def by (simp add: response_all_wf)
qed

lemma server_work_ok:
  assumes "server_work i sy s = Some s'" "server_ok n s"
  shows "server_ok n s'"
proof (cases "length (wk_channels (sv_sender s)) \<le> i \<or> ch_queue (wk_channels (sv_sender s) ! i) = []")
  case True
  then have "server_work i sy s = Some s"
    by (elim disjE) (simp_all add: server_work_def Let_def)
  then show ?thesis
    using assms by simp
next
  case False
  then obtain wm queue where q: "ch_queue (wk_channels (sv_sender s) ! i) = wm # queue" and i: "i < length (wk_channels (sv_sender s))"
    by (auto simp: neq_Nil_conv)
  show ?thesis
  proof (cases "wm = Exit_Msg")
    case True
    then show ?thesis
      using assms(1) q i worker_exit_ok [OF assms(2) i] by (auto simp: server_work_def Let_def)
  next
    case False
    with assms(1) q i obtain d where "worker_handle sy wm (sv_database s) = Some d"
      "s' = s\<lparr>sv_database := d\<lparr>db_env := (db_env d)\<lparr>ev_effects := []\<rparr>\<rparr>,
         sv_sender := (sv_sender s)\<lparr>wk_channels := (wk_channels (sv_sender s))[i := (wk_channels (sv_sender s) ! i)\<lparr>ch_queue := queue\<rparr>]\<rparr>,
         sv_conns := response_all (ev_effects (db_env d)) (sv_conns s)\<rparr>"
      by (auto simp: server_work_def Let_def)
    then show ?thesis
      using worker_message_ok [OF assms(2) i q False] by blast
  qed
qed

section \<open>Runs of the server\<close>

fun of_others :: "'db server_event \<Rightarrow> bool" where
  "of_others (Push _ (Command_Msg _)) \<longleftrightarrow> False"
| "of_others _ \<longleftrightarrow> True"

fun is_accept :: "'db server_event \<Rightarrow> bool" where
  "is_accept Accept \<longleftrightarrow> True"
| "is_accept _ \<longleftrightarrow> False"

lemma server_step_ok:
  assumes "server_step cap ev s = Some s'" "server_ok n s" "of_others ev" "n + (if is_accept ev then 1 else 0) \<le> 2 ^ 64"
  obtains n' where "server_ok n' s'" "n' \<le> n + (if is_accept ev then 1 else 0)"
proof (cases ev)
  case Accept
  then show ?thesis
    using assms server_accept_ok [of n s] that [of n] that [of "Suc n"] by (auto simp: server_step_def)
next
  case (Push i wm)
  then show ?thesis
    using assms(3) that [of n] server_push_ok [OF assms(2), of wm i] assms(1)
    by (cases wm) (simp_all add: server_step_def)
qed (use assms that [of n] in \<open>auto simp: server_step_def
      intro: server_receive_ok server_work_ok server_reply_ok server_close_ok\<close>)

lemma server_run_ok:
  assumes "server_run cap evs s = Some s'" "server_ok n s" "list_all of_others evs"
    "n + length (filter is_accept evs) \<le> 2 ^ 64"
  obtains n' where "server_ok n' s'"
  using assms
proof (induction evs arbitrary: s n thesis)
  case (Cons ev evs)
  then obtain s1 where s1: "server_step cap ev s = Some s1" "server_run cap evs s1 = Some s'"
    by (auto simp: bind_eq_Some_conv)
  obtain n1 where n1: "server_ok n1 s1" "n1 \<le> n + (if is_accept ev then 1 else 0)"
    using server_step_ok [OF s1(1) Cons.prems(3)] Cons.prems(4,5) by (auto split: if_splits)
  then show ?case
    using Cons.IH [OF _ s1(2) n1(1)] Cons.prems(1,4,5) by (auto split: if_splits)
qed simp

lemma server_new_ok:
  assumes "db_new sy su db = Some d" "server_new cmax rnd channels d = Some s" "list_all (\<lambda>ch. ch_queue ch = []) channels"
  shows "server_ok 0 s"
proof -
  from assms(2) have s: "s = \<lparr>sv_database = d\<lparr>db_env := (db_env d)\<lparr>ev_effects := []\<rparr>\<rparr>,
      sv_sender = \<lparr>wk_cursor = rnd, wk_channels = channels\<rparr>, sv_conns = [], sv_next_token = 0, sv_connection_max = cmax\<rparr>"
    by (auto simp: server_new_def worker_sender_new_def split: if_splits)
  have "queued t (sv_sender s) = 0" for t
    using assms(3) by (auto simp: s queued_def list_all_iff)
  moreover have "sender_ok (sv_sender s)"
    using assms(3) by (auto simp: s sender_ok_def list_all_iff)
  ultimately show ?thesis
    using db_new_requests [OF assms(1)]
    by (simp add: server_ok_def contexts_def in_flight_def s delivered_def requests_ok_def pending_def)
qed

text \<open>One connection alone: requests and replies in any order, and the contexts it sends.\<close>

datatype conn_event = Request resp_value | Answer ctx

definition sent_of :: "ctx option \<Rightarrow> ctx list" where
  "sent_of out = (case out of None \<Rightarrow> [] | Some c \<Rightarrow> [c])"

fun conn_run :: "conn_event list \<Rightarrow> connection \<Rightarrow> (connection \<times> ctx list) option" where
  "conn_run [] c = Some (c, [])"
| "conn_run (Request req # evs) c =
     (case dispatch req c of (c, out) \<Rightarrow>
        map_option (\<lambda>(c, sent). (c, sent_of out @ sent)) (conn_run evs c))"
| "conn_run (Answer x # evs) c =
     Option.bind (dispatch_next x c) (\<lambda>(c, out).
       map_option (\<lambda>(c, sent). (c, sent_of out @ sent)) (conn_run evs c))"

fun requested :: "conn_event list \<Rightarrow> resp_value list" where
  "requested [] = []"
| "requested (Request req # evs) = req # requested evs"
| "requested (Answer _ # evs) = requested evs"

lemma conn_run_order:
  "conn_run evs c = Some (c', sent) \<Longrightarrow> cn_context c = None \<or> cn_requests c = [] \<Longrightarrow>
     map (last \<circ> cx_commands) sent @ cn_requests c' = cn_requests c @ requested evs"
proof (induction evs c arbitrary: c' sent rule: conn_run.induct)
  case (2 req evs c)
  then show ?case
    by (cases "cn_context c") (auto simp: dispatch_def push_command_def sent_of_def)
next
  case (3 x evs c)
  then show ?case
    by (cases "cn_requests c") (auto simp: dispatch_next_def push_command_def sent_of_def split: if_splits)
qed simp

section \<open>Properties\<close>

text \<open>
  C2: A client never has more than one command in flight. For every run of a server from the start of
  its node, with any interleaving of connections, bytes, workers, replies and messages of peers, a
  connection that has its context has no command in a channel, in a pending request or among the
  replies, and one that has not has at most one. So when a reply is there, the assertion of
  \<^verbatim>\<open>dispatch_next\<close> holds. Tokens are not reused before 2^64 connections.
\<close>

theorem one_command_in_flight:
  assumes "db_new sy su db = Some d" "server_new cmax rnd channels d = Some s0" "list_all (\<lambda>ch. ch_queue ch = []) channels"
    "server_run cap evs s0 = Some s" "list_all of_others evs" "length (filter is_accept evs) \<le> 2 ^ 64"
    "map_of (sv_conns s) t = Some c"
  shows "in_flight t s + holds_context c \<le> 1 \<and> (cn_inbox c \<noteq> [] \<longrightarrow> dispatch_next x c \<noteq> None)"
proof -
  obtain n where "server_ok n s"
    using server_run_ok [OF assms(4) server_new_ok [OF assms(1-3)] assms(5)] assms(6) by auto
  then have le: "in_flight t s + holds_context c \<le> 1"
    using assms(7) by (rule server_okD(2))
  moreover have "length (cn_inbox c) \<le> in_flight t s"
    using assms(7) by (simp add: in_flight_def delivered_def)
  ultimately have "cn_context c = None" if "cn_inbox c \<noteq> []"
    using that by (cases "cn_inbox c") (auto simp: holds_context_def split: if_splits)
  then show ?thesis
    using le by (simp add: dispatch_next_def split: list.split)
qed

theorem one_command_in_flight_witness:
  "let d = the (db_new ref_sys ref_startup ([], []));
       s0 = the (server_new 10 0 [\<lparr>ch_queue = [], ch_open = True\<rparr>] d);
       evs = [Accept, Receive 0 (wire [request [''ECHO'']]), Work 0 ref_sys];
       s = the (server_run 1000 evs s0);
       c = the (map_of (sv_conns s) 0)
   in cn_inbox c \<noteq> [] \<and> in_flight 0 s + holds_context c \<le> 1 \<and> (cn_inbox c \<noteq> [] \<longrightarrow> dispatch_next (ctx_new 0) c \<noteq> None)"
proof -
  obtain d where d: "db_new ref_sys ref_startup ([], []) = Some d"
    using ref_started by blast
  let ?evs = "[Accept, Receive 0 (wire [request [''ECHO'']]), Work 0 ref_sys]"
  obtain s0 where s0: "server_new 10 0 [\<lparr>ch_queue = [], ch_open = True\<rparr>] d = Some s0"
    by (simp add: server_new_def worker_sender_new_def)
  have "is_request 1000 (request [''ECHO''])"
    by (auto simp: is_request_def request_ok_def)
  then have read: "framed_read (resp_decode 1000) (serialize_into (RArray [RData ''ECHO''])) = Some ([RArray [RData ''ECHO'']], Ok [])"
    using resp.read_stream [of 1000 "[request [''ECHO'']]" "[]"]
    by (simp add: partial_item_def request_def del: serialize_into.simps)
  obtain s c where s: "server_run 1000 ?evs s0 = Some s" "map_of (sv_conns s) 0 = Some c" "cn_inbox c \<noteq> []"
    using s0
    by (auto simp: server_new_def worker_sender_new_def server_step_def server_accept_def server_receive_def
        server_work_def conn_new_def dispatch_def server_send_def set_conn_def worker_send_def worker_try_send_def
        channel_send_def push_command_def read request_def worker_handle_def handler_cmd_def handle_cmd_def
        command_args_def ctx_new_def handle_single_cmd_def reply_def respond_resp_def respond_def ctx_respond_def response_fn_def Let_def simp del: serialize_into.simps)
  have "in_flight 0 s + holds_context c \<le> 1 \<and> (cn_inbox c \<noteq> [] \<longrightarrow> dispatch_next (ctx_new 0) c \<noteq> None)"
    by (rule one_command_in_flight [OF d s0 _ s(1) _ _ s(2)]) simp_all
  then show ?thesis
    using s d s0 by simp
qed

text \<open>
  A connection sends the requests of its client to the node in the order of their arrival, none
  lost and none twice: at any moment those sent, followed by those that wait for a reply, are the
  requests received.
\<close>

theorem requests_in_order:
  assumes "conn_run evs (conn_new t) = Some (c, sent)"
  shows "map (last \<circ> cx_commands) sent @ cn_requests c = requested evs"
  using conn_run_order [OF assms] by (simp add: conn_new_def)

theorem requests_in_order_witness:
  "let evs = [Request (request [''A'']), Request (request [''B'']), Request (request [''C'']), Answer (ctx_new 1)];
       (c, sent) = the (conn_run evs (conn_new 1))
   in map (last \<circ> cx_commands) sent @ cn_requests c = requested evs"
proof -
  let ?evs = "[Request (request [''A'']), Request (request [''B'']), Request (request [''C'']), Answer (ctx_new 1)]"
  obtain c sent where "conn_run ?evs (conn_new 1) = Some (c, sent)"
    by (simp add: dispatch_def dispatch_next_def conn_new_def sent_of_def)
  then show ?thesis
    using requests_in_order by (simp only: Let_def option.sel prod.case)
qed

end
