(* ===== verification/Fabric.thy ===== *)
theory Fabric
  imports Framing Workers
begin

text \<open>
  \<^verbatim>\<open>fabric.rs\<close>: the network between the nodes of a cluster. Messages are framed by their length, every
  node keeps the addresses of its peers and the connections to them, and a message to a node goes to
  one of its connections. Sockets and the event loop are not modelled: connecting is an effect, and
  a connection that is there or gone is a step. The serializer is \<^verbatim>\<open>bincode\<close>, a parameter.
\<close>

section \<open>Framing\<close>

record bincode =
  bc_serialize :: "fabric_msg \<Rightarrow> bytes"
  bc_deserialize_from :: "bytes \<Rightarrow> fabric_msg option"

definition le_bytes :: "nat \<Rightarrow> nat \<Rightarrow> bytes" where
  "le_bytes n x = rev (be_bytes n x)"

definition le_read :: "bytes \<Rightarrow> nat" where
  "le_read bs = be_read (rev bs)"

definition put_u32_le :: "u32 \<Rightarrow> bytes" where
  "put_u32_le w = le_bytes 4 (unat w)"

text \<open>The reader of a frame is not bounded by the length; what is dropped from the buffer is.\<close>

definition frame_decode :: "bincode \<Rightarrow> (fabric_msg, unit) decoder" where
  "frame_decode bc src =
     (if length src < 4 then (Ok None, src)
      else
        (let msg_len = le_read (take 4 src); bytes = drop 4 src
         in if msg_len \<le> length bytes then
              (case bc_deserialize_from bc bytes of
                 Some v \<Rightarrow> (Ok (Some v), drop (4 + msg_len) src)
               | None \<Rightarrow> (Err (), src))
            else (Ok None, src)))"

text \<open>The size is cast to 32 bits.\<close>

definition frame_serialize :: "bincode \<Rightarrow> fabric_msg \<Rightarrow> bytes" where
  "frame_serialize bc item =
     (let payload = bc_serialize bc item in put_u32_le (of_nat (length payload)) @ payload)"

definition frame_encode :: "bytes \<Rightarrow> bytes \<Rightarrow> bytes" where
  "frame_encode item dst = dst @ item"

section \<open>The shared context\<close>

text \<open>A channel to the writer of a connection, which may have ended.\<close>

record fabric_chan =
  fc_queue :: "bytes list"
  fc_open :: bool

record fabric =
  fb_node :: node_id
  fb_addr :: addr
  fb_nodes_addr :: "(node_id \<times> addr) list"
  fb_connections :: "(node_id \<times> (u64 \<times> fabric_chan) list) list"
  fb_connection_gen :: u64

text \<open>What the event loop is asked to do: connect to an address, call the connection handlers.\<close>

datatype fabric_effect = Connect "node_id option" addr | Connected node_id

definition fabric_init :: "node_id \<Rightarrow> addr \<Rightarrow> fabric" where
  "fabric_init node a =
     \<lparr>fb_node = node, fb_addr = a, fb_nodes_addr = [], fb_connections = [], fb_connection_gen = 0\<rparr>"

definition context_register_node :: "node_id \<Rightarrow> addr \<Rightarrow> fabric \<Rightarrow> addr option \<times> fabric" where
  "context_register_node peer a f =
     (map_of (fb_nodes_addr f) peer, f\<lparr>fb_nodes_addr := AList.update peer a (fb_nodes_addr f)\<rparr>)"

definition context_remove_node :: "node_id \<Rightarrow> fabric \<Rightarrow> fabric" where
  "context_remove_node peer f = f\<lparr>fb_nodes_addr := AList.delete peer (fb_nodes_addr f)\<rparr>"

definition register_connection :: "node_id \<Rightarrow> fabric_chan \<Rightarrow> fabric \<Rightarrow> u64 \<times> fabric \<times> fabric_effect list" where
  "register_connection peer sender f =
     (let connection_id = fb_connection_gen f;
          entry = (case map_of (fb_connections f) peer of Some entry \<Rightarrow> entry | None \<Rightarrow> []);
          is_new = (entry = [])
      in (connection_id,
          f\<lparr>fb_connection_gen := connection_id + 1,
            fb_connections := AList.update peer (entry @ [(connection_id, sender)]) (fb_connections f)\<rparr>,
          if is_new then [Connected peer] else []))"

text \<open>\<^verbatim>\<open>Vec::swap_remove\<close>: the last element takes the place of the removed one.\<close>

definition swap_remove :: "nat \<Rightarrow> 'x list \<Rightarrow> 'x list" where
  "swap_remove p xs = butlast (xs[p := last xs])"

definition remove_connection :: "node_id \<Rightarrow> u64 \<Rightarrow> fabric \<Rightarrow> fabric option" where
  "remove_connection peer connection_id f =
     (case map_of (fb_connections f) peer of
        None \<Rightarrow> None
      | Some entry \<Rightarrow>
          (case position (\<lambda>x. fst x = connection_id) entry of
             None \<Rightarrow> None
           | Some p \<Rightarrow>
               (let entry = swap_remove p entry
                in Some (f\<lparr>fb_connections :=
                     (if entry = [] then AList.delete peer (fb_connections f)
                      else AList.update peer entry (fb_connections f))\<rparr>))))"

text \<open>
  The handlers the database registers for the types of messages. A type without a handler is
  dropped; a message without a type panics.
\<close>

definition msg_handlers :: "(fabric_msg_type \<times> (node_id \<Rightarrow> fabric_msg \<Rightarrow> worker_msg)) list" where
  "msg_handlers = [(DHT_type, DHTFabric_Msg), (Crud, Fabric_Msg), (Synch, Fabric_Msg)]"

definition fabric_dispatch :: "node_id \<Rightarrow> fabric_msg \<Rightarrow> worker_msg option option" where
  "fabric_dispatch peer msg =
     map_option (\<lambda>ty. map_option (\<lambda>handler. handler peer msg) (map_of msg_handlers ty)) (get_type msg)"

text \<open>The handshake: each side sends its node id.\<close>

definition handshake_bytes :: "fabric \<Rightarrow> bytes" where
  "handshake_bytes f = le_bytes 8 (unat (fb_node f))"

definition handshake_peer :: "bytes \<Rightarrow> node_id" where
  "handshake_peer b = of_nat (le_read b)"

text \<open>After a connection has ended or failed: whether it is tried again.\<close>

definition reconnect :: "node_id option \<Rightarrow> fabric \<Rightarrow> fabric_effect list" where
  "reconnect expected_node f =
     (case expected_node of
        None \<Rightarrow> []
      | Some node \<Rightarrow>
          (case map_of (fb_nodes_addr f) node of
             Some a \<Rightarrow> [Connect expected_node a]
           | None \<Rightarrow> []))"

section \<open>Operations of the fabric\<close>

definition register_seed :: "addr \<Rightarrow> fabric_effect list" where
  "register_seed a = [Connect None a]"

definition fabric_register_node :: "node_id \<Rightarrow> addr \<Rightarrow> fabric \<Rightarrow> fabric \<times> fabric_effect list" where
  "fabric_register_node node a f =
     (case context_register_node node a f of (prev, f) \<Rightarrow>
        (f, if prev \<noteq> Some a then [Connect (Some node) a] else []))"

definition fabric_remove_node :: "node_id \<Rightarrow> fabric \<Rightarrow> fabric" where
  "fabric_remove_node node f = context_remove_node node f"

definition fabric_connections :: "fabric \<Rightarrow> node_id list" where
  "fabric_connections f = map fst (filter (\<lambda>(_, c). c \<noteq> []) (fb_connections f))"

text \<open>The loop of \<^verbatim>\<open>set_nodes\<close> over the members: the addresses, and those left over from before.\<close>

fun set_nodes_loop :: "node_id \<Rightarrow> (node_id \<times> addr) list \<Rightarrow> (node_id \<times> addr) list \<Rightarrow> (node_id \<times> addr) list \<Rightarrow>
    (node_id \<times> addr) list \<times> (node_id \<times> addr) list \<times> fabric_effect list" where
  "set_nodes_loop this [] nodes x_nodes = (nodes, x_nodes, [])"
| "set_nodes_loop this ((node, a) # it) nodes x_nodes =
     (if node = this then set_nodes_loop this it nodes x_nodes
      else
        (case set_nodes_loop this it (AList.update node a nodes) (AList.delete node x_nodes) of
           (nodes', x_nodes', es) \<Rightarrow>
             (nodes', x_nodes', (if map_of nodes node \<noteq> Some a then [Connect (Some node) a] else []) @ es)))"

definition set_nodes :: "(node_id \<times> addr) list \<Rightarrow> fabric \<Rightarrow> fabric \<times> fabric_effect list" where
  "set_nodes it f =
     (case set_nodes_loop (fb_node f) it (fb_nodes_addr f) (fb_nodes_addr f) of
        (nodes, x_nodes, es) \<Rightarrow>
          (f\<lparr>fb_nodes_addr := foldl (\<lambda>m (node, _). AList.delete node m) nodes x_nodes\<rparr>, es))"

text \<open>The random choice of a connection is \<open>rnd\<close>.\<close>

definition fabric_send_msg :: "bincode \<Rightarrow> nat \<Rightarrow> node_id \<Rightarrow> fabric_msg \<Rightarrow> fabric \<Rightarrow> ((unit, fabric_error) res \<times> fabric) option" where
  "fabric_send_msg bc rnd node msg f =
     (if node = fb_node f then None
      else
        (case map_of (fb_connections f) node of
           None \<Rightarrow> Some (Err NoRoute, f)
         | Some o' \<Rightarrow>
             if o' = [] then Some (Err NoRoute, f)
             else
               (let i = rnd mod length o'; (connection_id, chan) = o' ! i
                in if fc_open chan
                   then Some (Ok (), f\<lparr>fb_connections := AList.update node
                     (o'[i := (connection_id, chan\<lparr>fc_queue := fc_queue chan @ [frame_serialize bc msg]\<rparr>)]) (fb_connections f)\<rparr>)
                   else Some (Err NoRoute, f))))"

section \<open>Frames\<close>

text \<open>A serializer of a few messages, as an instance of the parameter.\<close>

definition ref_bincode :: bincode where
  "ref_bincode =
     \<lparr>bc_serialize = (\<lambda>m. case m of DHTSync b \<Rightarrow> char_of (length b) # b | _ \<Rightarrow> [CHR 0xFF]),
      bc_deserialize_from = (\<lambda>b. case b of [] \<Rightarrow> None
        | c # r \<Rightarrow> if c = CHR 0xFF then Some Unknown else Some (DHTSync (take (of_char c) r)))\<rparr>"

lemma length_le_bytes [simp]: "length (le_bytes n x) = n"
  by (simp add: le_bytes_def)

lemma le_read_bytes: "le_read (le_bytes n x) = x mod 256 ^ n"
  by (simp add: le_read_def le_bytes_def be_read_bytes)

lemma le_bytes_4:
  "le_bytes 4 x = [char_of (x mod 256), char_of (x div 256 mod 256), char_of (x div 256 div 256 mod 256),
     char_of (x div 256 div 256 div 256 mod 256)]"
proof -
  have "(4::nat) = Suc (Suc (Suc (Suc 0)))"
    by simp
  then show ?thesis
    by (simp only: le_bytes_def be_bytes.simps rev_append rev.simps append.simps)
qed

lemma handshake_identifies: "handshake_peer (handshake_bytes f) = fb_node f"
  using unsigned_less [of "fb_node f", where ?'a = nat]
  by (simp add: handshake_peer_def handshake_bytes_def le_read_bytes)

text \<open>The messages the fabric can carry: \<^verbatim>\<open>bincode\<close> reads them back from a stream, and their size fits 32 bits.\<close>

definition frame_ok :: "bincode \<Rightarrow> fabric_msg \<Rightarrow> bool" where
  "frame_ok bc m \<longleftrightarrow>
     length (bc_serialize bc m) < 2 ^ 32 \<and> (\<forall>rest. bc_deserialize_from bc (bc_serialize bc m @ rest) = Some m)"

lemma frame_serialize_ok:
  assumes "frame_ok bc m"
  shows "frame_serialize bc m = le_bytes 4 (length (bc_serialize bc m)) @ bc_serialize bc m"
    "le_read (le_bytes 4 (length (bc_serialize bc m))) = length (bc_serialize bc m)"
proof -
  have "length (bc_serialize bc m) < 2 ^ 32"
    using assms by (simp add: frame_ok_def)
  then show "frame_serialize bc m = le_bytes 4 (length (bc_serialize bc m)) @ bc_serialize bc m"
    "le_read (le_bytes 4 (length (bc_serialize bc m))) = length (bc_serialize bc m)"
    by (simp_all add: frame_serialize_def Let_def put_u32_le_def unsigned_of_nat take_bit_nat_eq_self le_read_bytes)
qed

lemma frame_decode_partial:
  assumes "partial_item (frame_serialize bc) (frame_ok bc) p"
  shows "frame_decode bc p = (Ok None, p)"
proof (cases "length p < 4")
  case False
  then obtain m where m: "frame_ok bc m" "strict_prefix p (frame_serialize bc m)"
    using assms by (auto simp: partial_item_def)
  let ?h = "le_bytes 4 (length (bc_serialize bc m))"
  from m(2) have "strict_prefix p (?h @ bc_serialize bc m)"
    by (simp add: frame_serialize_ok(1) [OF m(1)])
  then show ?thesis
  proof (rule strict_prefix_append_cases)
    assume "strict_prefix p ?h"
    then show ?thesis
      using False prefix_length_less [of p ?h] by simp
  next
    fix q
    assume "p = ?h @ q" "strict_prefix q (bc_serialize bc m)"
    then show ?thesis
      using frame_serialize_ok(2) [OF m(1)] prefix_length_less [of q "bc_serialize bc m"]
      by (simp add: frame_decode_def)
  qed
qed (simp add: frame_decode_def)

lemma frame_decode_complete:
  "frame_ok bc m \<Longrightarrow> frame_decode bc (frame_serialize bc m @ rest) = (Ok (Some m), rest)"
  using frame_serialize_ok [of bc m] by (simp add: frame_decode_def frame_ok_def)

interpretation fabric: stream_codec "frame_decode bc" "frame_serialize bc" "frame_ok bc" for bc
  by unfold_locales (simp_all add: frame_decode_partial frame_decode_complete)

section \<open>Members\<close>

lemma set_nodes_loop_props:
  assumes "set_nodes_loop this it nodes x_nodes = (nodes', x_nodes', es)" "distinct (map fst it)" "lm_wf nodes" "lm_wf x_nodes"
  shows "(\<forall>n. map_of nodes' n = (if n \<noteq> this \<and> n \<in> fst ` set it then map_of it n else map_of nodes n)) \<and>
    fst ` set x_nodes' = {n \<in> fst ` set x_nodes. n = this \<or> n \<notin> fst ` set it} \<and>
    es = map (\<lambda>(n, a). Connect (Some n) a) (filter (\<lambda>(n, a). n \<noteq> this \<and> map_of nodes n \<noteq> Some a) it)"
  using assms
proof (induction it arbitrary: nodes x_nodes es)
  case (Cons p it)
  obtain n a where p: "p = (n, a)"
    by (cases p)
  show ?case
  proof (cases "n = this")
    case True
    then show ?thesis
      using Cons.IH [of nodes x_nodes es] Cons.prems p by auto
  next
    case False
    with Cons.prems(1) p obtain es' where loop: "set_nodes_loop this it (AList.update n a nodes) (AList.delete n x_nodes) = (nodes', x_nodes', es')"
      and es: "es = (if map_of nodes n \<noteq> Some a then [Connect (Some n) a] else []) @ es'"
      by (auto split: prod.splits)
    have notin: "n \<notin> fst ` set it"
      using Cons.prems(2) p by simp
    note IH = Cons.IH [OF loop _ lm_wf_update [OF Cons.prems(3)] lm_wf_delete [OF Cons.prems(4)]]
    have "filter (\<lambda>(k, b). k \<noteq> this \<and> map_of (AList.update n a nodes) k \<noteq> Some b) it =
        filter (\<lambda>(k, b). k \<noteq> this \<and> map_of nodes k \<noteq> Some b) it"
      using notin by (intro filter_cong) (force simp: update_conv')+
    then have "es = map (\<lambda>(n, a). Connect (Some n) a) (filter (\<lambda>(n, a). n \<noteq> this \<and> map_of nodes n \<noteq> Some a) (p # it))"
      using IH Cons.prems(2) False p es by simp
    moreover have "fst ` set (AList.delete n x_nodes) = fst ` set x_nodes - {n}"
      by (auto simp: AList.delete_eq image_iff)
    then have "fst ` set x_nodes' = {k \<in> fst ` set x_nodes. k = this \<or> k \<notin> fst ` set (p # it)}"
      using IH Cons.prems(2) False p by auto
    moreover have "map_of nodes' k = (if k \<noteq> this \<and> k \<in> fst ` set (p # it) then map_of (p # it) k else map_of nodes k)" for k
      using IH Cons.prems(2) False notin p by (simp add: update_conv')
    ultimately show ?thesis
      by blast
  qed
qed auto

lemma foldl_delete: "map_of (foldl (\<lambda>m (n, _). AList.delete n m) nodes xs) n = (if n \<in> fst ` set xs then None else map_of nodes n)"
  by (induction xs arbitrary: nodes) (auto simp: delete_conv')

section \<open>Connections\<close>

text \<open>
  The fabric and the writers that hold a connection, from its start: a connection is registered by
  its writer and removed when the writer ends. The number counts the connections ever registered.
\<close>

inductive links :: "nat \<Rightarrow> fabric \<Rightarrow> (u64 \<times> node_id) set \<Rightarrow> bool" where
  links_start: "links 0 (fabric_init node a) {}"
| links_open: "links n f live \<Longrightarrow> register_connection peer chan f = (i, f', es) \<Longrightarrow> links (Suc n) f' (insert (i, peer) live)"
| links_close: "links n f live \<Longrightarrow> (i, peer) \<in> live \<Longrightarrow> remove_connection peer i f = Some f' \<Longrightarrow> links n f' (live - {(i, peer)})"
| links_send: "links n f live \<Longrightarrow> fabric_send_msg bc rnd node msg f = Some (res, f') \<Longrightarrow> links n f' live"
| links_nodes: "links n f live \<Longrightarrow> set_nodes it f = (f', es) \<Longrightarrow> links n f' live"

definition entry_of :: "fabric \<Rightarrow> node_id \<Rightarrow> (u64 \<times> fabric_chan) list" where
  "entry_of f peer = (case map_of (fb_connections f) peer of Some entry \<Rightarrow> entry | None \<Rightarrow> [])"

definition links_ok :: "nat \<Rightarrow> fabric \<Rightarrow> (u64 \<times> node_id) set \<Rightarrow> bool" where
  "links_ok n f live \<longleftrightarrow>
     lm_wf (fb_connections f) \<and> fb_connection_gen f = of_nat n \<and> (\<forall>(i, peer)\<in>live. unat i < n) \<and>
     (\<forall>peer. map_of (fb_connections f) peer \<noteq> Some [] \<and> distinct (map fst (entry_of f peer)) \<and>
        fst ` set (entry_of f peer) = {i. (i, peer) \<in> live})"

lemma swap_remove_mset:
  assumes "p < length xs"
  shows "mset (swap_remove p xs) = mset xs - {#xs ! p#}"
proof -
  have ne: "xs[p := last xs] \<noteq> []"
    using assms by auto
  have "last (xs[p := last xs]) = last xs"
    using assms ne by (simp add: last_conv_nth nth_list_update)
  then have "add_mset (last xs) (mset (butlast (xs[p := last xs]))) = mset (xs[p := last xs])"
    using append_butlast_last_id [OF ne] by (metis add_mset_add_single mset.simps(1,2) mset_append)
  then show ?thesis
    using assms by (simp add: swap_remove_def mset_update)
qed

lemma swap_remove_entry:
  assumes "position (\<lambda>x. fst x = i) xs = Some p" "distinct (map fst xs)"
  shows "distinct (map fst (swap_remove p xs)) \<and> fst ` set (swap_remove p xs) = fst ` set xs - {i}"
proof -
  have p: "p < length xs \<and> fst (xs ! p) = i"
    using assms(1) by (simp add: position_Some)
  let ?ys = "swap_remove p xs"
  have "mset xs = add_mset (xs ! p) (mset ?ys)"
    using p swap_remove_mset [of p xs] by simp
  then have "mset (map fst xs) = mset (i # map fst ?ys)"
    using p by simp
  then have "distinct (i # map fst ?ys)" "set (map fst xs) = set (i # map fst ?ys)"
    using assms(2) by (metis distinct_count_atmost_1 set_mset_mset)+
  then show ?thesis
    by auto
qed

lemma register_connection_ok:
  assumes "links_ok n f live" "register_connection peer chan f = (i, f', es)" "n < 2 ^ 64"
  shows "links_ok (Suc n) f' (insert (i, peer) live)"
proof -
  from assms(2) have i: "i = fb_connection_gen f" and f': "f' = f\<lparr>fb_connection_gen := i + 1,
      fb_connections := AList.update peer (entry_of f peer @ [(i, chan)]) (fb_connections f)\<rparr>"
    by (auto simp: register_connection_def entry_of_def Let_def)
  have unat: "unat i = n"
    using assms(1,3) by (simp add: i links_ok_def unsigned_of_nat take_bit_nat_eq_self)
  then have fresh: "(i, q) \<notin> live" for q
    using assms(1) by (auto simp: links_ok_def)
  have entry: "entry_of f' q = (if q = peer then entry_of f peer @ [(i, chan)] else entry_of f q)" for q
    by (simp add: entry_of_def f' update_conv')
  have old: "fst ` set (entry_of f q) = {i. (i, q) \<in> live}" "distinct (map fst (entry_of f q))" for q
    using assms(1) by (auto simp: links_ok_def)
  have "distinct (map fst (entry_of f' q)) \<and> fst ` set (entry_of f' q) = {j. (j, q) \<in> insert (i, peer) live}" for q
    using old [of q] old [of peer] fresh by (auto simp: entry image_iff)
  moreover have "map_of (fb_connections f') q \<noteq> Some []" for q
    using assms(1) by (simp add: f' update_conv' links_ok_def)
  moreover have "\<forall>(j, q)\<in>insert (i, peer) live. unat j < Suc n"
    using assms(1) unat by (auto simp: links_ok_def less_SucI)
  moreover have "lm_wf (fb_connections f') \<and> fb_connection_gen f' = of_nat (Suc n)"
    using assms(1) by (simp add: f' i links_ok_def lm_wf_update add.commute)
  ultimately show ?thesis
    unfolding links_ok_def by blast
qed

lemma remove_connection_ok:
  assumes "links_ok n f live" "(i, peer) \<in> live"
  shows "\<exists>f'. remove_connection peer i f = Some f' \<and> links_ok n f' (live - {(i, peer)})"
proof -
  have old: "fst ` set (entry_of f q) = {i. (i, q) \<in> live}" "distinct (map fst (entry_of f q))"
    "map_of (fb_connections f) q \<noteq> Some []" for q
    using assms(1) by (auto simp: links_ok_def)
  have i: "i \<in> fst ` set (entry_of f peer)"
    using assms(2) old(1) by simp
  then obtain p where p: "position (\<lambda>x. fst x = i) (entry_of f peer) = Some p"
    by (cases "position (\<lambda>x. fst x = i) (entry_of f peer)") (auto simp: position_None)
  have "map_of (fb_connections f) peer = Some (entry_of f peer)"
    using i by (cases "map_of (fb_connections f) peer") (auto simp: entry_of_def)
  then obtain f' where run: "remove_connection peer i f = Some f'" and f': "f' = f\<lparr>fb_connections :=
      (if swap_remove p (entry_of f peer) = [] then AList.delete peer (fb_connections f)
       else AList.update peer (swap_remove p (entry_of f peer)) (fb_connections f))\<rparr>"
    using p by (simp add: remove_connection_def Let_def)
  note swap = swap_remove_entry [OF p old(2)]
  have entry: "entry_of f' q = (if q = peer then swap_remove p (entry_of f peer) else entry_of f q)" for q
    by (simp add: entry_of_def f' update_conv' delete_conv')
  have "distinct (map fst (entry_of f' q)) \<and> fst ` set (entry_of f' q) = {j. (j, q) \<in> live - {(i, peer)}}" for q
    using old [of q] swap old(1) [of peer] by (auto simp: entry)
  moreover have "map_of (fb_connections f') q \<noteq> Some []" for q
    using old(3) [of q] by (auto simp: f' update_conv' delete_conv')
  moreover have "lm_wf (fb_connections f') \<and> fb_connection_gen f' = of_nat n \<and> (\<forall>(j, q)\<in>live - {(i, peer)}. unat j < n)"
    using assms(1) by (auto simp: f' links_ok_def lm_wf_update lm_wf_delete)
  ultimately show ?thesis
    using run unfolding links_ok_def by blast
qed

lemma links_ok_cong:
  assumes "links_ok n f live" "fb_connection_gen f' = fb_connection_gen f" "lm_wf (fb_connections f')"
    "\<And>peer. map fst (entry_of f' peer) = map fst (entry_of f peer)"
    "\<And>peer. map_of (fb_connections f') peer = Some [] \<longleftrightarrow> map_of (fb_connections f) peer = Some []"
  shows "links_ok n f' live"
proof -
  have "fst ` set (entry_of f' peer) = fst ` set (entry_of f peer)" for peer
    using assms(4) [of peer] by (metis list.set_map)
  then show ?thesis
    using assms unfolding links_ok_def by simp
qed

lemma fabric_send_msg_ok:
  assumes "links_ok n f live" "fabric_send_msg bc rnd node msg f = Some (res, f')"
  shows "links_ok n f' live"
proof (cases "res = Ok ()")
  case True
  let ?o = "entry_of f node" and ?i = "rnd mod length (entry_of f node)"
  from True assms(2) have o': "map_of (fb_connections f) node = Some ?o" "?o \<noteq> []"
    and f': "f' = f\<lparr>fb_connections := AList.update node (?o[?i := (fst (?o ! ?i), (snd (?o ! ?i))\<lparr>fc_queue := fc_queue (snd (?o ! ?i)) @ [frame_serialize bc msg]\<rparr>)]) (fb_connections f)\<rparr>"
    by (auto simp: fabric_send_msg_def entry_of_def Let_def case_prod_beta split: option.splits if_splits)
  have i: "?i < length ?o"
    using o'(2) by simp
  have "(map fst ?o)[?i := fst (?o ! ?i)] = map fst ?o"
    using i by (metis list_update_id nth_map)
  then have "map fst (?o[?i := (fst (?o ! ?i), c)]) = map fst ?o" for c
    by (simp add: map_update)
  then have "map fst (entry_of f' peer) = map fst (entry_of f peer)" for peer
    by (simp add: f' entry_of_def [of "_\<lparr>fb_connections := _\<rparr>"] update_conv') (simp add: entry_of_def)
  moreover have "map_of (fb_connections f') peer = Some [] \<longleftrightarrow> map_of (fb_connections f) peer = Some []" for peer
    using o' by (simp add: f' update_conv')
  ultimately show ?thesis
    using assms(1) by (intro links_ok_cong [OF assms(1)]) (simp_all add: f' links_ok_def lm_wf_update)
next
  case False
  then show ?thesis
    using assms by (auto simp: fabric_send_msg_def Let_def case_prod_beta split: option.splits if_splits)
qed

lemma set_nodes_connections: "set_nodes it f = (f', es) \<Longrightarrow> fb_connections f' = fb_connections f \<and> fb_connection_gen f' = fb_connection_gen f"
  by (auto simp: set_nodes_def split: prod.splits)

lemma links_invariant: "links n f live \<Longrightarrow> n \<le> 2 ^ 64 \<Longrightarrow> links_ok n f live"
proof (induction rule: links.induct)
  case (links_start node a)
  then show ?case
    by (simp add: links_ok_def fabric_init_def entry_of_def)
next
  case (links_open n f live peer chan i f' es)
  then show ?case
    using register_connection_ok by simp
next
  case (links_close n f live i peer f')
  then show ?case
    using remove_connection_ok by fastforce
next
  case (links_send n f live bc rnd node msg res f')
  then show ?case
    using fabric_send_msg_ok by blast
next
  case (links_nodes n f live it f' es)
  note same = set_nodes_connections [OF links_nodes.hyps(2)]
  then have "entry_of f' = entry_of f"
    by (simp add: fun_eq_iff entry_of_def)
  then show ?case
    using links_nodes.IH links_nodes.prems same by (simp add: links_ok_def)
qed

section \<open>What the handlers see of the fabric\<close>

text \<open>
  The handlers send through \<^const>\<open>send_msg\<close>, whose routes are a parameter. The fabric implements it:
  with the routes of a fabric, the results agree, panics included.
\<close>

definition fabric_route :: "bincode \<Rightarrow> nat \<Rightarrow> fabric \<Rightarrow> node_id \<Rightarrow> fabric_msg \<Rightarrow> bool" where
  "fabric_route bc rnd f node msg \<longleftrightarrow>
     (case map_of (fb_connections f) node of
        None \<Rightarrow> False
      | Some o' \<Rightarrow> o' \<noteq> [] \<and> fc_open (snd (o' ! (rnd mod length o'))))"

lemma send_msg_fabric:
  assumes "this_node e = fb_node f" "sy_route sy node msg = fabric_route bc rnd f node msg"
  shows "map_option fst (send_msg sy node msg e) = map_option fst (fabric_send_msg bc rnd node msg f)"
  using assms
  by (auto simp: send_msg_def fabric_send_msg_def fabric_route_def Let_def case_prod_beta split: option.split)

section \<open>Properties\<close>

text \<open>
  C10: However the network cuts the bytes between two nodes into pieces, the receiver reads exactly the
  messages sent, in order, if \<^verbatim>\<open>bincode\<close> reads back each of them and its size fits the 32 bits of the
  frame.
\<close>

theorem frames_arrive:
  assumes "concat chunks = concat (map (frame_serialize bc) msgs)"
    "\<And>m rest. m \<in> set msgs \<Longrightarrow> bc_deserialize_from bc (bc_serialize bc m @ rest) = Some m"
    "\<And>m. m \<in> set msgs \<Longrightarrow> length (bc_serialize bc m) < 2 ^ 32"
  shows "framed_feed (frame_decode bc) [] chunks = Some (msgs, Ok [])"
  by (rule fabric.feed_all [OF assms(1)]) (use assms in \<open>simp add: list_all_iff frame_ok_def\<close>)

theorem frames_arrive_witness:
  "framed_feed (frame_decode ref_bincode) []
     [[CHR 0x05], [CHR 0x00, CHR 0x00, CHR 0x00, CHR 0x04] @ ''ri'', ''ng'' @ [CHR 0x01, CHR 0x00, CHR 0x00, CHR 0x00], [CHR 0xFF]] =
   Some ([DHTSync ''ring'', Unknown], Ok [])"
  by (rule frames_arrive)
     (auto simp: ref_bincode_def frame_serialize_def put_u32_le_def le_bytes_4 Let_def char_of_def bit_iff_odd)

text \<open>
  C11: Connections are accounted for exactly. For every interleaving of connections that open and
  close, messages sent and changes of the members, the writer of a connection can remove it (the
  code panics if it is not there), and the nodes the fabric reports as connected are those with an
  open connection. Connection numbers are not reused before 2^64 connections.
\<close>

theorem connections_exact:
  assumes "links n f live" "n \<le> 2 ^ 64"
  shows "set (fabric_connections f) = snd ` live \<and> ((i, peer) \<in> live \<longrightarrow> remove_connection peer i f \<noteq> None)"
proof -
  have ok: "links_ok n f live"
    using assms by (rule links_invariant)
  have "peer \<in> set (fabric_connections f) \<longleftrightarrow> entry_of f peer \<noteq> []" for peer
  proof -
    have wf: "lm_wf (fb_connections f)"
      using ok by (simp add: links_ok_def)
    have "peer \<in> set (fabric_connections f) \<longleftrightarrow> (\<exists>c. map_of (fb_connections f) peer = Some c \<and> c \<noteq> [])"
      by (auto simp: fabric_connections_def lm_wf_map_of_iff [OF wf] image_iff)
    then show ?thesis
      by (auto simp: entry_of_def split: option.split)
  qed
  moreover have "entry_of f peer \<noteq> [] \<longleftrightarrow> peer \<in> snd ` live" for peer
  proof -
    have "fst ` set (entry_of f peer) = {i. (i, peer) \<in> live}"
      using ok by (simp add: links_ok_def)
    then show ?thesis
      by (cases "entry_of f peer") (force simp: image_iff)+
  qed
  ultimately show ?thesis
    using remove_connection_ok [OF ok, of i peer] by auto
qed

theorem connections_exact_witness:
  "let ch = \<lparr>fc_queue = [], fc_open = True\<rparr>;
       (i, f, _) = register_connection 2 ch (fabric_init 1 (''10.0.0.1'', 16379));
       (j, g, _) = register_connection 2 ch f
   in set (fabric_connections g) = snd ` {(j, 2), (i, 2)} \<and>
      ((i, 2) \<in> {(j, 2), (i, 2)} \<longrightarrow> remove_connection 2 i g \<noteq> None)"
proof -
  let ?ch = "\<lparr>fc_queue = [], fc_open = True\<rparr>"
  obtain i f es j g es' where run: "register_connection 2 ?ch (fabric_init 1 (''10.0.0.1'', 16379)) = (i, f, es)"
    "register_connection 2 ?ch f = (j, g, es')"
    by (metis surj_pair)
  have "links (Suc (Suc 0)) g {(j, 2), (i, 2)}"
    by (rule links_open [OF links_open [OF links_start run(1)] run(2)])
  from connections_exact [OF this] show ?thesis
    unfolding Let_def run case_prod_conv by simp
qed

text \<open>
  C28: After \<^verbatim>\<open>set_nodes\<close> the fabric knows exactly the members of the cluster other than the node itself,
  each with its address, and it starts a connection exactly to the members that are new or have a
  new address.
\<close>

theorem set_nodes_exact:
  assumes "set_nodes it f = (f', es)" "distinct (map fst it)" "lm_wf (fb_nodes_addr f)"
  shows "map_of (fb_nodes_addr f') n = (if n = fb_node f then None else map_of it n) \<and>
    es = map (\<lambda>(n, a). Connect (Some n) a)
      (filter (\<lambda>(n, a). n \<noteq> fb_node f \<and> map_of (fb_nodes_addr f) n \<noteq> Some a) it)"
proof -
  obtain nodes x_nodes where loop: "set_nodes_loop (fb_node f) it (fb_nodes_addr f) (fb_nodes_addr f) = (nodes, x_nodes, es)"
    and f': "fb_nodes_addr f' = foldl (\<lambda>m (node, _). AList.delete node m) nodes x_nodes"
    using assms(1) by (auto simp: set_nodes_def split: prod.splits)
  note props = set_nodes_loop_props [OF loop assms(2,3,3)]
  have "map_of it n = None" if "n \<notin> fst ` set it"
    using that by (simp add: map_of_eq_None_iff)
  moreover have "map_of (fb_nodes_addr f) n = None" if "n \<notin> fst ` set (fb_nodes_addr f)"
    using that by (simp add: map_of_eq_None_iff)
  ultimately show ?thesis
    using props by (auto simp: f' foldl_delete)
qed

theorem set_nodes_exact_witness:
  "let f = (fabric_init 1 (''10.0.0.1'', 16379))\<lparr>fb_nodes_addr := [(2, (''10.0.0.2'', 16379)), (3, (''10.0.0.3'', 16379))]\<rparr>;
       it = [(1, (''10.0.0.1'', 16379)), (2, (''10.0.0.2'', 16379)), (4, (''10.0.0.4'', 16379))];
       (f', es) = set_nodes it f
   in map_of (fb_nodes_addr f') 3 = (if 3 = fb_node f then None else map_of it 3) \<and>
      es = map (\<lambda>(n, a). Connect (Some n) a)
        (filter (\<lambda>(n, a). n \<noteq> fb_node f \<and> map_of (fb_nodes_addr f) n \<noteq> Some a) it)"
proof -
  let ?f = "(fabric_init 1 (''10.0.0.1'', 16379))\<lparr>fb_nodes_addr := [(2, (''10.0.0.2'', 16379)), (3, (''10.0.0.3'', 16379))]\<rparr>"
  let ?it = "[(1, (''10.0.0.1'', 16379)), (2, (''10.0.0.2'', 16379)), (4, (''10.0.0.4'', 16379))]"
  obtain f' es where run: "set_nodes ?it ?f = (f', es)"
    by (metis surj_pair)
  show ?thesis
    unfolding Let_def run case_prod_conv by (rule set_nodes_exact [OF run]) simp_all
qed

end
