(* ===== verification/Client_Hazards.thy ===== *)
theory Client_Hazards
  imports Answers
begin

text \<open>
  Commands of clients for which the code panics or leaves something behind: the deletion of a key
  that does not exist, writes that a node redirects, and batches in debug builds.
\<close>

section \<open>Deleting a missing key\<close>

lemma run_mutators_del_missing:
  assumes "storage_get sy st e (cwr_key w) = Ok (Void vv)"
    "cwr_mutator_fn w = Some (\<lambda>i v c. case cube_del c i v cx of (deleted, c) \<Rightarrow> Ok (c, Some (int_reply deleted)))"
  shows "\<exists>w' st'. run_mutators sy e [w] st = Some (None, [w'], st') \<and> cwr_cube w' = Void vv"
  using assms by (auto simp: Let_def split: prod.splits)

lemma storage_set_local_void: "storage_set_local sy st [(version, key, Void vv)] e = None"
  by (simp add: storage_set_local_def batch_put_def)

lemma do_flush_del_missing:
  assumes "vd_status v = Ready" "cx_writes c = [w]" "storage_get sy (vd_state v) e (cwr_key w) = Ok (Void vv)"
    "cwr_mutator_fn w = Some (\<lambda>i v c. case cube_del c i v cx of (deleted, c) \<Rightarrow> Ok (c, Some (int_reply deleted)))"
  shows "do_flush sy consistency c v e = None"
proof -
  obtain w' st' where m: "run_mutators sy e [w] (vd_state v) = Some (None, [w'], st')" "cwr_cube w' = Void vv"
    using run_mutators_del_missing [OF assms(3,4)] by blast
  show ?thesis
    using assms(1,2) m
    by (cases "nodes_for_vnode (ev_dht (snd (gen_cookie sy e))) (vd_num (v\<lparr>vd_state := st'\<rparr>)) True True")
       (simp_all add: do_flush_def storage_set_local_void gen_cookie_def del: run_mutators.simps)
qed

section \<open>Redirected writes\<close>

lemma respond_cant_coordinate_reply:
  assumes "respond_cant_coordinate sy status c v e = Some e'"
  shows "\<exists>resp. e' = respond_resp c resp e"
proof -
  from assms obtain w ws nodes where "cx_writes c = w # ws" "nodes_for_vnode_ex (ev_dht e) (vd_num v) True False = Some nodes"
    by (cases "cx_writes c") (auto simp: respond_cant_coordinate_def Let_def bind_eq_Some_conv)
  then show ?thesis
    using assms
    by (cases "other_node (this_node e) (shuffle sy nodes)"; cases status)
       (auto simp: respond_cant_coordinate_def Let_def respond_moved_def respond_ask_def respond_error_def)
qed

lemma db_set_after_redirect:
  assumes "cx_writes c = [w]" "\<not> cx_is_multi c" "\<not> cx_is_exec c"
  shows "sy_debug_assertions sy \<Longrightarrow> db_set sy key m cl rr rf c d = None"
    "\<not> sy_debug_assertions sy \<Longrightarrow> \<exists>w'. cwr_key w' = key \<and> db_set sy key m cl rr rf c d =
       Option.bind (key_vnode (sy_crc16 sy) (ev_dht (db_env d)) key) (\<lambda>k. on_key_vnode k (do_flush sy cl) (c\<lparr>cx_writes := [w, w']\<rparr>) d)"
  using assms
  by (auto simp: db_set_def debug_assert_def Let_def bind_option_cong_simp Option.bind_def split: option.split
      intro!: exI [of _ "\<lparr>cwr_version = 0, cwr_mutator_fn = Some m, cwr_key = key, cwr_cube = cube_default,
                cwr_reply_result = rr, cwr_response = None, cwr_response_fn = rf\<rparr>"])

section \<open>Properties\<close>

text \<open>
  C37: Deleting a key that does not exist panics the worker. The value read is \<open>Void\<close>, the deletion
  leaves it as it is, and storing it reaches \<^verbatim>\<open>unreachable!\<close>.
\<close>

theorem del_missing_panics:
  assumes "key_vnode (sy_crc16 sy) (ev_dht (db_env d)) key = Some k" "map_of (db_vnodes d) k = Some v" "vd_status v = Ready"
    "st_get (sy_rocks sy) (vs_num (vd_state v)) (ev_db (db_env d)) key = Ok None" "length key \<le> MAX_KEY_LEN"
  shows "handler_cmd sy ((ctx_new t)\<lparr>cx_commands := [RArray [RData ''DEL'', RData key]]\<rparr>) d = None"
proof -
  obtain vv where get: "storage_get sy (vd_state v) (db_env d) key = Ok (Void vv)"
    using assms(4) by (simp add: storage_get_def cube_new_def)
  let ?del = "\<lambda>i v c. case cube_del c i v vv_new of (deleted, c) \<Rightarrow> Ok (c, Some (int_reply deleted))"
  let ?w = "\<lparr>cwr_version = 0, cwr_mutator_fn = Some ?del, cwr_key = key, cwr_cube = cube_default,
      cwr_reply_result = False, cwr_response = None, cwr_response_fn = None\<rparr>"
  have "do_flush sy cl ((ctx_new t)\<lparr>cx_writes := [?w]\<rparr>) v (db_env d) = None" for cl
    by (rule do_flush_del_missing [OF assms(3), where w = ?w and vv = vv and cx = vv_new]) (use get in \<open>simp_all add: ctx_new_def\<close>)
  then have "db_set sy key ?del cl False None (ctx_new t) d = None" for cl
    using assms(1,2) by (simp add: db_set_def debug_assert_def ctx_new_def on_key_vnode_def with_vnode_def)
  then show ?thesis
    using assms(5)
    by (simp add: handler_cmd_def handle_cmd_def command_args_def handle_single_cmd_def cmd_del_def question_def
        check_arg_count_def check_key_len_def parse_vv_def parse_consistency_def ctx_new_def)
qed

theorem del_missing_panics_witness:
  "handler_cmd ref_sys ((ctx_new 7)\<lparr>cx_commands := [RArray [RData ''DEL'', RData ''k'']]\<rparr>) ref_node = None"
  by (rule del_missing_panics [where k = 0 and v = ref_vnode])
     (simp_all add: ref_node_def ref_env_def key_vnode_def dht_new_def partitions_def ref_ring_def hash_slot_def
       hash_tag_def HASH_SLOTS_def ref_state_def mem_get MAX_KEY_LEN_def)



text \<open>
  In a debug build a batch that writes panics: \<^verbatim>\<open>EXEC\<close> marks the context as executing before it runs
  the queued commands, and every write asserts that the context is not executing.
\<close>

theorem exec_panics_in_debug:
  assumes "sy_debug_assertions sy" "cx_is_multi c" "\<not> cx_is_exec c"
    "cx_commands c = RArray [RData ''SET'', RData key, RData val] # cmds"
    "length key \<le> MAX_KEY_LEN" "length val \<le> MAX_VALUE_LEN"
  shows "handler_cmd sy (c\<lparr>cx_commands := cx_commands c @ [RArray [RData ''EXEC'']]\<rparr>) d = None"
proof -
  have "handle_exec_cmd sy (RArray [RData ''SET'', RData key, RData val]) (c\<lparr>cx_is_exec := True, cx_commands := []\<rparr>) d = None"
    using assms
    by (simp add: handle_exec_cmd_def command_args_def cmd_set_def question_def check_arg_count_def check_key_len_def
        check_value_len_def parse_vv_def parse_consistency_def db_set_def debug_assert_def)
  then show ?thesis
    using assms
    by (simp add: handler_cmd_def handle_cmd_def command_args_def cmd_exec_def question_def check_arg_count_def
        parse_consistency_def)
qed

theorem exec_panics_in_debug_witness:
  "handler_cmd (ref_sys\<lparr>sy_debug_assertions := True\<rparr>)
     ((ctx_new 7)\<lparr>cx_is_multi := True, cx_commands := [RArray [RData ''SET'', RData ''k'', RData ''v''], RArray [RData ''EXEC'']]\<rparr>)
     ref_node = None"
proof -
  let ?c = "(ctx_new 7)\<lparr>cx_is_multi := True, cx_commands := [RArray [RData ''SET'', RData ''k'', RData ''v'']]\<rparr>"
  have "handler_cmd (ref_sys\<lparr>sy_debug_assertions := True\<rparr>) (?c\<lparr>cx_commands := cx_commands ?c @ [RArray [RData ''EXEC'']]\<rparr>) ref_node = None"
    by (rule exec_panics_in_debug [where key = "''k''" and val = "''v''" and cmds = "[]"])
       (simp_all add: ctx_new_def MAX_KEY_LEN_def MAX_VALUE_LEN_def)
  then show ?thesis
    by simp
qed

end
