(* ===== verification/Sync_Complete.thy ===== *)
theory Sync_Complete
  imports VNode_Sync
begin

text \<open>
  What a synchronisation delivers. A sender that could send all it wanted to send reports success
  only when every key of its iterator was sent and acknowledged; a send that fails while an
  acknowledgement is handled loses its key. The loop that sends expired messages again ends.
\<close>

section \<open>What an iterator still has to yield\<close>

text \<open>The log does not change under the dots of a delta: what it yields for a dot is \<open>L\<close> of it.\<close>

definition log_agrees :: "'db sys \<Rightarrow> vnode_state \<Rightarrow> 'db env \<Rightarrow> (dot \<Rightarrow> bytes option) \<Rightarrow> bool" where
  "log_agrees sy st e L \<longleftrightarrow>
     (\<forall>dot x. st_log_get (sy_rocks sy) (vs_num st) (ev_db e) dot = Ok x \<longrightarrow> x = L dot)"

fun covers :: "(dot \<Rightarrow> bytes option) \<Rightarrow> sync_iterator \<Rightarrow> bytes \<Rightarrow> bool" where
  "covers L (Storage_Iter es) key \<longleftrightarrow> key \<in> fst ` set es"
| "covers L (Keys_Iter it) key \<longleftrightarrow>
     key \<in> set (ski_keys it) \<or> (\<exists>dot\<in>set (ski_dots_delta it). L dot = Some key)"

lemma fetch_keys_covers:
  assumes "fetch_keys sy num db limit dots keys = (Ok keys', rest)" "0 < limit"
    "\<And>dot x. st_log_get (sy_rocks sy) num db dot = Ok x \<Longrightarrow> x = L dot"
  shows "(keys' = [] \<longrightarrow> rest = []) \<and>
    (\<forall>key. key \<in> set keys \<or> (\<exists>dot\<in>set dots. L dot = Some key) \<longrightarrow>
       key \<in> set keys' \<or> (\<exists>dot\<in>set rest. L dot = Some key))"
  using assms(1)
proof (induction dots arbitrary: keys)
  case (Cons dot dots)
  show ?case
  proof (cases "st_log_get (sy_rocks sy) num db dot")
    case (Ok x)
    then have L: "L dot = x"
      using assms(3) by simp
    show ?thesis
    proof (cases x)
      case None
      then show ?thesis
        using Cons Ok L by auto
    next
      case (Some key)
      let ?keys = "if key \<in> set keys then keys else keys @ [key]"
      show ?thesis
      proof (cases "limit \<le> length ?keys")
        case True
        then have "keys' = ?keys" "rest = dots"
          using Cons.prems Ok Some by (auto simp: Let_def)
        moreover have "?keys \<noteq> []"
          using True assms(2) by (metis le_zero_eq list.size(3) not_gr_zero)
        ultimately show ?thesis
          using L Some by auto
      next
        case False
        then have "fetch_keys sy num db limit dots ?keys = (Ok keys', rest)"
          using Cons.prems Ok Some by (simp add: Let_def)
        from Cons.IH [OF this] show ?thesis
          using L Some by auto
      qed
    qed
  qed (use Cons.prems in auto)
qed simp

lemma sync_keys_next_covers:
  assumes "sync_keys_next sy st e it = (Ok r, it')" "log_agrees sy st e L" "covers L (Keys_Iter it) key"
  shows "r = Some key \<or> r \<noteq> None \<and> covers L (Keys_Iter it') key"
proof (cases "ski_keys it")
  case (Cons k ks)
  then show ?thesis
    using assms(1,3) by (auto simp: sync_keys_next_def)
next
  case Nil
  let ?limit = "max (sy_capacity sy (ski_dots_delta it) * 9 div 10) 1000"
  obtain res dots where f: "fetch_keys sy (vs_num st) (ev_db e) ?limit (ski_dots_delta it) [] = (res, dots)"
    by (metis surj_pair)
  with assms(1) Nil obtain keys where keys: "res = Ok keys"
    by (cases res) (auto simp: sync_keys_next_def Let_def)
  have "(keys = [] \<longrightarrow> dots = []) \<and> (key \<in> set keys \<or> (\<exists>dot\<in>set dots. L dot = Some key))"
    using fetch_keys_covers [OF f [unfolded keys], of L] assms(2,3) Nil by (auto simp: log_agrees_def less_max_iff_disj)
  then show ?thesis
    using assms(1) Nil f keys by (cases keys) (auto simp: sync_keys_next_def Let_def)
qed

lemma iterator_next_covers:
  assumes "iterator_next sy st e it = (Ok r, it')" "log_agrees sy st e L" "covers L it key"
  shows "\<exists>k v. r = Some (k, v) \<and> (k = key \<or> covers L it' key)"
proof (cases it)
  case (Storage_Iter es)
  then obtain k v es' where "es = (k, v) # es'"
    using assms(3) by (cases es) auto
  then show ?thesis
    using assms Storage_Iter by (force simp: iterator_next_def split: option.splits)
next
  case (Keys_Iter keys)
  obtain res keys' where n: "sync_keys_next sy st e keys = (res, keys')"
    by (metis surj_pair)
  with assms(1) Keys_Iter obtain k where res: "res = Ok k"
    by (cases res) (auto simp: iterator_next_def)
  have "k = Some key \<or> k \<noteq> None \<and> covers L (Keys_Iter keys') key"
    using sync_keys_next_covers [of sy st e keys k keys' L key] n res assms(2,3) Keys_Iter by simp
  then show ?thesis
    using assms(1) Keys_Iter n res by (auto simp: iterator_next_def split: option.splits res.splits)
qed

lemma iterator_next_done:
  assumes "iterator_next sy st e it = (Ok None, it')" "log_agrees sy st e L"
  shows "\<not> covers L it' key"
proof (cases it)
  case (Storage_Iter es)
  then show ?thesis
    using assms(1) by (cases es) (auto simp: iterator_next_def split: option.splits)
next
  case (Keys_Iter keys)
  let ?limit = "max (sy_capacity sy (ski_dots_delta keys) * 9 div 10) 1000"
  obtain res dots where f: "fetch_keys sy (vs_num st) (ev_db e) ?limit (ski_dots_delta keys) [] = (res, dots)"
    by (metis surj_pair)
  have "ski_keys keys = []" "res = Ok []" "it' = Keys_Iter (keys\<lparr>ski_dots_delta := dots\<rparr>)"
    using assms(1) Keys_Iter f
    by (auto simp: iterator_next_def sync_keys_next_def Let_def split: list.splits res.splits)
  then show ?thesis
    using fetch_keys_covers [of sy "vs_num st" "ev_db e" ?limit "ski_dots_delta keys" "[]" "[]" dots L] f assms(2)
    by (auto simp: log_agrees_def less_max_iff_disj)
qed

section \<open>Messages sent and acknowledged\<close>

definition sync_msgs :: "effect list \<Rightarrow> msg_sync_send set" where
  "sync_msgs es = {m. \<exists>peer. Sent peer (SyncSend m) \<in> set es}"

text \<open>A step of a sender adds messages to the effects and leaves the store alone.\<close>

definition carries :: "'db env \<Rightarrow> effect list \<Rightarrow> 'db env \<Rightarrow> bool" where
  "carries e new e' \<longleftrightarrow> ev_effects e' = ev_effects e @ new \<and> ev_db e' = ev_db e"

text \<open>Every message sent is acknowledged or in flight.\<close>

definition tracked :: "sync_sender \<Rightarrow> msg_sync_send set \<Rightarrow> msg_sync_send set \<Rightarrow> bool" where
  "tracked s sent acked \<longleftrightarrow>
     ifm_wf (ss_inflight s) \<and> (\<forall>(q, m)\<in>set (ifm_map (ss_inflight s)). msd_seq m = q) \<and>
     (\<forall>m\<in>sent. m \<in> acked \<or> msd_seq m \<in> fst ` set (ifm_map (ss_inflight s)))"

lemma sync_msgs_simps [simp]:
  "sync_msgs [] = {}" "sync_msgs (es @ es') = sync_msgs es \<union> sync_msgs es'" "sync_msgs [Sent peer (SyncSend m)] = {m}"
  by (auto simp: sync_msgs_def)

lemma carries_refl: "carries e [] e"
  by (simp add: carries_def)

lemma carries_trans: "carries a new b \<Longrightarrow> carries b new' c \<Longrightarrow> carries a (new @ new') c"
  by (simp add: carries_def)

lemma log_agrees_carries: "carries e new e' \<Longrightarrow> log_agrees sy st e' L = log_agrees sy st e L"
  by (simp add: carries_def log_agrees_def)

lemma send_msg_carries:
  assumes "send_msg sy peer msg e = Some (res, e')" "from_result res = Continue"
  shows "carries e [Sent peer msg] e'"
  using assms by (auto simp: send_msg_def carries_def from_result_def split: if_splits)

text \<open>Messages in flight are sent again; only their timeouts change.\<close>

definition resent :: "sync_sender \<Rightarrow> 'db env \<Rightarrow> sync_sender \<Rightarrow> 'db env \<Rightarrow> bool" where
  "resent s e s' e' \<longleftrightarrow>
     (\<exists>new m. carries e new e' \<and> s' = s\<lparr>ss_inflight := m\<rparr> \<and> ifm_wf m \<and> ifm_map m = ifm_map (ss_inflight s) \<and>
        (\<forall>x\<in>set new. \<exists>q msg. x = Sent (ss_peer s) (SyncSend msg) \<and> (q, msg) \<in> set (ifm_map (ss_inflight s))))"

lemma resent_touch: "ifm_wf m \<Longrightarrow> ifm_map m = ifm_map (ss_inflight s) \<Longrightarrow> resent s e (s\<lparr>ss_inflight := m\<rparr>) e"
  unfolding resent_def using carries_refl by (intro exI [of _ "[]"] exI [of _ m]) simp

lemma resent_step:
  assumes "send_msg sy (ss_peer s) (SyncSend msg) e = Some (res, e1)" "from_result res = Continue"
    "(q, msg) \<in> set (ifm_map (ss_inflight s))" "ifm_map m = ifm_map (ss_inflight s)" "resent (s\<lparr>ss_inflight := m\<rparr>) e1 s' e'"
  shows "resent s e s' e'"
proof -
  from assms(5) obtain new m' where new: "carries e1 new e'" "s' = s\<lparr>ss_inflight := m'\<rparr>" "ifm_wf m'"
    "ifm_map m' = ifm_map (ss_inflight s)"
    "\<forall>x\<in>set new. \<exists>q msg. x = Sent (ss_peer s) (SyncSend msg) \<and> (q, msg) \<in> set (ifm_map (ss_inflight s))"
    by (auto simp: resent_def assms(4))
  have "carries e ([Sent (ss_peer s) (SyncSend msg)] @ new) e'"
    using send_msg_carries [OF assms(1,2)] new(1) by (rule carries_trans)
  then show ?thesis
    unfolding resent_def using new assms(3) by (intro exI [of _ "Sent (ss_peer s) (SyncSend msg) # new"] exI [of _ m']) auto
qed

lemma resend_expired_resent:
  assumes "resend_expired sy s e = Some (Continue, s', e')" "ifm_wf (ss_inflight s)"
  shows "resent s e s' e'"
proof -
  have "ifm_wf (ss_inflight s) \<longrightarrow> fst y = Continue \<longrightarrow> resent s e (fst (snd y)) (snd (snd y))"
    if "resend_expired sy s e = Some y" for y
    using that
  proof (induction rule: resend_expired.raw_induct [rotated, consumes 1, case_names step])
    case (step f sy s e y)
    obtain r m where touch: "ifm_touch_expired (ss_inflight s) (sy_now sy) (msg_timeout sy) = (r, m)"
      by (metis surj_pair)
    show ?case
    proof (intro impI)
      assume wf: "ifm_wf (ss_inflight s)" and y: "fst y = Continue"
      note props = ifm_touch_expired_props [OF wf, of "sy_now sy" "msg_timeout sy", unfolded touch, simplified]
      show "resent s e (fst (snd y)) (snd (snd y))"
      proof (cases r)
        case None
        then show ?thesis
          using step(2) touch props resent_touch [of m s e] by auto
      next
        case (Some p)
        then obtain q msg where p: "p = (q, msg)" and q: "(q, msg) \<in> set (ifm_map (ss_inflight s))"
          using props map_of_SomeD by (cases p) fastforce
        from step(2) touch Some p y obtain res e1 where send: "send_msg sy (ss_peer s) (SyncSend msg) e = Some (res, e1)"
          and ok: "from_result res = Continue" and run: "f sy (s\<lparr>ss_inflight := m\<rparr>) e1 = Some y"
          by (auto simp: bind_eq_Some_conv split: if_splits)
        have "resent (s\<lparr>ss_inflight := m\<rparr>) e1 (fst (snd y)) (snd (snd y))"
          using step(1) [OF run] props y by simp
        then show ?thesis
          using resent_step [OF send ok q] props by blast
      qed
    qed
  qed
  from this [OF assms(1)] show ?thesis
    using assms(2) by simp
qed

text \<open>
  Progress of a sender: it sends messages with keys of its iterator, and what it has sent stays
  tracked.
\<close>

definition progress :: "(dot \<Rightarrow> bytes option) \<Rightarrow> sync_sender \<Rightarrow> 'db env \<Rightarrow> effect list \<Rightarrow> sync_sender \<Rightarrow> 'db env \<Rightarrow> bool" where
  "progress L s e new s' e' \<longleftrightarrow>
     carries e new e' \<and> (\<forall>x\<in>set new. \<exists>peer m. x = Sent peer (SyncSend m)) \<and>
     (\<forall>sent acked. tracked s sent acked \<longrightarrow> tracked s' (sent \<union> sync_msgs new) acked) \<and>
     (\<forall>key. covers L (ss_iterator s) key \<longrightarrow> covers L (ss_iterator s') key \<or> key \<in> msd_key ` sync_msgs new)"

lemma progress_refl: "progress L s e [] s e"
  by (simp add: progress_def carries_refl)

lemma progress_trans:
  assumes "progress L a e new b f" "progress L b f new' c g"
  shows "progress L a e (new @ new') c g"
proof -
  have "tracked c (sent \<union> sync_msgs (new @ new')) acked" if "tracked a sent acked" for sent acked
  proof -
    have "tracked c (sent \<union> sync_msgs new \<union> sync_msgs new') acked"
      using that assms unfolding progress_def by blast
    then show ?thesis
      by (simp add: Un_assoc)
  qed
  moreover have "covers L (ss_iterator c) key \<or> key \<in> msd_key ` sync_msgs (new @ new')" if "covers L (ss_iterator a) key" for key
    using that assms unfolding progress_def by (simp add: image_Un) blast
  moreover have "carries e (new @ new') g" "\<forall>x\<in>set (new @ new'). \<exists>peer m. x = Sent peer (SyncSend m)"
    using assms carries_trans by (auto simp: progress_def)
  ultimately show ?thesis
    by (simp only: progress_def) blast
qed

lemma resent_progress:
  assumes "resent s e s' e'"
  shows "\<exists>new. progress L s e new s' e'"
proof -
  from assms obtain new m where new: "carries e new e'" "s' = s\<lparr>ss_inflight := m\<rparr>" "ifm_wf m"
    "ifm_map m = ifm_map (ss_inflight s)"
    "\<forall>x\<in>set new. \<exists>q msg. x = Sent (ss_peer s) (SyncSend msg) \<and> (q, msg) \<in> set (ifm_map (ss_inflight s))"
    by (auto simp: resent_def)
  have old: "\<exists>q. (q, msg) \<in> set (ifm_map (ss_inflight s))" if "msg \<in> sync_msgs new" for msg
  proof -
    from that obtain peer where "Sent peer (SyncSend msg) \<in> set new"
      by (auto simp: sync_msgs_def)
    then show ?thesis
      using new(5) by (metis effect.inject(1) fabric_msg.inject(6))
  qed
  have "tracked s' (sent \<union> sync_msgs new) acked" if tr: "tracked s sent acked" for sent acked
  proof -
    have "msd_seq msg \<in> fst ` set (ifm_map (ss_inflight s))" if msg: "msg \<in> sync_msgs new" for msg
    proof -
      obtain q where q: "(q, msg) \<in> set (ifm_map (ss_inflight s))"
        using old [OF msg] by blast
      then have "msd_seq msg = q"
        using tr by (auto simp: tracked_def)
      then show ?thesis
        using q by force
    qed
    then show ?thesis
      using tr new(2-4) by (auto simp: tracked_def)
  qed
  moreover have "\<forall>x\<in>set new. \<exists>peer m. x = Sent peer (SyncSend m)"
    using new(5) by metis
  ultimately show ?thesis
    using new(1,2) by (intro exI [of _ new]) (simp add: progress_def)
qed

lemma item_progress:
  assumes "iterator_next sy st e (ss_iterator s) = (Ok (Some (k, v)), it)" "log_agrees sy st e L"
    "send_msg sy (ss_peer s) (SyncSend msg) e = Some (res, e1)" "from_result res = Continue"
    "ifm_insert (ss_inflight s) (msd_seq msg) msg t = Some m" "msd_key msg = k"
  shows "progress L s e [Sent (ss_peer s) (SyncSend msg)] (s\<lparr>ss_iterator := it, ss_inflight := m, ss_count := c, ss_last_send := now\<rparr>) e1"
proof -
  have "ifm_map m = AList.update (msd_seq msg) msg (ifm_map (ss_inflight s))"
    using assms(5) by (auto simp: ifm_insert_def Let_def split: if_splits)
  then have map: "fst ` set (ifm_map m) = insert (msd_seq msg) (fst ` set (ifm_map (ss_inflight s)))"
    "ifm_wf (ss_inflight s) \<Longrightarrow> set (ifm_map m) \<subseteq> insert (msd_seq msg, msg) (set (ifm_map (ss_inflight s)))"
    by (auto simp: fst_set_update ifm_wf_def set_update_wf)
  have "tracked (s\<lparr>ss_iterator := it, ss_inflight := m, ss_count := c, ss_last_send := now\<rparr>) (sent \<union> {msg}) acked"
    if "tracked s sent acked" for sent acked
    using that map ifm_wf_insert [OF _ assms(5)] by (auto simp: tracked_def)
  moreover have "covers L it key \<or> key = k" if "covers L (ss_iterator s) key" for key
    using iterator_next_covers [OF assms(1,2) that] by auto
  ultimately show ?thesis
    using send_msg_carries [OF assms(3,4)] assms(6) by (auto simp: progress_def)
qed

lemma send_fresh_cases:
  assumes "send_fresh sy st s e = Some (Ok False, s', e')"
  obtains (full) "cf_sync_msg_inflight (sy_config sy) \<le> length (ifm_map (ss_inflight s))" "s' = s" "e' = e"
  | (none) it where "iterator_next sy st e (ss_iterator s) = (Ok None, it)" "s' = s\<lparr>ss_iterator := it\<rparr>" "e' = e"
  | (item) k v it msg res e1 m where "length (ifm_map (ss_inflight s)) < cf_sync_msg_inflight (sy_config sy)"
      "iterator_next sy st e (ss_iterator s) = (Ok (Some (k, v)), it)"
      "send_msg sy (ss_peer s) (SyncSend msg) e = Some (res, e1)" "from_result res = Continue"
      "ifm_insert (ss_inflight s) (msd_seq msg) msg (msg_timeout sy) = Some m" "msd_key msg = k"
      "send_fresh sy st (s\<lparr>ss_iterator := it, ss_inflight := m, ss_count := ss_count s + 1, ss_last_send := sy_now sy\<rparr>) e1 =
         Some (Ok False, s', e')"
proof (cases "length (ifm_map (ss_inflight s)) < cf_sync_msg_inflight (sy_config sy)")
  case False
  then show ?thesis
    using full assms by (simp add: send_fresh.simps [of sy st s])
next
  case window: True
  obtain r it where n: "iterator_next sy st e (ss_iterator s) = (r, it)"
    by (metis surj_pair)
  obtain x where r: "r = Ok x"
    using assms window n by (cases r) (simp_all add: send_fresh.simps [of sy st s])
  show ?thesis
  proof (cases x)
    case None
    then show ?thesis
      using none assms window n r by (simp add: send_fresh.simps [of sy st s])
  next
    case (Some kv)
    obtain k v where kv: "kv = (k, v)"
      by (cases kv)
    let ?msg = "\<lparr>msd_vnode = vs_num st, msd_cookie = ss_cookie s, msd_seq = ss_count s, msd_key = k, msd_value = v\<rparr>"
    obtain res e1 where send: "send_msg sy (ss_peer s) (SyncSend ?msg) e = Some (res, e1)" "from_result res = Continue"
      using assms window n r Some kv by (auto simp: send_fresh.simps [of sy st s] Let_def split: option.splits if_splits)
    obtain m where ins: "ifm_insert (ss_inflight s) (ss_count s) ?msg (msg_timeout sy) = Some m"
      using assms window n r Some kv send by (auto simp: send_fresh.simps [of sy st s] Let_def split: option.splits)
    show ?thesis
      by (rule item [OF window n [unfolded r Some kv] send])
         (use assms window n r Some kv send ins in \<open>simp_all add: send_fresh.simps [of sy st s] Let_def\<close>)
  qed
qed

text \<open>New messages take keys from the iterator; the loop stops when the window is full or nothing is left.\<close>

lemma send_fresh_progress:
  assumes "send_fresh sy st s e = Some (Ok False, s', e')" "log_agrees sy st e L"
  shows "\<exists>new. progress L s e new s' e' \<and>
    (ifm_map (ss_inflight s') = [] \<longrightarrow> 0 < cf_sync_msg_inflight (sy_config sy) \<longrightarrow> (\<forall>key. \<not> covers L (ss_iterator s') key))"
  using assms
proof (induction "cf_sync_msg_inflight (sy_config sy) - length (ifm_map (ss_inflight s))" arbitrary: s e rule: less_induct)
  case less
  from less.prems(1) show ?case
  proof (cases rule: send_fresh_cases)
    case full
    then show ?thesis
      using progress_refl by (intro exI [of _ "[]"]) auto
  next
    case (none it)
    have "\<not> covers L (ss_iterator s) key" "\<not> covers L it key" for key
      using iterator_next_covers [OF none(1) less.prems(2)] iterator_next_done [OF none(1) less.prems(2)] by auto
    then show ?thesis
      by (intro exI [of _ "[]"]) (simp add: none(2,3) progress_def carries_refl tracked_def)
  next
    case (item k v it msg res e1 m)
    note one = item_progress [OF item(2) less.prems(2) item(3-6)]
    let ?s = "s\<lparr>ss_iterator := it, ss_inflight := m, ss_count := ss_count s + 1, ss_last_send := sy_now sy\<rparr>"
    have agree: "log_agrees sy st e1 L"
      using less.prems(2) log_agrees_carries [OF send_msg_carries [OF item(3,4)]] by blast
    have smaller: "cf_sync_msg_inflight (sy_config sy) - length (ifm_map (ss_inflight ?s)) <
        cf_sync_msg_inflight (sy_config sy) - length (ifm_map (ss_inflight s))"
      using item(1) ifm_insert_grows [OF item(5)] by simp
    from less.hyps [OF smaller item(7) agree] obtain new where new: "progress L ?s e1 new s' e' \<and>
        (ifm_map (ss_inflight s') = [] \<longrightarrow> 0 < cf_sync_msg_inflight (sy_config sy) \<longrightarrow> (\<forall>key. \<not> covers L (ss_iterator s') key))" ..
    show ?thesis
      using progress_trans [OF one conjunct1 [OF new]] conjunct2 [OF new] by (intro exI conjI)
  qed
qed

section \<open>Runs of a sender\<close>

lemma sender_success_fin_cases:
  assumes "sender_success_fin sy st s e = Some (Continue, s', e')"
  shows "s' = s\<lparr>ss_last_send := sy_now sy\<rparr> \<and> ev_effects e' = ev_effects e @
    [Sent (ss_peer s) (SyncFin \<lparr>msf_vnode = vs_num st, msf_cookie = ss_cookie s, msf_result = Ok (ss_clocks_snapshot s)\<rparr>)]"
  using assms
  by (auto simp: sender_success_fin_def send_fin_def bind_eq_Some_conv carries_def dest!: send_msg_carries)

lemma send_error_fin_Error: "send_error_fin sy st err sync e \<noteq> Some (Continue, sync', e')"
  by (auto simp: send_error_fin_def bind_eq_Some_conv)

lemma sender_send_next_progress:
  assumes "sender_send_next sy st variant s e = Some (Continue, sync', e')" "log_agrees sy st e L" "ifm_wf (ss_inflight s)"
  obtains new s1 e1 where "progress L s e new s1 e1" "sync' = variant s1" "e' = e1"
  | new s1 e1 fin where "progress L s e new s1 e1" "sync' = variant (s1\<lparr>ss_last_send := sy_now sy\<rparr>)" "ifm_map (ss_inflight s1) = []"
      "ev_effects e' = ev_effects e1 @ [Sent (ss_peer s1) (SyncFin fin)]"
      "0 < cf_sync_msg_inflight (sy_config sy) \<longrightarrow> (\<forall>key. \<not> covers L (ss_iterator s1) key)"
proof -
  from assms(1) obtain s0 e0 where resend: "resend_expired sy s e = Some (Continue, s0, e0)"
    by (auto simp: sender_send_next_def bind_eq_Some_conv split: if_splits)
  obtain new0 where p0: "progress L s e new0 s0 e0"
    using resent_progress [OF resend_expired_resent [OF resend assms(3)]] by blast
  then have c0: "carries e new0 e0"
    by (simp add: progress_def)
  have agree: "log_agrees sy st e0 L"
    using assms(2) by (simp add: log_agrees_carries [OF c0])
  from assms(1) resend obtain res s1 e1 where fresh': "send_fresh sy st s0 e0 = Some (res, s1, e1)"
    by (cases "send_fresh sy st s0 e0") (auto simp: sender_send_next_def)
  have "res = Ok False"
  proof (cases res)
    case (Ok failed)
    then show ?thesis
      using assms(1) resend fresh' send_error_fin_Error [of sy st SyncInterrupted "variant s1" e1]
      by (cases failed) (simp_all add: sender_send_next_def)
  qed (use assms(1) resend fresh' in \<open>simp_all add: sender_send_next_def\<close>)
  with fresh' have fresh: "send_fresh sy st s0 e0 = Some (Ok False, s1, e1)"
    by simp
  obtain new1 where p1: "progress L s0 e0 new1 s1 e1 \<and>
      (ifm_map (ss_inflight s1) = [] \<longrightarrow> 0 < cf_sync_msg_inflight (sy_config sy) \<longrightarrow> (\<forall>key. \<not> covers L (ss_iterator s1) key))"
    using send_fresh_progress [OF fresh agree] ..
  note p = progress_trans [OF p0 conjunct1 [OF p1]]
  show ?thesis
  proof (cases "ifm_map (ss_inflight s1) = []")
    case True
    then obtain s2 where fin: "sender_success_fin sy st s1 e1 = Some (Continue, s2, e')" and sync': "sync' = variant s2"
      using assms(1) resend fresh
      by (cases "sender_success_fin sy st s1 e1") (auto simp: sender_send_next_def)
    note fins = sender_success_fin_cases [OF fin]
    show ?thesis
      by (rule that(2) [OF p _ True conjunct2 [OF fins]]) (use fins sync' p1 True in simp_all)
  next
    case False
    then show ?thesis
      using that(1) [OF p] assms(1) resend fresh by (simp add: sender_send_next_def)
  qed
qed

text \<open>
  The steps of a sender from its start, in any surroundings that agree on the log: it sends what is
  due, without an error, and it takes acknowledgements. \<open>sent\<close> and \<open>acked\<close> are the messages sent and
  those acknowledged after they were sent.
\<close>

inductive sync_run :: "'db rocks \<Rightarrow> (dot \<Rightarrow> bytes option) \<Rightarrow> (sync_sender \<Rightarrow> synchronization) \<Rightarrow> sync_sender \<Rightarrow>
    sync_sender \<Rightarrow> msg_sync_send set \<Rightarrow> msg_sync_send set \<Rightarrow> bool" for rk L variant s0 where
  run_start: "sync_run rk L variant s0 s0 {} {}"
| run_next: "sync_run rk L variant s0 s sent acked \<Longrightarrow> sy_rocks sy = rk \<Longrightarrow> log_agrees sy st e L \<Longrightarrow>
     send_next sy st (variant s) e = Some (Continue, variant s', e') \<Longrightarrow>
     sync_run rk L variant s0 s' (sent \<union> sync_msgs (drop (length (ev_effects e)) (ev_effects e'))) acked"
| run_ack: "sync_run rk L variant s0 s sent acked \<Longrightarrow> sy_rocks sy = rk \<Longrightarrow>
     sync_run rk L variant s0 (sender_ack sy a s) sent (acked \<union> {m \<in> sent. msd_seq m = msa_seq a})"

definition sender_variant :: "(sync_sender \<Rightarrow> synchronization) \<Rightarrow> bool" where
  "sender_variant variant \<longleftrightarrow> variant \<in> insert BootstrapSender (range SyncSender)"

lemma sender_variantD:
  assumes "sender_variant variant"
  shows "send_next sy st (variant s) e = sender_send_next sy st variant s e" "variant s = variant s' \<longleftrightarrow> s = s'"
  using assms by (auto simp: sender_variant_def send_next_def)

lemma ack_tracked:
  assumes "tracked s sent acked"
  shows "tracked (sender_ack sy a s) sent (acked \<union> {m \<in> sent. msd_seq m = msa_seq a})"
proof -
  have "ifm_wf (snd (ifm_remove (ss_inflight s) (msa_seq a)))"
    using assms ifm_wf_remove by (auto simp: tracked_def)
  moreover have "set (AList.delete (msa_seq a) (ifm_map (ss_inflight s))) \<subseteq> set (ifm_map (ss_inflight s))"
    by (auto simp: AList.delete_eq)
  ultimately show ?thesis
    using assms by (auto simp: tracked_def sender_ack_def ifm_remove_def fst_set_delete)
qed

lemma sync_msgs_fin [simp]: "sync_msgs [Sent peer (SyncFin fin)] = {}"
  by (simp add: sync_msgs_def)

lemma tracked_touch [simp]: "tracked (s\<lparr>ss_last_send := t\<rparr>) sent acked = tracked s sent acked"
  by (simp add: tracked_def)

text \<open>One step: what is sent stays tracked, what is covered stays covered or is sent.\<close>

lemma send_next_step:
  assumes "sender_variant variant" "send_next sy st (variant s) e = Some (Continue, variant s', e')" "log_agrees sy st e L"
    "tracked s sent acked"
  defines "sent' \<equiv> sent \<union> sync_msgs (drop (length (ev_effects e)) (ev_effects e'))"
  shows "tracked s' sent' acked \<and> (covers L (ss_iterator s) key \<longrightarrow> covers L (ss_iterator s') key \<or> key \<in> msd_key ` sent') \<and>
    (Sent peer (SyncFin fin) \<in> set (drop (length (ev_effects e)) (ev_effects e')) \<longrightarrow> ifm_map (ss_inflight s') = [] \<and>
       (0 < cf_sync_msg_inflight (sy_config sy) \<longrightarrow> \<not> covers L (ss_iterator s') key))"
proof -
  note run = assms(2) [unfolded sender_variantD(1) [OF assms(1)]]
  have wf: "ifm_wf (ss_inflight s)"
    using assms(4) by (simp add: tracked_def)
  from run assms(3) wf show ?thesis
  proof (cases rule: sender_send_next_progress)
    case (1 new s1 e1)
    then have "s' = s1"
      using sender_variantD(2) [OF assms(1)] by simp
    then show ?thesis
      using 1 assms(4) by (auto simp: sent'_def progress_def carries_def)
  next
    case (2 new s1 e1 fin')
    then have s': "s' = s1\<lparr>ss_last_send := sy_now sy\<rparr>"
      using sender_variantD(2) [OF assms(1)] by simp
    have "drop (length (ev_effects e)) (ev_effects e') = new @ [Sent (ss_peer s1) (SyncFin fin')]"
      using 2(1,4) by (simp add: progress_def carries_def)
    then show ?thesis
      using 2 assms(4) s' by (auto simp: sent'_def progress_def)
  qed
qed

lemma sync_run_invariant:
  assumes "sync_run rk L variant s0 s sent acked" "sender_variant variant" "ss_inflight s0 = ifm_new"
  shows "tracked s sent acked \<and> (covers L (ss_iterator s0) key \<longrightarrow> covers L (ss_iterator s) key \<or> key \<in> msd_key ` sent)"
  using assms(1)
proof (induction rule: sync_run.induct)
  case run_start
  then show ?case
    using assms(3) ifm_wf_new by (simp add: tracked_def ifm_new_def)
next
  case (run_next s sent acked sy st e s' e')
  then show ?case
    using send_next_step [OF assms(2) run_next.hyps(4,3), of sent acked key] by (auto simp: image_Un)
next
  case (run_ack s sent acked sy a)
  have "ss_iterator (sender_ack sy a s) = ss_iterator s"
    by (simp add: sender_ack_def)
  then show ?case
    using run_ack.IH ack_tracked [of s sent acked sy a] by simp
qed

lemma run_transfers:
  assumes "sync_run rk L variant s0 s sent acked" "sender_variant variant" "ss_inflight s0 = ifm_new"
    "log_agrees sy st e L" "0 < cf_sync_msg_inflight (sy_config sy)"
    "send_next sy st (variant s) e = Some (Continue, variant s', e')"
    "Sent peer (SyncFin fin) \<in> set (drop (length (ev_effects e)) (ev_effects e'))" "covers L (ss_iterator s0) key"
  shows "\<exists>m\<in>acked. msd_key m = key"
proof -
  note inv = sync_run_invariant [OF assms(1-3), of key]
  note step = send_next_step [OF assms(2,6,4) conjunct1 [OF inv], of key peer fin]
  let ?sent = "sent \<union> sync_msgs (drop (length (ev_effects e)) (ev_effects e'))"
  have "tracked s' ?sent acked" "ifm_map (ss_inflight s') = []" "key \<in> msd_key ` ?sent"
    using inv step assms(5,7,8) by (auto simp: image_Un)
  then show ?thesis
    by (auto simp: tracked_def)
qed

section \<open>The resend loop ends\<close>

definition expired :: "instant \<Rightarrow> (u64, msg_sync_send, instant) in_flight_map \<Rightarrow> nat" where
  "expired now m = length (filter (\<lambda>p. fst p \<le> now) (ifm_heap m))"

lemma expired_pop:
  assumes "heap_peek (ifm_heap m) = Some (t, k)" "t \<le> now"
  shows "expired now (m\<lparr>ifm_heap := heap_pop (ifm_heap m)\<rparr>) < expired now m"
proof -
  have "(t, k) \<in> set (ifm_heap m)"
    using heap_peek_Some [OF assms(1)] by simp
  then have "(t, k) \<in> set (filter (\<lambda>p. fst p \<le> now) (ifm_heap m))"
    using assms(2) by simp
  moreover have "filter (\<lambda>p. fst p \<le> now) (remove1 (t, k) (ifm_heap m)) = remove1 (t, k) (filter (\<lambda>p. fst p \<le> now) (ifm_heap m))"
    by (rule filter_remove1)
  ultimately show ?thesis
    using assms(1) length_pos_if_in_set by (fastforce simp: expired_def heap_pop_def length_remove1)
qed

lemma touch_expired_decreases:
  "ifm_touch_expired m now expire = (Some p, m') \<Longrightarrow> now < expire \<Longrightarrow> expired now m' < expired now m"
proof (induction m now expire rule: ifm_touch_expired.induct)
  case (1 m now expire)
  from "1.prems"(1) obtain t k where peek: "heap_peek (ifm_heap m) = Some (t, k)" "t \<le> now"
    by (auto simp: ifm_touch_expired.simps [of m] split: option.splits if_splits)
  note pop = expired_pop [OF peek]
  show ?case
  proof (cases "map_of (ifm_map m) k")
    case None
    then show ?thesis
      using "1.IH" [OF peek(1) refl peek(2) None] "1.prems" peek pop
      by (simp add: ifm_touch_expired.simps [of m])
  next
    case (Some v)
    then have "m' = m\<lparr>ifm_heap := heap_push (expire, k) (heap_pop (ifm_heap m))\<rparr>"
      using "1.prems"(1) peek by (simp add: ifm_touch_expired.simps [of m])
    then show ?thesis
      using pop "1.prems"(2) by (simp add: expired_def heap_push_def)
  qed
qed

lemma resend_expired_total:
  assumes "ss_peer s \<noteq> this_node e" "0 < cf_sync_msg_timeout (sy_config sy)"
  shows "\<exists>r. resend_expired sy s e = Some r"
  using assms(1)
proof (induction "expired (sy_now sy) (ss_inflight s)" arbitrary: s e rule: less_induct)
  case less
  obtain r m where touch: "ifm_touch_expired (ss_inflight s) (sy_now sy) (msg_timeout sy) = (r, m)"
    by (metis surj_pair)
  show ?case
  proof (cases r)
    case None
    then show ?thesis
      using touch by (simp add: resend_expired.simps [of sy s])
  next
    case (Some p)
    obtain q msg where p: "p = (q, msg)"
      by (cases p)
    obtain res e1 where send: "send_msg sy (ss_peer s) (SyncSend msg) e = Some (res, e1)" "quiet e e1"
      using send_msg_total [OF less.prems] by blast
    have "expired (sy_now sy) m < expired (sy_now sy) (ss_inflight s)"
      using touch_expired_decreases touch assms(2) Some by (simp add: msg_timeout_def)
    moreover have "this_node e1 = this_node e"
      using send(1) by (auto simp: send_msg_def split: if_splits)
    ultimately have "\<exists>r. resend_expired sy (s\<lparr>ss_inflight := m\<rparr>) e1 = Some r"
      using less.hyps [of "s\<lparr>ss_inflight := m\<rparr>" e1] less.prems by simp
    then show ?thesis
      using touch Some p send(1) by (simp add: resend_expired.simps [of sy s])
  qed
qed

section \<open>A key that could not be sent\<close>

lemma touch_expired_empty:
  "ifm_map m = [] \<Longrightarrow> \<exists>m'. ifm_touch_expired m now expire = (None, m') \<and> ifm_map m' = []"
proof (induction m now expire rule: ifm_touch_expired.induct)
  case (1 m now expire)
  then show ?case
    by (subst ifm_touch_expired.simps) (auto split: option.split)
qed

lemma resend_nothing:
  assumes "ifm_map (ss_inflight s) = []"
  shows "\<exists>m. resend_expired sy s e = Some (Continue, s\<lparr>ss_inflight := m\<rparr>, e) \<and> ifm_map m = []"
  using touch_expired_empty [OF assms, of "sy_now sy" "msg_timeout sy"]
  by (auto simp: resend_expired.simps [of sy s])

lemma send_next_no_route:
  assumes "ifm_map (ss_inflight s) = []" "0 < cf_sync_msg_inflight (sy_config sy)" "ss_peer s \<noteq> this_node e"
    "iterator_next sy st e (ss_iterator s) = (Ok (Some (k, v)), it)" "\<And>msg. \<not> sy_route sy (ss_peer s) msg"
  shows "\<exists>m. send_next sy st (SyncSender c s) e = Some (Error, SyncSender c (s\<lparr>ss_inflight := m, ss_iterator := it\<rparr>), e) \<and> ifm_map m = []"
proof -
  obtain m where m: "resend_expired sy s e = Some (Continue, s\<lparr>ss_inflight := m\<rparr>, e)" "ifm_map m = []"
    using resend_nothing [OF assms(1)] by blast
  have "send_fresh sy st (s\<lparr>ss_inflight := m\<rparr>) e = Some (Err (), s\<lparr>ss_inflight := m, ss_iterator := it\<rparr>, e)"
    using assms m(2) by (simp add: send_fresh.simps [of sy st "s\<lparr>ss_inflight := m\<rparr>"] Let_def send_msg_def from_result_def)
  then show ?thesis
    using m by (intro exI [of _ m]) (simp add: send_next_def sender_send_next_def)
qed

lemma send_next_finished:
  assumes "ifm_map (ss_inflight s) = []" "0 < cf_sync_msg_inflight (sy_config sy)" "ss_peer s \<noteq> this_node e"
    "iterator_next sy st e (ss_iterator s) = (Ok None, it)" "\<And>msg. sy_route sy (ss_peer s) msg"
  shows "\<exists>s'. send_next sy st (SyncSender c s) e = Some (Continue, SyncSender c s',
    e\<lparr>ev_effects := ev_effects e @ [Sent (ss_peer s)
      (SyncFin \<lparr>msf_vnode = vs_num st, msf_cookie = ss_cookie s, msf_result = Ok (ss_clocks_snapshot s)\<rparr>)]\<rparr>)"
proof -
  obtain m where m: "resend_expired sy s e = Some (Continue, s\<lparr>ss_inflight := m\<rparr>, e)" "ifm_map m = []"
    using resend_nothing [OF assms(1)] by blast
  have "send_fresh sy st (s\<lparr>ss_inflight := m\<rparr>) e = Some (Ok False, s\<lparr>ss_inflight := m, ss_iterator := it\<rparr>, e)"
    using assms m(2) by (simp add: send_fresh.simps [of sy st "s\<lparr>ss_inflight := m\<rparr>"])
  then show ?thesis
    using m assms(3,5)
    by (simp add: send_next_def sender_send_next_def sender_success_fin_def send_fin_def send_msg_def from_result_def)
qed

lemma send_next_single:
  assumes "ifm_map (ss_inflight s) = []" "1 < cf_sync_msg_inflight (sy_config sy)" "ss_peer s \<noteq> this_node e"
    "iterator_next sy st e (ss_iterator s) = (Ok (Some (k, v)), it)" "\<And>msg. sy_route sy (ss_peer s) msg"
  defines "msg \<equiv> \<lparr>msd_vnode = vs_num st, msd_cookie = ss_cookie s, msd_seq = ss_count s, msd_key = k, msd_value = v\<rparr>"
  defines "e' \<equiv> e\<lparr>ev_effects := ev_effects e @ [Sent (ss_peer s) (SyncSend msg)]\<rparr>"
  assumes "iterator_next sy st e' it = (Ok None, it')"
  shows "\<exists>s'. send_next sy st (SyncSender c s) e = Some (Continue, SyncSender c s', e') \<and>
    ss_iterator s' = it' \<and> ifm_map (ss_inflight s') = [(ss_count s, msg)] \<and> ss_peer s' = ss_peer s"
proof -
  obtain m where m: "resend_expired sy s e = Some (Continue, s\<lparr>ss_inflight := m\<rparr>, e)" "ifm_map m = []"
    using resend_nothing [OF assms(1)] by blast
  obtain m' where m': "ifm_insert m (ss_count s) msg (msg_timeout sy) = Some m'" "ifm_map m' = [(ss_count s, msg)]"
    using m(2) by (simp add: ifm_insert_def Let_def)
  let ?s = "s\<lparr>ss_iterator := it, ss_inflight := m', ss_count := ss_count s + 1, ss_last_send := sy_now sy\<rparr>"
  have "send_fresh sy st ?s e' = Some (Ok False, ?s\<lparr>ss_iterator := it'\<rparr>, e')"
    using assms(2,8) m'(2) by (simp add: send_fresh.simps [of sy st ?s])
  then have "send_fresh sy st (s\<lparr>ss_inflight := m\<rparr>) e = Some (Ok False, ?s\<lparr>ss_iterator := it'\<rparr>, e')"
    using assms(2-5) m(2) m'(1)
    by (simp add: send_fresh.simps [of sy st "s\<lparr>ss_inflight := m\<rparr>"] Let_def send_msg_def from_result_def msg_def e'_def)
  then show ?thesis
    using m m' by (simp add: send_next_def sender_send_next_def)
qed

section \<open>An exchange of one key\<close>

text \<open>The exchange in which the node has one dot its peer lacks, logged for the key \<open>k\<close>.\<close>

definition sync_env :: "mem_db env" where
  "sync_env = ref_env\<lparr>ev_db := ([], [(build_log_key 0 (1, 1), ''k'')])\<rparr>"

definition sync_state :: vnode_state where
  "sync_state = ref_state\<lparr>vs_clocks := [(1, \<lparr>bv_base = 1, bv_bitmap = {}\<rparr>)]\<rparr>"

definition sync_log :: "dot \<Rightarrow> bytes option" where
  "sync_log dot = map_of [(build_log_key 0 (1, 1), ''k'')] (build_log_key 0 dot)"

definition sync_start :: msg_sync_start where
  "sync_start = \<lparr>mss_vnode = 0, mss_cookie = Cookie 0 1, mss_clocks_in_peer = bvv_new, mss_target = Some 1\<rparr>"

lemma sync_example:
  "log_agrees ref_sys sync_state (sync_env\<lparr>ev_effects := fx\<rparr>) sync_log"
  "bvv_delta (vs_clocks sync_state) bvv_new = [(1, 1)]"
  "iterator_next ref_sys sync_state (sync_env\<lparr>ev_effects := fx\<rparr>) (Keys_Iter (sync_keys_new [(1, 1)])) =
     (Ok (Some (''k'', cube_new (vs_clocks sync_state))), Keys_Iter (sync_keys_new []))"
  "iterator_next ref_sys sync_state e (Keys_Iter (sync_keys_new [])) = (Ok None, Keys_Iter (sync_keys_new []))"
  subgoal
    by (simp add: log_agrees_def sync_log_def sync_env_def sync_state_def ref_state_def st_log_get_def mem_rocks_def)
  subgoal
    by (simp add: bvv_delta_def bv_delta_collect sync_state_def bitmap_max_def bv_new_def bv_contains_def
      bvv_get_def bvv_new_def int_to_bitmap_def)
  subgoal
    by (simp add: iterator_next_def sync_keys_next_def sync_keys_new_def sync_env_def sync_state_def st_log_get_def
      storage_get_def st_get_def build_key_def mem_rocks_def)
  subgoal
    by (simp add: iterator_next_def sync_keys_next_def sync_keys_new_def)
  done


lemma sync_example_run:
  "\<exists>s0 s s' sent acked e' fin. new_sync_sender ref_sys sync_state sync_env 2 sync_start = Some (SyncSender bvv_new s0) \<and>
    sync_run mem_rocks sync_log (SyncSender bvv_new) s0 s sent acked \<and>
    send_next ref_sys sync_state (SyncSender bvv_new s) sync_env = Some (Continue, SyncSender bvv_new s', e') \<and>
    Sent 2 (SyncFin fin) \<in> set (drop (length (ev_effects sync_env)) (ev_effects e'))"
proof -
  let ?send = "send_next ref_sys sync_state"
  have env [simp]: "sync_env\<lparr>ev_effects := []\<rparr> = sync_env" "ev_effects sync_env = []" "this_node sync_env = 1"
    by (simp_all add: sync_env_def ref_env_def dht_new_def)
  have start: "\<exists>s0. new_sync_sender ref_sys sync_state sync_env 2 sync_start = Some (SyncSender bvv_new s0) \<and>
      ss_iterator s0 = Keys_Iter (sync_keys_new [(1, 1)]) \<and> ifm_map (ss_inflight s0) = [] \<and> ss_peer s0 = 2"
    by (simp add: new_sync_sender_def sync_start_def sender_new_def ifm_new_def sync_example(2) Let_def)
  then obtain s0 where s0: "new_sync_sender ref_sys sync_state sync_env 2 sync_start = Some (SyncSender bvv_new s0)"
      "ss_iterator s0 = Keys_Iter (sync_keys_new [(1, 1)])" "ifm_map (ss_inflight s0) = []" "ss_peer s0 = 2"
    by auto
  obtain s1 e1 m where s1: "?send (SyncSender bvv_new s0) sync_env = Some (Continue, SyncSender bvv_new s1, e1)"
      "ss_iterator s1 = Keys_Iter (sync_keys_new [])" "ifm_map (ss_inflight s1) = [(ss_count s0, m)]" "ss_peer s1 = 2"
    using send_next_single [where sy = ref_sys and st = sync_state and e = sync_env and s = s0 and c = bvv_new, OF s0(3)]
      s0(2,4) sync_example(3) [of "[]"] sync_example(4)
    by (force simp: default_config_def)
  let ?s = "sender_ack ref_sys \<lparr>msa_vnode = 0, msa_cookie = Cookie 0 1, msa_seq = ss_count s0\<rparr> s1"
  have "\<exists>sent acked. sync_run mem_rocks sync_log (SyncSender bvv_new) s0 ?s sent acked"
    using run_ack [OF run_next [OF run_start _ _ s1(1)]] sync_example(1) [of "[]"] by force
  moreover have "\<exists>s' e' fin. ?send (SyncSender bvv_new ?s) sync_env = Some (Continue, SyncSender bvv_new s', e') \<and>
      Sent 2 (SyncFin fin) \<in> set (drop (length (ev_effects sync_env)) (ev_effects e'))"
    using send_next_finished [where sy = ref_sys and st = sync_state and e = sync_env and s = ?s and c = bvv_new] s1(2-4)
    by (fastforce simp: sender_ack_def ifm_remove_def default_config_def sync_example(4))
  ultimately show ?thesis
    using s0(1) by blast
qed

section \<open>Properties\<close>



text \<open>The same for a bootstrap, which sends every key of the store.\<close>

lemma bootstrap_transfers:
  assumes "new_bootstrap_sender sy0 st0 e0 peer start = BootstrapSender s0"
    "sync_run rk L BootstrapSender s0 s sent acked" "log_agrees sy st e L" "0 < cf_sync_msg_inflight (sy_config sy)"
    "send_next sy st (BootstrapSender s) e = Some (Continue, BootstrapSender s', e')"
    "Sent peer (SyncFin fin) \<in> set (drop (length (ev_effects e)) (ev_effects e'))"
    "(key, val) \<in> set (st_iterator (sy_rocks sy0) (vs_num st0) (ev_db e0))"
  shows "\<exists>m\<in>acked. msd_key m = key"
proof -
  have s0: "ss_inflight s0 = ifm_new" "covers L (ss_iterator s0) key"
    using assms(1,7) by (force simp: new_bootstrap_sender_def sender_new_def)+
  have "sender_variant BootstrapSender"
    by (simp add: sender_variant_def)
  then show ?thesis
    using run_transfers [OF assms(2) _ s0(1) assms(3-6) s0(2)] by blast
qed

text \<open>
  C35: A key that cannot be sent while an acknowledgement is handled is lost. The key is taken from the
  iterator, the error is dropped, and once the peer can be reached again the sender reports success
  with its clocks, although the key was never sent.
\<close>

theorem unsent_key_lost:
  assumes "ifm_map (ss_inflight s) = [(msa_seq ack, msg)]" "ss_peer s \<noteq> this_node e" "ss_peer s \<noteq> this_node e2"
    "0 < cf_sync_msg_inflight (sy_config sy)" "0 < cf_sync_msg_inflight (sy_config sy2)"
    "iterator_next sy st e (ss_iterator s) = (Ok (Some (k, v)), it)" "iterator_next sy2 st2 e2 it = (Ok None, it')"
    "\<And>msg. \<not> sy_route sy (ss_peer s) msg" "\<And>msg. sy_route sy2 (ss_peer s) msg"
  shows "\<exists>s1 s2. on_msg_ack sy ack (SyncSender c s) st e = Some (SyncSender c s1, e) \<and>
    send_next sy2 st2 (SyncSender c s1) e2 = Some (Continue, SyncSender c s2, e2\<lparr>ev_effects := ev_effects e2 @
      [Sent (ss_peer s) (SyncFin \<lparr>msf_vnode = vs_num st2, msf_cookie = ss_cookie s, msf_result = Ok (ss_clocks_snapshot s)\<rparr>)]\<rparr>)"
proof -
  let ?s = "sender_ack sy ack s"
  have ack: "ifm_map (ss_inflight ?s) = []" "ss_peer ?s = ss_peer s" "ss_iterator ?s = ss_iterator s" "ss_cookie ?s = ss_cookie s"
    "ss_clocks_snapshot ?s = ss_clocks_snapshot s"
    using assms(1) by (simp_all add: sender_ack_def ifm_remove_def)
  obtain m where m: "send_next sy st (SyncSender c ?s) e = Some (Error, SyncSender c (?s\<lparr>ss_inflight := m, ss_iterator := it\<rparr>), e)"
    "ifm_map m = []"
    using send_next_no_route [of ?s sy e st k v it c] ack assms(2,4,6,8) by auto
  have "\<exists>s2. send_next sy2 st2 (SyncSender c (?s\<lparr>ss_inflight := m, ss_iterator := it\<rparr>)) e2 = Some (Continue, SyncSender c s2,
      e2\<lparr>ev_effects := ev_effects e2 @ [Sent (ss_peer s)
        (SyncFin \<lparr>msf_vnode = vs_num st2, msf_cookie = ss_cookie s, msf_result = Ok (ss_clocks_snapshot s)\<rparr>)]\<rparr>)"
    using send_next_finished [of "?s\<lparr>ss_inflight := m, ss_iterator := it\<rparr>" sy2 e2 st2 it' c] ack m(2) assms(3,5,7,9) by simp
  then show ?thesis
    using m(1) by (simp add: on_msg_ack_def)
qed

theorem unsent_key_lost_witness:
  "let s = (sender_new ref_sys bvv_new (Storage_Iter [(''k'', to_bytes enc_cube (Void vv_new))]) 2 (Cookie 0 1))
        \<lparr>ss_inflight := \<lparr>ifm_map = [(0, \<lparr>msd_vnode = 0, msd_cookie = Cookie 0 1, msd_seq = 0, msd_key = ''j'', msd_value = Void vv_new\<rparr>)],
           ifm_heap = [(1000, 0)]\<rparr>\<rparr>;
       down = ref_sys\<lparr>sy_route := (\<lambda>_ _. False)\<rparr>;
       ack = \<lparr>msa_vnode = 0, msa_cookie = Cookie 0 1, msa_seq = 0\<rparr>
   in \<exists>s1 s2. on_msg_ack down ack (SyncSender bvv_new s) ref_state ref_env = Some (SyncSender bvv_new s1, ref_env) \<and>
     send_next ref_sys ref_state (SyncSender bvv_new s1) ref_env = Some (Continue, SyncSender bvv_new s2,
       ref_env\<lparr>ev_effects := ev_effects ref_env @ [Sent (ss_peer s)
         (SyncFin \<lparr>msf_vnode = vs_num ref_state, msf_cookie = ss_cookie s, msf_result = Ok (ss_clocks_snapshot s)\<rparr>)]\<rparr>)"
  unfolding Let_def
  by (rule unsent_key_lost [where k = "''k''" and v = "Void vv_new" and it = "Storage_Iter []" and it' = "Storage_Iter []"])
     (simp_all add: sender_new_def ref_env_def dht_new_def default_config_def iterator_next_def cube.bytes.de_ser)

text \<open>
  C29: The loop that sends expired messages again ends if the message timeout of the configuration is
  not zero: every message sent again gets a deadline in the future.
\<close>

theorem resend_ends:
  assumes "ss_peer s \<noteq> this_node e" "0 < cf_sync_msg_timeout (sy_config sy)"
  shows "\<exists>res s' e'. resend_expired sy s e = Some (res, s', e')"
  using resend_expired_total [OF assms] by auto

theorem resend_ends_witness:
  "\<exists>res s' e'. resend_expired ref_sys (sender_new ref_sys bvv_new (Storage_Iter []) 2 (Cookie 0 1)) ref_env = Some (res, s', e')"
  by (rule resend_ends) (simp_all add: sender_new_def ref_env_def dht_new_def default_config_def)

end
