(* ===== verification/Spec2Isabelle.thy ===== *)
theory Spec2Isabelle
  imports Server Fabric Client_Hazards Sync_Complete
begin

text \<open>
  Sucredb is a replicated, multi-master key-value store that speaks the Redis protocol. A cluster
  is a ring of vnodes; every write gets a dot (a node and a version of its clock), replicas
  exchange values and clocks, and values are merged with their causal context. This library models
  the program (the Rust sources under \<^verbatim>\<open>src/src\<close>) as functions and proves it correct where it is, and
  states as theorems where it is not.

  \<^bold>\<open>How the program is modelled.\<close> Machine integers are words of their width, byte strings are
  \<open>string\<close>, hash maps are association lists with distinct keys (\<open>lm_wf\<close>). A function that can fail
  returns \<open>('a, 'e) res\<close>: \<open>Ok\<close>, \<open>Err\<close> or \<open>Panic\<close>; where only a panic can occur it returns an option,
  and \<open>None\<close> is the panic. Handlers take the parameters of the program (\<open>sys\<close>: RocksDB, the
  serializers, \<^verbatim>\<open>crc16\<close>, the configuration, the time, random choices, which messages find a route), the
  state, and the shared part of the node (\<open>env\<close>: store, ring, counters, and the list of effects:
  messages sent, replies given, notice of a ring change). A handler is one step; theorems about
  the whole node quantify over all sequences of steps and over the parameters of each step.

  \<^bold>\<open>The parts and their theories.\<close>
  \<^item> \<open>Prelude\<close>, \<open>Types\<close> (\<^verbatim>\<open>types.rs\<close>, \<^verbatim>\<open>hash.rs\<close>, \<^verbatim>\<open>utils.rs\<close>): shared types and lemmas, consistency levels,
    hash slots, ids.
  \<^item> \<open>Clock_Interface\<close>, \<open>Version_Vector\<close>, \<open>Bitmapped_Version\<close>, \<open>Bitmapped_Version_Vector\<close>
    (\<^verbatim>\<open>version_vector.rs\<close>): the clocks. The locales \<open>version_clock\<close> and \<open>ordered_clock\<close> say what a clock
    promises of the set of dots it stands for (merge is union, descends is inclusion) and are
    interpreted on both clocks; deltas yield exactly what a peer lacks.
  \<^item> \<open>Causal\<close>, \<open>Cubes\<close> (\<^verbatim>\<open>version_vector.rs\<close>, \<^verbatim>\<open>cubes.rs\<close>): \<open>DotSet\<close>, \<open>DotMap\<close>, \<open>CausalMap\<close> under the locale
    \<open>causal_value\<close>, and the data types. A value register refines the multi-value register, and its
    merge converges; removals of members of sets and maps are shown to be lost by the merge.
  \<^item> \<open>Resp\<close>, \<open>Command_Error\<close> (\<^verbatim>\<open>resp.rs\<close>): serialisation and parser, the round trip, termination and the
    one panic of the parser.
  \<^item> \<open>Framing\<close>, \<open>Server_Codec\<close>, \<open>Server\<close> (\<^verbatim>\<open>server.rs\<close>): the locale \<open>stream_codec\<close> shows that what a reader
    gets from a socket does not depend on how the bytes are cut; the connections of clients, their
    queues of requests, and the server with its workers as a sequence of events. At most one
    command of a client is in flight.
  \<^item> \<open>In_Flight_Map\<close> (\<^verbatim>\<open>inflightmap.rs\<close>): the map whose entries expire.
  \<^item> \<open>Codec\<close>: what is needed of \<^verbatim>\<open>bincode\<close> (\<open>codec\<close>, \<open>value_codec\<close>), with instances for the stored types
    that show that it can be met.
  \<^item> \<open>Storage\<close> (\<^verbatim>\<open>storage.rs\<close>): keys and log of a vnode over a RocksDB parameter.
  \<^item> \<open>Ring\<close>, \<open>Ring_Rebalance\<close>, \<open>Dht\<close> (\<^verbatim>\<open>dht.rs\<close>): the ring, its operations and merge, rebalancing, and the
    service that keeps and exchanges it.
  \<^item> \<open>Fabric_Msg\<close>, \<open>Fabric\<close> (\<^verbatim>\<open>fabric_msg.rs\<close>, \<^verbatim>\<open>fabric.rs\<close>): the messages, their frames, the connections to the
    peers. The lemma \<open>send_msg_fabric\<close> shows that the fabric implements the \<open>send_msg\<close> the handlers use.
  \<^item> \<open>System\<close>, \<open>VNode_State\<close>, \<open>VNode_Sync\<close>, \<open>VNode\<close> (\<^verbatim>\<open>vnode.rs\<close>, \<^verbatim>\<open>vnode_sync.rs\<close>): a vnode: its clocks and
    store, synchronisations, requests, and every handler.
  \<^item> \<open>Database\<close>, \<open>Command\<close>, \<open>Workers\<close> (\<^verbatim>\<open>database.rs\<close>, \<^verbatim>\<open>command.rs\<close>, \<^verbatim>\<open>workers.rs\<close>): a node, the commands of
    clients, and the loop of a worker that dispatches to the handlers.
\<close>

text \<open>
  \<^bold>\<open>What is shown of the whole.\<close>
  \<^item> \<open>VNode_Requests\<close>: a write is stored before anything about it is sent, a quorum decides, the timer
    answers what stays open.
  \<^item> \<open>VNode_Status\<close>, \<open>Node_Invariant\<close>: every handler keeps the discipline of its vnode; in every
    reachable node the counters of synchronisations are exact and the assertions about them hold.
    The locale \<open>command_invariant\<close> lifts what a few operations keep to all commands.
  \<^item> \<open>Answers\<close>: from the start of a node every command is answered exactly once or is held in one
    pending request.
  \<^item> \<open>Sync_Complete\<close>: a synchronisation that reports success has delivered every key the peer lacked,
    provided no send failed on the way; without the proviso a key can be lost. The loop that sends
    again ends.
  \<^item> \<open>Client_Hazards\<close>: commands for which the code panics or leaves something behind.
  \<^item> \<open>Reference_Node\<close>: a node on concrete parameters (a store in memory, the serializers of \<open>Codec\<close>), on
    which the hypotheses of the properties are shown to hold.

  \<^bold>\<open>Loops.\<close> Loops over data are structural recursion or have a termination proof. The parser recurses
  with the length of its input as fuel, and \<open>parse_value_shrinks\<close> shows that this is enough. The
  loops that need not end, \<open>resend_expired\<close> of \<open>VNode_Sync\<close> (with a message timeout of zero) and
  \<open>framed_read\<close> of \<open>Framing\<close> (with a decoder that consumes nothing), are partial functions, and
  \<open>resend_ends\<close> and \<open>framed_read_total\<close> show when they end.

  \<^bold>\<open>Parameters.\<close> RocksDB is an interface with an abstract view of its content (\<open>rocks_ok\<close>): reads return
  what was written, a batch is written as a whole or not at all, iterators are ordered. The
  serializer \<^verbatim>\<open>bincode\<close> reads back what it wrote. \<^verbatim>\<open>crc16\<close>, the clock, random choices and the capacity of
  vectors are arbitrary.

  \<^bold>\<open>What is not modelled.\<close> Threads and locks: a handler runs under the locks of the code and is one
  step. Sockets, the event loops of \<^verbatim>\<open>tokio\<close> and timers: they are sequences of events. Logging,
  metrics (\<^verbatim>\<open>metrics.rs\<close>), reading the configuration from YAML and the command line (\<^verbatim>\<open>config.rs\<close>,
  \<^verbatim>\<open>main.rs\<close>), opening and syncing RocksDB. \<^verbatim>\<open>DeltaVersionVector\<close>, which only tests use, and \<^verbatim>\<open>gossip.rs\<close>, which
  no module declares.
\<close>

end
